(* ===== verification/Prelude.thy ===== *)
theory Prelude
  imports Main "HOL-Library.Monad_Syntax" "HOL-Library.AList"
begin

text \<open>
  Shared vocabulary of the development: the constants of config/config.go, Go's arrays with
  their bounds checks, Go's maps, and the collections of facts the component theories use.

  \<^item> A Go array is a list of fixed length. An access whose index the code has not bounded is
    \<open>arr_get\<close> or \<open>arr_set\<close>: \<open>None\<close> is the run-time panic "index out of range". An access
    whose index is bounded by the loop or guard around it is \<open>mat_at\<close> or \<open>mat_put\<close>.
  \<^item> A Go map is an association list with distinct keys. The order of the list stands for
    Go's unspecified iteration order, so a property proved for every list holds for every
    order in which a \<open>range\<close> loop may visit the map.
  \<^item> A Go \<open>int\<close> is an \<open>int\<close>: the program only counts loops and adds one to a bounded floor.
\<close>

named_theorems wf_intros \<open>well-formedness of the arrays and states operations return\<close>
named_theorems step_simps \<open>defining equations of the handlers, for evaluation and case analysis\<close>

section \<open>Configuration\<close>

abbreviation (input) NUM_FLOORS :: int where "NUM_FLOORS \<equiv> 4"

abbreviation (input) NUM_BUTTONS :: int where "NUM_BUTTONS \<equiv> 3"

text \<open>The loop ranges \<open>for i := 0; i < n; i++\<close> over floors and buttons.\<close>

definition floors :: "int list" where
  "floors = [0, 1, 2, 3]"

definition buttons :: "int list" where
  "buttons = [0, 1, 2]"

definition hall_buttons :: "int list" where
  "hall_buttons = [0, 1]"

lemma floors_upto: "floors = [0 .. NUM_FLOORS - 1]"
  by (simp add: floors_def upto.simps)

lemma buttons_upto: "buttons = [0 .. NUM_BUTTONS - 1]"
  by (simp add: buttons_def upto.simps)

lemma hall_buttons_upto: "hall_buttons = [0 .. NUM_BUTTONS - 2]"
  by (simp add: hall_buttons_def upto.simps)

lemma set_floors [simp]: "f \<in> set floors \<longleftrightarrow> 0 \<le> f \<and> f < NUM_FLOORS"
  by (auto simp: floors_upto)

lemma set_buttons [simp]: "b \<in> set buttons \<longleftrightarrow> 0 \<le> b \<and> b < NUM_BUTTONS"
  by (auto simp: buttons_upto)

lemma set_hall_buttons [simp]: "b \<in> set hall_buttons \<longleftrightarrow> 0 \<le> b \<and> b < NUM_BUTTONS - 1"
  by (auto simp: hall_buttons_upto)

lemma distinct_floors [simp]: "distinct floors"
  by (simp add: floors_def)

lemma distinct_hall_buttons [simp]: "distinct hall_buttons"
  by (simp add: hall_buttons_def)

section \<open>Arrays\<close>

definition arr_get :: "'a list \<Rightarrow> int \<Rightarrow> 'a option" where
  "arr_get xs i = (if 0 \<le> i \<and> i < int (length xs) then Some (xs ! nat i) else None)"

definition arr_set :: "'a list \<Rightarrow> int \<Rightarrow> 'a \<Rightarrow> 'a list option" where
  "arr_set xs i v = (if 0 \<le> i \<and> i < int (length xs) then Some (xs[nat i := v]) else None)"

definition mat_at :: "'a list list \<Rightarrow> int \<Rightarrow> int \<Rightarrow> 'a" where
  "mat_at m i j = m ! nat i ! nat j"

definition mat_put :: "'a list list \<Rightarrow> int \<Rightarrow> int \<Rightarrow> 'a \<Rightarrow> 'a list list" where
  "mat_put m i j v = m[nat i := (m ! nat i)[nat j := v]]"

definition mat_get :: "'a list list \<Rightarrow> int \<Rightarrow> int \<Rightarrow> 'a option" where
  "mat_get m i j = do { row \<leftarrow> arr_get m i; arr_get row j }"

definition mat_set :: "'a list list \<Rightarrow> int \<Rightarrow> int \<Rightarrow> 'a \<Rightarrow> 'a list list option" where
  "mat_set m i j v = do {
     row \<leftarrow> arr_get m i;
     row' \<leftarrow> arr_set row j v;
     arr_set m i row'
   }"

text \<open>The type \<open>[n][k]T\<close>: \<open>n\<close> rows of \<open>k\<close> elements.\<close>

definition wf_mat :: "int \<Rightarrow> int \<Rightarrow> 'a list list \<Rightarrow> bool" where
  "wf_mat n k m \<longleftrightarrow> int (length m) = n \<and> (\<forall>r \<in> set m. int (length r) = k)"

definition zero_mat :: "int \<Rightarrow> int \<Rightarrow> bool list list" where
  "zero_mat n k = replicate (nat n) (replicate (nat k) False)"

lemma wf_mat_row:
  assumes "wf_mat n k m" "0 \<le> i" "i < n"
  shows "int (length (m ! nat i)) = k"
  using assms by (auto simp: wf_mat_def)

lemma wf_mat_zero [wf_intros]: "0 \<le> n \<Longrightarrow> 0 \<le> k \<Longrightarrow> wf_mat n k (zero_mat n k)"
  by (auto simp: wf_mat_def zero_mat_def)

lemma wf_mat_put [wf_intros]:
  assumes "wf_mat n k m"
  shows "wf_mat n k (mat_put m i j v)"
proof (cases "nat i < length m")
  case True
  with assms have "int (length ((m ! nat i)[nat j := v])) = k" by (simp add: wf_mat_def)
  with assms show ?thesis
    using set_update_subset_insert [of m "nat i" "(m ! nat i)[nat j := v]"]
    by (auto simp: wf_mat_def mat_put_def)
next
  case False
  with assms show ?thesis by (simp add: mat_put_def list_update_beyond)
qed

lemma mat_get_inrange:
  assumes "wf_mat n k m" "0 \<le> i" "i < n" "0 \<le> j" "j < k"
  shows "mat_get m i j = Some (mat_at m i j)"
  using assms wf_mat_row [OF assms(1-3)]
  by (simp add: mat_get_def arr_get_def mat_at_def wf_mat_def)

lemma mat_set_inrange:
  assumes "wf_mat n k m" "0 \<le> i" "i < n" "0 \<le> j" "j < k"
  shows "mat_set m i j v = Some (mat_put m i j v)"
  using assms wf_mat_row [OF assms(1-3)]
  by (simp add: mat_set_def arr_get_def arr_set_def mat_put_def wf_mat_def)

lemma mat_get_outrange:
  assumes "wf_mat n k m" "\<not> (0 \<le> i \<and> i < n \<and> 0 \<le> j \<and> j < k)"
  shows "mat_get m i j = None"
  using assms wf_mat_row [OF assms(1)]
  by (auto simp: mat_get_def arr_get_def wf_mat_def)

lemma mat_set_outrange:
  assumes "wf_mat n k m" "\<not> (0 \<le> i \<and> i < n \<and> 0 \<le> j \<and> j < k)"
  shows "mat_set m i j v = None"
  using assms wf_mat_row [OF assms(1)]
  by (auto simp: mat_set_def arr_get_def arr_set_def wf_mat_def)

lemma mat_set_Some:
  assumes "wf_mat n k m" "mat_set m i j v = Some m'"
  shows "0 \<le> i \<and> i < n \<and> 0 \<le> j \<and> j < k \<and> m' = mat_put m i j v"
proof -
  from assms have rng: "0 \<le> i \<and> i < n \<and> 0 \<le> j \<and> j < k"
    using mat_set_outrange [OF assms(1), of i j v] by (cases "0 \<le> i \<and> i < n \<and> 0 \<le> j \<and> j < k") auto
  with assms mat_set_inrange [OF assms(1), of i j v] show ?thesis by simp
qed

lemma mat_at_put:
  assumes "wf_mat n k m" "0 \<le> i" "i < n" "0 \<le> j" "j < k" "0 \<le> i'" "i' < n" "0 \<le> j'" "j' < k"
  shows "mat_at (mat_put m i j v) i' j' = (if i' = i \<and> j' = j then v else mat_at m i' j')"
proof -
  have len: "nat i < length m" "nat j < length (m ! nat i)"
    using assms wf_mat_row [OF assms(1-3)] by (simp_all add: wf_mat_def nat_less_iff)
  have i: "nat i' = nat i \<longleftrightarrow> i' = i" using assms by (simp add: eq_nat_nat_iff)
  have j: "nat j' = nat j \<longleftrightarrow> j' = j" using assms by (simp add: eq_nat_nat_iff)
  show ?thesis
  proof (cases "i' = i")
    case True
    with len j show ?thesis by (cases "j' = j") (simp_all add: mat_at_def mat_put_def)
  next
    case False
    with i show ?thesis by (simp add: mat_at_def mat_put_def)
  qed
qed

lemma mat_at_zero:
  "0 \<le> i \<Longrightarrow> i < n \<Longrightarrow> 0 \<le> j \<Longrightarrow> j < k \<Longrightarrow> mat_at (zero_mat n k) i j = False"
  by (simp add: mat_at_def zero_mat_def)

lemma wf_mat_eqI:
  assumes m: "wf_mat n k m" and m': "wf_mat n k m'"
    and eq: "\<And>i j. 0 \<le> i \<Longrightarrow> i < n \<Longrightarrow> 0 \<le> j \<Longrightarrow> j < k \<Longrightarrow> mat_at m i j = mat_at m' i j"
  shows "m = m'"
proof (rule nth_equalityI)
  show "length m = length m'" using m m' by (simp add: wf_mat_def)
next
  fix a assume a: "a < length m"
  then have a': "0 \<le> int a" "int a < n" using m by (auto simp: wf_mat_def)
  have la: "int (length (m ! a)) = k" "int (length (m' ! a)) = k"
    using wf_mat_row [OF m a'] wf_mat_row [OF m' a'] by simp_all
  show "m ! a = m' ! a"
  proof (rule nth_equalityI)
    show "length (m ! a) = length (m' ! a)" using la by simp
  next
    fix b assume "b < length (m ! a)"
    with la have "0 \<le> int b" "int b < k" by auto
    from eq [OF a' this] show "m ! a ! b = m' ! a ! b" by (simp add: mat_at_def)
  qed
qed

section \<open>Maps\<close>

type_synonym ('k, 'v) gomap = "('k \<times> 'v) list"

text \<open>
  The interface of Go's map type that the servers and transmitters rely on: a lookup sees the
  last store or delete of its key, and no operation on one key changes another.
\<close>

locale go_map =
  fixes lookup :: "'m \<Rightarrow> 'k \<Rightarrow> 'v option"
    and store :: "'k \<Rightarrow> 'v \<Rightarrow> 'm \<Rightarrow> 'm"
    and remove :: "'k \<Rightarrow> 'm \<Rightarrow> 'm"
    and keys :: "'m \<Rightarrow> 'k set"
    and valid :: "'m \<Rightarrow> bool"
  assumes lookup_store: "lookup (store k v m) k' = (if k' = k then Some v else lookup m k')"
    and lookup_remove: "valid m \<Longrightarrow> lookup (remove k m) k' = (if k' = k then None else lookup m k')"
    and keys_lookup: "k \<in> keys m \<longleftrightarrow> lookup m k \<noteq> None"
    and valid_store: "valid m \<Longrightarrow> valid (store k v m)"
    and valid_remove: "valid m \<Longrightarrow> valid (remove k m)"
begin

lemma keys_store: "keys (store k v m) = insert k (keys m)"
  by (rule set_eqI) (simp add: keys_lookup lookup_store)

lemma keys_remove: "valid m \<Longrightarrow> keys (remove k m) = keys m - {k}"
  by (rule set_eqI) (simp add: keys_lookup lookup_remove)

lemma store_then_remove: "valid m \<Longrightarrow> k' \<noteq> k \<Longrightarrow> lookup (remove k (store k v m)) k' = lookup m k'"
  by (simp add: lookup_remove lookup_store valid_store)

end

definition valid_map :: "('k, 'v) gomap \<Rightarrow> bool" where
  "valid_map m \<longleftrightarrow> distinct (map fst m)"

definition map_keys :: "('k, 'v) gomap \<Rightarrow> 'k set" where
  "map_keys m = set (map fst m)"

interpretation gomap: go_map map_of AList.update AList.delete map_keys valid_map
proof unfold_locales
  fix k k' :: 'a and v :: 'b and m :: "('a \<times> 'b) list"
  show "map_of (AList.update k v m) k' = (if k' = k then Some v else map_of m k')"
    by (simp add: update_conv')
  show "map_of (AList.delete k m) k' = (if k' = k then None else map_of m k')"
    by (simp add: delete_conv')
  show "k \<in> map_keys m \<longleftrightarrow> map_of m k \<noteq> None"
    by (force simp: map_keys_def map_of_eq_None_iff)
  show "valid_map m \<Longrightarrow> valid_map (AList.update k v m)"
    by (simp add: valid_map_def distinct_update)
  show "valid_map m \<Longrightarrow> valid_map (AList.delete k m)"
    by (simp add: valid_map_def distinct_delete)
qed

lemma valid_map_Nil [simp]: "valid_map []"
  by (simp add: valid_map_def)

lemma in_map_iff: "valid_map m \<Longrightarrow> (k, v) \<in> set m \<longleftrightarrow> map_of m k = Some v"
  by (simp add: valid_map_def)

lemma in_map_keysI: "(k, v) \<in> set m \<Longrightarrow> k \<in> map_keys m"
  by (force simp: map_keys_def)

lemmas map_laws = gomap.lookup_store gomap.lookup_remove gomap.keys_store gomap.keys_remove
  gomap.valid_store gomap.valid_remove

section \<open>Runs\<close>

text \<open>A \<open>for\<close> loop over a list whose body may panic, with the loop's variables as its state.\<close>

fun fold_opt :: "('a \<Rightarrow> 's \<Rightarrow> 's option) \<Rightarrow> 'a list \<Rightarrow> 's \<Rightarrow> 's option" where
  "fold_opt body [] s = Some s"
| "fold_opt body (x # xs) s = do { s' \<leftarrow> body x s; fold_opt body xs s' }"

lemma fold_opt_append: "fold_opt body (xs @ ys) s = do { s' \<leftarrow> fold_opt body xs s; fold_opt body ys s' }"
  by (induction xs arbitrary: s) (auto split: Option.bind_splits)

lemma fold_opt_total:
  assumes "\<And>x s. x \<in> set xs \<Longrightarrow> P s \<Longrightarrow> \<exists>s'. body x s = Some s' \<and> P s'" and "P s"
  shows "\<exists>s'. fold_opt body xs s = Some s' \<and> P s'"
  using assms
proof (induction xs arbitrary: s)
  case Nil
  then show ?case by simp
next
  case (Cons x xs)
  from Cons.prems(1) [of x s] Cons.prems(2) obtain s1 where s1: "body x s = Some s1" "P s1" by auto
  have "\<exists>s'. fold_opt body xs s1 = Some s' \<and> P s'"
    by (rule Cons.IH) (use Cons.prems(1) s1(2) in auto)
  with s1(1) show ?case by simp
qed

lemma fold_opt_inv:
  assumes "fold_opt body xs s = Some s'" "P s"
    and "\<And>x s s'. x \<in> set xs \<Longrightarrow> P s \<Longrightarrow> body x s = Some s' \<Longrightarrow> P s'"
  shows "P s'"
  using assms
proof (induction xs arbitrary: s)
  case Nil
  then show ?case by simp
next
  case (Cons x xs)
  from Cons.prems(1) obtain s1 where "body x s = Some s1" "fold_opt body xs s1 = Some s'"
    by (auto split: Option.bind_splits)
  with Cons.IH [of s1] Cons.prems(2,3) show ?case by auto
qed

text \<open>The nested loops over floors and buttons, and over floors and hall buttons, in their order.\<close>

definition grid :: "int list \<Rightarrow> (int \<times> int) list" where
  "grid bs = concat (map (\<lambda>f. map (\<lambda>b. (f, b)) bs) floors)"

lemma set_grid [simp]: "(f, b) \<in> set (grid bs) \<longleftrightarrow> 0 \<le> f \<and> f < NUM_FLOORS \<and> b \<in> set bs"
  by (auto simp: grid_def)

lemma distinct_grid [simp]: "distinct (grid buttons)" "distinct (grid hall_buttons)"
  by (simp_all add: grid_def floors_def buttons_def hall_buttons_def)

text \<open>A polling loop: compare each reading with the one before it, emit on the edges chosen.\<close>

fun poll_edges :: "('v \<Rightarrow> 'v \<Rightarrow> bool) \<Rightarrow> 'v \<Rightarrow> 'v list \<Rightarrow> 'v list" where
  "poll_edges edge prev [] = []"
| "poll_edges edge prev (v # vs) = (if edge prev v then [v] else []) @ poll_edges edge v vs"

lemma poll_edges_append:
  "poll_edges edge prev (vs @ ws) = poll_edges edge prev vs @ poll_edges edge (last (prev # vs)) ws"
  by (induction vs arbitrary: prev) auto

text \<open>
  A goroutine's loop over its inputs: the first panic stops it. Outputs are collected in the
  order they are sent.
\<close>

fun run_steps :: "('s \<Rightarrow> 'e \<Rightarrow> ('s \<times> 'o list) option) \<Rightarrow> 's \<Rightarrow> 'e list \<Rightarrow> ('s \<times> 'o list) option" where
  "run_steps step s [] = Some (s, [])"
| "run_steps step s (e # es) = do {
     (s', out) \<leftarrow> step s e;
     (s'', out') \<leftarrow> run_steps step s' es;
     Some (s'', out @ out')
   }"

lemma run_steps_inv:
  assumes "\<And>s e s' out. P s \<Longrightarrow> Q e \<Longrightarrow> step s e = Some (s', out) \<Longrightarrow> P s'"
    and "P s" "list_all Q es" "run_steps step s es = Some (s', out)"
  shows "P s'"
  using assms(2-4)
proof (induction es arbitrary: s out)
  case Nil
  then show ?case by simp
next
  case (Cons e es)
  from Cons.prems(3) obtain s1 o1 o2 where
    "step s e = Some (s1, o1)" and rest: "run_steps step s1 es = Some (s', o2)"
    by (auto split: Option.bind_splits prod.splits)
  with assms(1) Cons.prems(1,2) have "P s1" by auto
  from Cons.IH [OF this _ rest] Cons.prems(2) show ?case by simp
qed

lemma run_steps_total:
  assumes "\<And>s e. P s \<Longrightarrow> Q e \<Longrightarrow> \<exists>s' out. step s e = Some (s', out) \<and> P s'"
    and "P s" "list_all Q es"
  shows "\<exists>s' out. run_steps step s es = Some (s', out) \<and> P s'"
  using assms(2,3)
proof (induction es arbitrary: s)
  case Nil
  then show ?case by simp
next
  case (Cons e es)
  from Cons.prems have "Q e" by simp
  from assms(1) [OF Cons.prems(1) this] obtain s1 o1
    where s1: "step s e = Some (s1, o1)" "P s1" by blast
  from Cons.prems have "list_all Q es" by simp
  from Cons.IH [OF s1(2) this] obtain s' o2 where "run_steps step s1 es = Some (s', o2)" "P s'" by blast
  with s1 show ?case by simp
qed

section \<open>Steps that end\<close>

text \<open>
  The contract of a system whose possible steps lower a weight: they end; and if no step panics,
  some run of steps leads to a state in which none is possible.
\<close>

locale lowering =
  fixes can :: "'s \<Rightarrow> 'a \<Rightarrow> bool"
    and step :: "'s \<Rightarrow> 'a \<Rightarrow> 's option"
    and weight :: "'s \<Rightarrow> 'w :: wellorder"
  assumes step_lower: "can s a \<Longrightarrow> step s a = Some s' \<Longrightarrow> weight s' < weight s"
begin

lemma steps_end: "wf {(s', s). \<exists>a. can s a \<and> step s a = Some s'}"
proof (rule wf_subset)
  have "wfp ((<) :: 'w \<Rightarrow> _)" by (rule wfp_on_less)
  then have "wf {(w' :: 'w, w). w' < w}" unfolding wfp_def .
  then show "wf (inv_image {(w', w). w' < w} weight)" by (rule wf_inv_image)
  show "{(s', s). \<exists>a. can s a \<and> step s a = Some s'} \<subseteq> inv_image {(w', w). w' < w} weight"
    using step_lower by (auto simp: inv_image_def)
qed

end

locale settling = lowering can step weight
  for can :: "'s \<Rightarrow> 'a \<Rightarrow> bool" and step :: "'s \<Rightarrow> 'a \<Rightarrow> 's option" and weight :: "'s \<Rightarrow> 'w :: wellorder" +
  fixes ok :: "'s \<Rightarrow> bool"
  assumes step_ok: "ok s \<Longrightarrow> can s a \<Longrightarrow> \<exists>s'. step s a = Some s' \<and> ok s'"
begin

lemma settles:
  assumes "ok s"
  shows "\<exists>as s'. fold_opt (\<lambda>a s. if can s a then step s a else None) as s = Some s' \<and> ok s' \<and> (\<forall>a. \<not> can s' a)"
  using assms
proof (induction "weight s" arbitrary: s rule: less_induct)
  case less
  show ?case
  proof (cases "\<exists>a. can s a")
    case True
    then obtain a where a: "can s a" by blast
    from step_ok [OF less.prems a] obtain s1 where s1: "step s a = Some s1" "ok s1" by blast
    from less.hyps [OF step_lower [OF a s1(1)] s1(2)] obtain as s' where
      "fold_opt (\<lambda>a s. if can s a then step s a else None) as s1 = Some s'" "ok s'" "\<forall>a. \<not> can s' a" by blast
    with a s1(1) show ?thesis by (intro exI [of _ "a # as"] exI [of _ s']) simp
  next
    case False
    with less.prems show ?thesis by (intro exI [of _ "[]"] exI [of _ s]) simp
  qed
qed

end

end
