(* ===== verification/Go_Time.thy ===== *)
theory Go_Time
  imports Prelude
begin

text \<open>
  The part of Go's package time the program uses, the durations of config/config.go and the
  package util/timer. A \<open>Time\<close> counts nanoseconds from Go's zero time, so \<open>time.Time{}\<close> is 0
  and \<open>IsZero\<close> compares with it; a \<open>Duration\<close> is nanoseconds. \<open>Sub\<close> saturates at the ends of
  a 64-bit duration, as the library's does. A function that reads the clock takes \<open>now\<close>.
\<close>

section \<open>Instants and durations\<close>

datatype Time = Instant (nanos: int)

type_synonym Duration = int

instantiation Time :: zero
begin

definition zero_Time :: Time where
  "zero_Time = Instant 0"

instance ..

end

instantiation Time :: linorder
begin

definition less_eq_Time :: "Time \<Rightarrow> Time \<Rightarrow> bool" where
  "less_eq_Time s t \<longleftrightarrow> nanos s \<le> nanos t"

definition less_Time :: "Time \<Rightarrow> Time \<Rightarrow> bool" where
  "less_Time s t \<longleftrightarrow> nanos s < nanos t"

instance
proof
  fix s t u :: Time
  show "(s < t) = (s \<le> t \<and> \<not> t \<le> s)" by (auto simp: less_Time_def less_eq_Time_def)
  show "s \<le> s" by (simp add: less_eq_Time_def)
  show "s \<le> t \<Longrightarrow> t \<le> u \<Longrightarrow> s \<le> u" by (simp add: less_eq_Time_def)
  show "s \<le> t \<Longrightarrow> t \<le> s \<Longrightarrow> s = t" by (simp add: less_eq_Time_def Time.expand)
  show "s \<le> t \<or> t \<le> s" by (auto simp: less_eq_Time_def)
qed

end

definition IsZero :: "Time \<Rightarrow> bool" where
  "IsZero t \<longleftrightarrow> t = 0"

definition Before :: "Time \<Rightarrow> Time \<Rightarrow> bool" where
  "Before s t \<longleftrightarrow> s < t"

definition Add :: "Time \<Rightarrow> Duration \<Rightarrow> Time" where
  "Add t d = Instant (nanos t + d)"

abbreviation (input) maxDuration :: Duration where "maxDuration \<equiv> 2 ^ 63 - 1"

abbreviation (input) minDuration :: Duration where "minDuration \<equiv> - (2 ^ 63)"

definition Sub :: "Time \<Rightarrow> Time \<Rightarrow> Duration" where
  "Sub t u = max minDuration (min maxDuration (nanos t - nanos u))"

definition Since :: "Time \<Rightarrow> Time \<Rightarrow> Duration" where
  "Since now t = Sub now t"

definition Until :: "Time \<Rightarrow> Time \<Rightarrow> Duration" where
  "Until now t = Sub t now"

lemma IsZero_iff: "IsZero t \<longleftrightarrow> nanos t = 0"
  by (cases t) (simp add: IsZero_def zero_Time_def)

lemma Sub_le_zero: "Sub t u \<le> 0 \<longleftrightarrow> nanos t \<le> nanos u"
  by (simp add: Sub_def min_le_iff_disj)

lemma Sub_less_iff: "minDuration < d \<Longrightarrow> d \<le> maxDuration \<Longrightarrow> Sub t u < d \<longleftrightarrow> nanos t - nanos u < d"
  by (simp add: Sub_def min_less_iff_disj)

section \<open>Configured durations\<close>

abbreviation (input) Millisecond :: Duration where "Millisecond \<equiv> 1000000"

definition DOOR_OPEN_DURATION :: Duration where
  "DOOR_OPEN_DURATION = 3000 * Millisecond"

definition DOOR_STUCK_DURATION :: Duration where
  "DOOR_STUCK_DURATION = 30000 * Millisecond"

definition STATE_REQUEST_INTERVAL :: Duration where
  "STATE_REQUEST_INTERVAL = 100 * Millisecond"

definition NODE_CONNECTION_TIMEOUT :: Duration where
  "NODE_CONNECTION_TIMEOUT = 2000 * Millisecond"

lemmas durations = DOOR_OPEN_DURATION_def DOOR_STUCK_DURATION_def STATE_REQUEST_INTERVAL_def
  NODE_CONNECTION_TIMEOUT_def

section \<open>util/timer/timer.go\<close>

record Timer =
  EndTime :: Time
  Active :: bool

definition NewTimer :: Timer where
  "NewTimer = \<lparr>EndTime = 0, Active = False\<rparr>"

definition TimerStart :: "Time \<Rightarrow> Duration \<Rightarrow> Timer \<Rightarrow> Timer" where
  "TimerStart now duration t = t\<lparr>EndTime := Add now duration, Active := True\<rparr>"

definition TimerStop :: "Timer \<Rightarrow> Timer" where
  "TimerStop t = t\<lparr>Active := False\<rparr>"

definition TimerTimedOut :: "Time \<Rightarrow> Timer \<Rightarrow> bool" where
  "TimerTimedOut now t \<longleftrightarrow> Active t \<and> Until now (EndTime t) \<le> 0"

definition TimerTimeLeft :: "Time \<Rightarrow> Timer \<Rightarrow> Duration" where
  "TimerTimeLeft now t =
     (if \<not> Active t then 0
      else let timeLeft = Sub (EndTime t) now in if timeLeft < 0 then 0 else timeLeft)"

lemmas timer_defs = NewTimer_def TimerStart_def TimerStop_def TimerTimedOut_def TimerTimeLeft_def
  Until_def

lemma timed_out_iff: "TimerTimedOut now t \<longleftrightarrow> Active t \<and> EndTime t \<le> now"
  by (simp add: TimerTimedOut_def Until_def Sub_le_zero less_eq_Time_def)

lemma stopped_never_times_out: "\<not> TimerTimedOut now (TimerStop t)"
  by (simp add: timer_defs)

lemma time_left_bounds: "0 \<le> TimerTimeLeft now t \<and> TimerTimeLeft now t \<le> maxDuration"
  by (auto simp: TimerTimeLeft_def Sub_def Let_def max_def min_def)

lemma time_left_zero_iff: "Active t \<Longrightarrow> TimerTimeLeft now t = 0 \<longleftrightarrow> TimerTimedOut now t"
  by (auto simp: TimerTimeLeft_def TimerTimedOut_def Until_def Let_def Sub_def max_def min_def)

lemma started_times_out: "TimerTimedOut now (TimerStart t0 d t) \<longleftrightarrow> nanos t0 + d \<le> nanos now"
  by (simp add: timed_out_iff TimerStart_def Add_def less_eq_Time_def)

section \<open>Properties\<close>

text \<open>A started timer has timed out exactly from the instant its duration has passed, the time it
  reports as left is 0 exactly then and otherwise what is missing, up to the longest duration, and a
  stopped timer never times out.\<close>

theorem timer_on_time:
  "(TimerTimedOut now (TimerStart t0 d t) \<longleftrightarrow> nanos t0 + d \<le> nanos now) \<and>
   TimerTimeLeft now (TimerStart t0 d t) = max 0 (min maxDuration (nanos t0 + d - nanos now)) \<and>
   \<not> TimerTimedOut now (TimerStop t) \<and> TimerTimeLeft now (TimerStop t) = 0"
proof (intro conjI)
  show "TimerTimeLeft now (TimerStart t0 d t) = max 0 (min maxDuration (nanos t0 + d - nanos now))"
    by (simp add: TimerTimeLeft_def TimerStart_def Sub_def Add_def Let_def max_def min_def)
  show "TimerTimedOut now (TimerStart t0 d t) \<longleftrightarrow> nanos t0 + d \<le> nanos now" by (rule started_times_out)
qed (simp_all add: stopped_never_times_out, simp add: TimerTimeLeft_def TimerStop_def)

end
