(* ===== verification/Strconv.thy ===== *)
theory Strconv
  imports Prelude
begin

text \<open>
  Decimal formatting and parsing of Go integers: \<open>fmt.Sprintf("%d", n)\<close>, used for the keys
  of the assigner's JSON input and for unknown enum values, and \<open>strconv.Atoi\<close>, used on the
  keys of its output. \<open>Atoi\<close> returns Go's pair of a value and whether the error is nil: 0 on
  a syntax error, the nearest 64-bit bound on a range error.
\<close>

definition digit_char :: "nat \<Rightarrow> char" where
  "digit_char d = char_of (48 + d)"

fun show_nat :: "nat \<Rightarrow> string" where
  "show_nat n = (if n < 10 then [digit_char n] else show_nat (n div 10) @ [digit_char (n mod 10)])"

declare show_nat.simps [simp del]

definition show_int :: "int \<Rightarrow> string" where
  "show_int n = (if n < 0 then ''-'' @ show_nat (nat (- n)) else show_nat (nat n))"

definition is_digit :: "char \<Rightarrow> bool" where
  "is_digit c \<longleftrightarrow> 48 \<le> (of_char c :: nat) \<and> (of_char c :: nat) \<le> 57"

fun parse_digits :: "nat \<Rightarrow> string \<Rightarrow> nat option" where
  "parse_digits acc [] = Some acc"
| "parse_digits acc (c # cs) = (if is_digit c then parse_digits (10 * acc + (of_char c - 48)) cs else None)"

definition parse_nat :: "string \<Rightarrow> nat option" where
  "parse_nat s = (if s = [] then None else parse_digits 0 s)"

abbreviation (input) MAX_INT :: int where "MAX_INT \<equiv> 2 ^ 63 - 1"

abbreviation (input) MIN_INT :: int where "MIN_INT \<equiv> - (2 ^ 63)"

definition in_range :: "int \<Rightarrow> int \<times> bool" where
  "in_range n = (if n < MIN_INT then (MIN_INT, False) else if MAX_INT < n then (MAX_INT, False) else (n, True))"

definition Atoi :: "string \<Rightarrow> int \<times> bool" where
  "Atoi s =
     (let neg = (s \<noteq> [] \<and> hd s = CHR ''-'');
          body = (if s \<noteq> [] \<and> (hd s = CHR ''-'' \<or> hd s = CHR ''+'') then tl s else s)
      in case parse_nat body of
           None \<Rightarrow> (0, False)
         | Some n \<Rightarrow> in_range (if neg then - int n else int n))"

lemma of_char_digit: "d < 10 \<Longrightarrow> (of_char (digit_char d) :: nat) = 48 + d"
  by (simp add: digit_char_def)

lemma is_digit_char: "d < 10 \<Longrightarrow> is_digit (digit_char d)"
  by (simp add: is_digit_def of_char_digit)

lemma parse_digits_append:
  "parse_digits acc (s @ t) = (case parse_digits acc s of None \<Rightarrow> None | Some a \<Rightarrow> parse_digits a t)"
  by (induction s arbitrary: acc) auto

lemma parse_show_nat: "parse_digits 0 (show_nat n) = Some n"
proof (induction n rule: show_nat.induct)
  case (1 n)
  show ?case
  proof (cases "n < 10")
    case True
    then show ?thesis by (simp add: show_nat.simps [of n] is_digit_char of_char_digit)
  next
    case False
    with 1 have "parse_digits 0 (show_nat (n div 10)) = Some (n div 10)" by simp
    with False show ?thesis
      by (simp add: show_nat.simps [of n] parse_digits_append is_digit_char of_char_digit)
  qed
qed

lemma show_nat_nonempty: "show_nat n \<noteq> []"
  by (simp add: show_nat.simps [of n])

lemma hd_show_nat: "is_digit (hd (show_nat n))"
proof (induction n rule: show_nat.induct)
  case (1 n)
  then show ?case
    by (cases "n < 10") (simp_all add: show_nat.simps [of n] is_digit_char show_nat_nonempty)
qed

lemma sign_not_digit: "is_digit c \<Longrightarrow> c \<noteq> CHR ''-'' \<and> c \<noteq> CHR ''+''"
  by (auto simp: is_digit_def)

lemma parse_nat_show: "parse_nat (show_nat n) = Some n"
  by (simp add: parse_nat_def parse_show_nat show_nat_nonempty)

lemma in_range_id: "MIN_INT \<le> n \<Longrightarrow> n \<le> MAX_INT \<Longrightarrow> in_range n = (n, True)"
  by (simp add: in_range_def)

lemma Atoi_show_int:
  assumes "MIN_INT \<le> n" "n \<le> MAX_INT"
  shows "Atoi (show_int n) = (n, True)"
proof (cases "n < 0")
  case True
  then have "Atoi (show_int n) = in_range n"
    by (simp add: Atoi_def show_int_def parse_nat_show Let_def)
  with in_range_id [OF assms] show ?thesis by simp
next
  case False
  then have "Atoi (show_int n) = in_range n"
    using sign_not_digit [OF hd_show_nat [of "nat n"]]
    by (simp add: Atoi_def show_int_def parse_nat_show show_nat_nonempty Let_def)
  with in_range_id [OF assms] show ?thesis by simp
qed

lemma show_int_inj:
  assumes "MIN_INT \<le> m" "m \<le> MAX_INT" "MIN_INT \<le> n" "n \<le> MAX_INT" "show_int m = show_int n"
  shows "m = n"
proof -
  have "(m, True) = Atoi (show_int m)" by (rule Atoi_show_int [OF assms(1,2), symmetric])
  also have "\<dots> = Atoi (show_int n)" by (rule arg_cong [OF assms(5)])
  also have "\<dots> = (n, True)" by (rule Atoi_show_int [OF assms(3,4)])
  finally show ?thesis by simp
qed

end
