(* ===== verification/Elevator_Sys.thy ===== *)
theory Elevator_Sys
  imports Strconv
begin

text \<open>
  The data of the elevator: elevator/elevator_sys.go and the enumerations of
  elevator/elevio.go. Go's enumerations are named integer types, their values also arrive from
  the network, and the \<open>default\<close> branches of the code's switches are reachable, so they are
  integers here with the source's names for the constants. \<open>Requests\<close> is the
  \<open>[NUM_FLOORS][NUM_BUTTONS]bool\<close> of the code, \<open>HallLightStates\<close> has one column less.
\<close>

section \<open>Enumerations\<close>

type_synonym MotorDirection = int
type_synonym ButtonType = int
type_synonym ElevatorBehavior = int

abbreviation (input) DirectionUp :: MotorDirection where "DirectionUp \<equiv> 1"

abbreviation (input) DirectionDown :: MotorDirection where "DirectionDown \<equiv> - 1"

abbreviation (input) DirectionStop :: MotorDirection where "DirectionStop \<equiv> 0"

abbreviation (input) ButtonHallUp :: ButtonType where "ButtonHallUp \<equiv> 0"

abbreviation (input) ButtonHallDown :: ButtonType where "ButtonHallDown \<equiv> 1"

abbreviation (input) ButtonCab :: ButtonType where "ButtonCab \<equiv> 2"

abbreviation (input) Idle :: ElevatorBehavior where "Idle \<equiv> 0"

abbreviation (input) DoorOpen :: ElevatorBehavior where "DoorOpen \<equiv> 1"

abbreviation (input) Moving :: ElevatorBehavior where "Moving \<equiv> 2"

section \<open>Structures\<close>

record ButtonEvent =
  be_Floor :: int
  be_Button :: ButtonType

record Elevator =
  Floor :: int
  Dir :: MotorDirection
  Behavior :: ElevatorBehavior
  Requests :: "bool list list"
  HallLightStates :: "bool list list"
  IsObstructed :: bool

record ElevatorState =
  es_Floor :: int
  es_Direction :: MotorDirection
  es_Behavior :: ElevatorBehavior
  es_CabRequests :: "bool list"

definition zero_ElevatorState :: ElevatorState where
  "zero_ElevatorState =
     \<lparr>es_Floor = 0, es_Direction = 0, es_Behavior = 0, es_CabRequests = replicate 4 False\<rparr>"

section \<open>Operations\<close>

definition behavior_String :: "ElevatorBehavior \<Rightarrow> string" where
  "behavior_String eb =
     (if eb = Idle then ''idle''
      else if eb = DoorOpen then ''doorOpen''
      else if eb = Moving then ''moving''
      else ''unknown('' @ show_int eb @ '')'')"

definition button_String :: "ButtonType \<Rightarrow> string" where
  "button_String button =
     (if button = ButtonHallUp then ''HallUp''
      else if button = ButtonHallDown then ''HallDown''
      else if button = ButtonCab then ''Cab''
      else ''Unknown'')"

definition direction_String :: "MotorDirection \<Rightarrow> string" where
  "direction_String md =
     (if md = DirectionUp then ''up''
      else if md = DirectionDown then ''down''
      else if md = DirectionStop then ''stop''
      else ''unknown('' @ show_int md @ '')'')"

text \<open>The loop assigns \<open>cabRequests[floor]\<close> for every floor, in order.\<close>

definition GetCabRequestsAsElevState :: "Elevator \<Rightarrow> bool list" where
  "GetCabRequestsAsElevState elev = map (\<lambda>floor. mat_at (Requests elev) floor ButtonCab) floors"

definition NewElevator :: Elevator where
  "NewElevator =
     \<lparr>Floor = -1, Dir = DirectionStop, Behavior = Idle,
      Requests = zero_mat NUM_FLOORS NUM_BUTTONS,
      HallLightStates = zero_mat NUM_FLOORS (NUM_BUTTONS - 1),
      IsObstructed = False\<rparr>"

text \<open>The text \<open>PrintElevator\<close> prints, top floor first.\<close>

definition newline :: string where
  "newline = [CHR 0x0A]"

definition PrintElevator :: "Elevator \<Rightarrow> string" where
  "PrintElevator e =
     ''Floor: '' @ show_int (Floor e) @ newline @
     ''Direction: '' @ (if Dir e = DirectionUp then ''Up'' else if Dir e = DirectionDown then ''Down'' else ''Stop'') @ newline @
     ''Behavior: '' @ behavior_String (Behavior e) @ newline @
     ''Obstructed: '' @ (if IsObstructed e then ''true'' else ''false'') @ newline @
     ''Request Matrix:'' @ newline @
     concat (map (\<lambda>floor. ''Floor '' @ show_int floor @ '': '' @
       concat (map (\<lambda>btn. if mat_at (Requests e) floor btn then ''# '' else ''- '') buttons) @ newline) (rev floors))"

section \<open>Well-formedness\<close>

text \<open>What Go's types guarantee of every value of type \<open>Elevator\<close>.\<close>

definition wf_elev :: "Elevator \<Rightarrow> bool" where
  "wf_elev e \<longleftrightarrow> wf_mat NUM_FLOORS NUM_BUTTONS (Requests e) \<and>
                 wf_mat NUM_FLOORS (NUM_BUTTONS - 1) (HallLightStates e)"

lemma wf_elev_matD [dest]: "wf_elev e \<Longrightarrow> wf_mat NUM_FLOORS NUM_BUTTONS (Requests e)"
  by (simp add: wf_elev_def)

lemma wf_elev_hallD: "wf_elev e \<Longrightarrow> wf_mat NUM_FLOORS 2 (HallLightStates e)"
  by (simp add: wf_elev_def)

lemma wf_NewElevator [wf_intros]: "wf_elev NewElevator"
  using wf_mat_zero [of NUM_FLOORS NUM_BUTTONS] wf_mat_zero [of NUM_FLOORS 2]
  by (simp add: wf_elev_def NewElevator_def)

lemma wf_elev_updates [simp]:
  "wf_elev (e\<lparr>Floor := f\<rparr>) = wf_elev e"
  "wf_elev (e\<lparr>Dir := d\<rparr>) = wf_elev e"
  "wf_elev (e\<lparr>Behavior := b\<rparr>) = wf_elev e"
  "wf_elev (e\<lparr>IsObstructed := ob\<rparr>) = wf_elev e"
  by (simp_all add: wf_elev_def)

text \<open>A pending request, and setting or clearing one in place.\<close>

definition req :: "Elevator \<Rightarrow> int \<Rightarrow> ButtonType \<Rightarrow> bool" where
  "req e f b = mat_at (Requests e) f b"

definition put_req :: "Elevator \<Rightarrow> int \<Rightarrow> ButtonType \<Rightarrow> bool \<Rightarrow> Elevator" where
  "put_req e f b v = e\<lparr>Requests := mat_put (Requests e) f b v\<rparr>"

definition in_floors :: "int \<Rightarrow> bool" where
  "in_floors f \<longleftrightarrow> 0 \<le> f \<and> f < NUM_FLOORS"

definition in_buttons :: "ButtonType \<Rightarrow> bool" where
  "in_buttons b \<longleftrightarrow> 0 \<le> b \<and> b < NUM_BUTTONS"

lemma wf_put_req [wf_intros]: "wf_elev e \<Longrightarrow> wf_elev (put_req e f b v)"
  by (simp add: wf_elev_def put_req_def wf_mat_put)

lemma put_req_frame [simp]:
  "Floor (put_req e f b v) = Floor e"
  "Dir (put_req e f b v) = Dir e"
  "Behavior (put_req e f b v) = Behavior e"
  "HallLightStates (put_req e f b v) = HallLightStates e"
  "IsObstructed (put_req e f b v) = IsObstructed e"
  by (simp_all add: put_req_def)

lemma req_put_req:
  assumes "wf_elev e" "in_floors f" "in_buttons b" "in_floors f'" "in_buttons b'"
  shows "req (put_req e f b v) f' b' = (if f' = f \<and> b' = b then v else req e f' b')"
  using assms by (auto simp: req_def put_req_def in_floors_def in_buttons_def wf_elev_def mat_at_put)

lemma req_updates [simp]:
  "req (e\<lparr>Floor := fl\<rparr>) f b = req e f b"
  "req (e\<lparr>Dir := d\<rparr>) f b = req e f b"
  "req (e\<lparr>Behavior := bh\<rparr>) f b = req e f b"
  "req (e\<lparr>IsObstructed := ob\<rparr>) f b = req e f b"
  "req (e\<lparr>HallLightStates := ls\<rparr>) f b = req e f b"
  by (simp_all add: req_def)

lemma in_buttons_consts [simp]: "in_buttons ButtonHallUp" "in_buttons ButtonHallDown" "in_buttons ButtonCab"
  by (simp_all add: in_buttons_def)

lemma req_NewElevator: "in_floors f \<Longrightarrow> in_buttons b \<Longrightarrow> \<not> req NewElevator f b"
  by (simp add: req_def NewElevator_def in_floors_def in_buttons_def mat_at_zero)

lemma in_buttons_cases:
  "in_buttons b \<Longrightarrow> (b = ButtonHallUp \<Longrightarrow> P) \<Longrightarrow> (b = ButtonHallDown \<Longrightarrow> P) \<Longrightarrow> (b = ButtonCab \<Longrightarrow> P) \<Longrightarrow> P"
  by (force simp: in_buttons_def)

end
