(* ===== verification/Elev_Requests.thy ===== *)
theory Elev_Requests
  imports Elevator_Sys
begin

text \<open>
  The request logic of elevator/requests.go: which way to go, when to stop, what a stop
  clears. The early returns of the search loops are \<open>list_ex\<close> over the loop's range. The
  operations take the elevator by value, as the Go functions do.
\<close>

section \<open>Operations\<close>

record DirBehaviorPair =
  pair_Dir :: MotorDirection
  pair_Behavior :: ElevatorBehavior

abbreviation mk_pair :: "MotorDirection \<Rightarrow> ElevatorBehavior \<Rightarrow> DirBehaviorPair" where
  "mk_pair d b \<equiv> \<lparr>pair_Dir = d, pair_Behavior = b\<rparr>"

abbreviation mk_event :: "int \<Rightarrow> ButtonType \<Rightarrow> ButtonEvent" where
  "mk_event f b \<equiv> \<lparr>be_Floor = f, be_Button = b\<rparr>"

definition RequestsAbove :: "Elevator \<Rightarrow> bool" where
  "RequestsAbove e =
     (if Floor e < 0 \<or> NUM_FLOORS \<le> Floor e then False
      else list_ex (\<lambda>floor. list_ex (\<lambda>btn. req e floor btn) buttons) [Floor e + 1 .. NUM_FLOORS - 1])"

definition RequestsBelow :: "Elevator \<Rightarrow> bool" where
  "RequestsBelow e =
     (if Floor e < 0 \<or> NUM_FLOORS \<le> Floor e then False
      else list_ex (\<lambda>floor. list_ex (\<lambda>btn. req e floor btn) buttons) [0 .. Floor e - 1])"

definition RequestsHere :: "Elevator \<Rightarrow> bool" where
  "RequestsHere e =
     (if Floor e < 0 \<or> NUM_FLOORS \<le> Floor e then False
      else list_ex (\<lambda>btn. req e (Floor e) btn) buttons)"

definition RequestsChooseDirection :: "Elevator \<Rightarrow> DirBehaviorPair" where
  "RequestsChooseDirection e =
     (if Dir e = DirectionUp then
        (if RequestsAbove e then mk_pair DirectionUp Moving
         else if RequestsHere e then mk_pair DirectionDown DoorOpen
         else if RequestsBelow e then mk_pair DirectionDown Moving
         else mk_pair DirectionStop Idle)
      else if Dir e = DirectionDown then
        (if RequestsBelow e then mk_pair DirectionDown Moving
         else if RequestsHere e then mk_pair DirectionUp DoorOpen
         else if RequestsAbove e then mk_pair DirectionUp Moving
         else mk_pair DirectionStop Idle)
      else if Dir e = DirectionStop then
        (if RequestsHere e then mk_pair DirectionStop DoorOpen
         else if RequestsAbove e then mk_pair DirectionUp Moving
         else if RequestsBelow e then mk_pair DirectionDown Moving
         else mk_pair DirectionStop Idle)
      else mk_pair DirectionStop Idle)"

text \<open>
  \<open>RequestsShouldStop\<close> indexes \<open>e.Requests[e.Floor]\<close> without a guard, so it panics on a
  floor outside the array. The disjunctions are evaluated left to right.
\<close>

definition RequestsShouldStop :: "Elevator \<Rightarrow> bool option" where
  "RequestsShouldStop e =
     (if Dir e = DirectionDown then do {
        hall \<leftarrow> mat_get (Requests e) (Floor e) ButtonHallDown;
        if hall then Some True else do {
          cab \<leftarrow> mat_get (Requests e) (Floor e) ButtonCab;
          Some (cab \<or> \<not> RequestsBelow e)
        }
      }
      else if Dir e = DirectionUp then do {
        hall \<leftarrow> mat_get (Requests e) (Floor e) ButtonHallUp;
        if hall then Some True else do {
          cab \<leftarrow> mat_get (Requests e) (Floor e) ButtonCab;
          Some (cab \<or> \<not> RequestsAbove e)
        }
      }
      else Some True)"

definition RequestsShouldClearImmediately :: "Elevator \<Rightarrow> int \<Rightarrow> ButtonType \<Rightarrow> bool" where
  "RequestsShouldClearImmediately e btnFloor btnType \<longleftrightarrow>
     Floor e = btnFloor \<and>
     (Dir e = DirectionUp \<and> btnType = ButtonHallUp \<or>
      Dir e = DirectionDown \<and> btnType = ButtonHallDown \<or>
      Dir e = DirectionStop \<or> btnType = ButtonCab)"

definition RequestsClearAtCurrentFloor :: "Elevator \<Rightarrow> Elevator \<times> ButtonEvent list" where
  "RequestsClearAtCurrentFloor e =
     (if Floor e < 0 \<or> NUM_FLOORS \<le> Floor e then (e, [])
      else
        let f = Floor e;
            e0 = put_req e f ButtonCab False
        in if Dir e = DirectionUp then
             let (e1, c1) = (if req e0 f ButtonHallUp
                             then (put_req e0 f ButtonHallUp False, [mk_event f ButtonHallUp])
                             else (e0, []))
             in if \<not> RequestsAbove e1 \<and> \<not> req e1 f ButtonHallUp \<and> req e1 f ButtonHallDown
                then (put_req e1 f ButtonHallDown False, c1 @ [mk_event f ButtonHallDown])
                else (e1, c1)
           else if Dir e = DirectionDown then
             let (e1, c1) = (if req e0 f ButtonHallDown
                             then (put_req e0 f ButtonHallDown False, [mk_event f ButtonHallDown])
                             else (e0, []))
             in if \<not> RequestsBelow e1 \<and> \<not> req e1 f ButtonHallDown \<and> req e1 f ButtonHallUp
                then (put_req e1 f ButtonHallUp False, c1 @ [mk_event f ButtonHallUp])
                else (e1, c1)
           else
             let (e1, c1) = (if req e0 f ButtonHallUp
                             then (put_req e0 f ButtonHallUp False, [mk_event f ButtonHallUp])
                             else (e0, []))
             in if req e1 f ButtonHallDown
                then (put_req e1 f ButtonHallDown False, c1 @ [mk_event f ButtonHallDown])
                else (e1, c1))"

section \<open>What the searches mean\<close>

lemma list_ex_upto: "list_ex P [a .. b] \<longleftrightarrow> (\<exists>x. a \<le> x \<and> x \<le> b \<and> P x)"
  by (auto simp: list_ex_iff)

lemma list_ex_buttons: "list_ex P buttons \<longleftrightarrow> (\<exists>b. in_buttons b \<and> P b)"
  by (auto simp: list_ex_iff in_buttons_def)

lemmas loops_iff = list_ex_upto list_ex_buttons

lemma RequestsAbove_iff:
  "RequestsAbove e \<longleftrightarrow> in_floors (Floor e) \<and> (\<exists>f b. Floor e < f \<and> in_floors f \<and> in_buttons b \<and> req e f b)"
proof (cases "in_floors (Floor e)")
  case True
  then have eq: "(Floor e + 1 \<le> f \<and> f \<le> NUM_FLOORS - 1) = (Floor e < f \<and> in_floors f)" for f by (auto simp: in_floors_def)
  from True have "RequestsAbove e \<longleftrightarrow> (\<exists>f. (Floor e + 1 \<le> f \<and> f \<le> NUM_FLOORS - 1) \<and> (\<exists>b. in_buttons b \<and> req e f b))"
    by (simp add: RequestsAbove_def loops_iff in_floors_def)
  with True show ?thesis unfolding eq by blast
next
  case False
  then show ?thesis by (auto simp: RequestsAbove_def in_floors_def)
qed

lemma RequestsBelow_iff:
  "RequestsBelow e \<longleftrightarrow> in_floors (Floor e) \<and> (\<exists>f b. f < Floor e \<and> in_floors f \<and> in_buttons b \<and> req e f b)"
proof (cases "in_floors (Floor e)")
  case True
  then have eq: "(0 \<le> f \<and> f \<le> Floor e - 1) = (f < Floor e \<and> in_floors f)" for f by (auto simp: in_floors_def)
  from True have "RequestsBelow e \<longleftrightarrow> (\<exists>f. (0 \<le> f \<and> f \<le> Floor e - 1) \<and> (\<exists>b. in_buttons b \<and> req e f b))"
    by (simp add: RequestsBelow_def loops_iff in_floors_def)
  with True show ?thesis unfolding eq by blast
next
  case False
  then show ?thesis by (auto simp: RequestsBelow_def in_floors_def)
qed

lemma RequestsHere_iff:
  "RequestsHere e \<longleftrightarrow> in_floors (Floor e) \<and> (\<exists>b. in_buttons b \<and> req e (Floor e) b)"
  by (auto simp: RequestsHere_def loops_iff in_floors_def)

lemmas searches_iff = RequestsAbove_iff RequestsBelow_iff RequestsHere_iff

definition no_requests :: "Elevator \<Rightarrow> bool" where
  "no_requests e \<longleftrightarrow> (\<forall>f \<in> set floors. \<forall>b \<in> set buttons. \<not> req e f b)"

lemma no_requests_iff: "no_requests e \<longleftrightarrow> (\<forall>f b. in_floors f \<longrightarrow> in_buttons b \<longrightarrow> \<not> req e f b)"
  unfolding no_requests_def by (auto simp: in_floors_def in_buttons_def)

lemma no_requests_searches:
  assumes "in_floors (Floor e)"
  shows "no_requests e \<longleftrightarrow> \<not> RequestsAbove e \<and> \<not> RequestsHere e \<and> \<not> RequestsBelow e"
proof -
  have "f < Floor e \<or> f = Floor e \<or> Floor e < f" for f by auto
  with assms show ?thesis unfolding searches_iff no_requests_iff by metis
qed

lemma above_below_cong:
  assumes "Floor e' = Floor e"
    and "\<And>f b. f \<noteq> Floor e \<Longrightarrow> in_floors f \<Longrightarrow> in_buttons b \<Longrightarrow> req e' f b = req e f b"
  shows "RequestsAbove e' = RequestsAbove e" "RequestsBelow e' = RequestsBelow e"
  using assms unfolding searches_iff by (metis less_irrefl)+

lemma above_below_put_here:
  assumes "wf_elev e" "Floor e = f" "in_floors f" "in_buttons b"
  shows "RequestsAbove (put_req e f b v) = RequestsAbove e"
    and "RequestsBelow (put_req e f b v) = RequestsBelow e"
  using assms by (auto intro!: above_below_cong simp: req_put_req)

lemma searches_updates [simp]:
  "RequestsAbove (e\<lparr>Dir := d\<rparr>) = RequestsAbove e"
  "RequestsAbove (e\<lparr>Behavior := b\<rparr>) = RequestsAbove e"
  "RequestsBelow (e\<lparr>Dir := d\<rparr>) = RequestsBelow e"
  "RequestsBelow (e\<lparr>Behavior := b\<rparr>) = RequestsBelow e"
  "RequestsHere (e\<lparr>Dir := d\<rparr>) = RequestsHere e"
  "RequestsHere (e\<lparr>Behavior := b\<rparr>) = RequestsHere e"
  by (simp_all add: searches_iff)

section \<open>Choosing a direction\<close>

definition valid_dir :: "MotorDirection \<Rightarrow> bool" where
  "valid_dir d \<longleftrightarrow> d = DirectionUp \<or> d = DirectionDown \<or> d = DirectionStop"

lemma choose_Moving:
  assumes "pair_Behavior (RequestsChooseDirection e) = Moving"
  shows "pair_Dir (RequestsChooseDirection e) = DirectionUp \<and> RequestsAbove e \<or>
         pair_Dir (RequestsChooseDirection e) = DirectionDown \<and> RequestsBelow e"
  using assms by (auto simp: RequestsChooseDirection_def split: if_splits)

lemma choose_DoorOpen:
  "pair_Behavior (RequestsChooseDirection e) = DoorOpen \<Longrightarrow> RequestsHere e"
  by (auto simp: RequestsChooseDirection_def split: if_splits)

lemma choose_Idle_Dir:
  "pair_Behavior (RequestsChooseDirection e) = Idle \<Longrightarrow> pair_Dir (RequestsChooseDirection e) = DirectionStop"
  by (auto simp: RequestsChooseDirection_def split: if_splits)

lemma choose_range:
  "valid_dir (pair_Dir (RequestsChooseDirection e))"
  "pair_Behavior (RequestsChooseDirection e) \<in> {Idle, DoorOpen, Moving}"
  by (auto simp: RequestsChooseDirection_def valid_dir_def)

lemma choose_Idle_iff:
  assumes "in_floors (Floor e)" "valid_dir (Dir e)"
  shows "pair_Behavior (RequestsChooseDirection e) = Idle \<longleftrightarrow> no_requests e"
  using assms(2) unfolding no_requests_searches [OF assms(1)]
  by (auto simp: RequestsChooseDirection_def valid_dir_def)

section \<open>Stopping\<close>

lemma should_stop_inrange:
  assumes "wf_elev e" "in_floors (Floor e)"
  shows "RequestsShouldStop e = Some
           (if Dir e = DirectionDown
            then req e (Floor e) ButtonHallDown \<or> req e (Floor e) ButtonCab \<or> \<not> RequestsBelow e
            else if Dir e = DirectionUp
            then req e (Floor e) ButtonHallUp \<or> req e (Floor e) ButtonCab \<or> \<not> RequestsAbove e
            else True)"
  using assms mat_get_inrange [OF wf_elev_matD [OF assms(1)], of "Floor e"]
  by (auto simp: RequestsShouldStop_def req_def in_floors_def)

lemma should_stop_panics:
  assumes "wf_elev e" "\<not> in_floors (Floor e)" "Dir e = DirectionUp \<or> Dir e = DirectionDown"
  shows "RequestsShouldStop e = None"
  using assms mat_get_outrange [OF wf_elev_matD [OF assms(1)], of "Floor e"]
  by (auto simp: RequestsShouldStop_def in_floors_def)

lemma no_stop_ahead:
  assumes "wf_elev e" "in_floors (Floor e)" "RequestsShouldStop e = Some False"
  shows "Dir e = DirectionUp \<and> RequestsAbove e \<or> Dir e = DirectionDown \<and> RequestsBelow e"
  using assms(3) unfolding should_stop_inrange [OF assms(1,2)] by (auto split: if_splits)

lemma above_not_top: "RequestsAbove e \<Longrightarrow> Floor e < NUM_FLOORS - 1"
  by (auto simp: RequestsAbove_iff in_floors_def)

lemma below_not_bottom: "RequestsBelow e \<Longrightarrow> 0 < Floor e"
  by (auto simp: RequestsBelow_iff in_floors_def)

section \<open>Clearing\<close>

text \<open>
  The specification of a stop: which buttons of the current floor it serves. The cab call
  always; the hall call in the direction of travel; the opposite hall call only when nothing
  lies ahead; both when the elevator has no direction.
\<close>

definition served :: "Elevator \<Rightarrow> ButtonType \<Rightarrow> bool" where
  "served e b \<longleftrightarrow>
     b = ButtonCab \<or>
     (if Dir e = DirectionUp then b = ButtonHallUp \<or> b = ButtonHallDown \<and> \<not> RequestsAbove e
      else if Dir e = DirectionDown then b = ButtonHallDown \<or> b = ButtonHallUp \<and> \<not> RequestsBelow e
      else b = ButtonHallUp \<or> b = ButtonHallDown)"

lemma clear_frame:
  "Floor (fst (RequestsClearAtCurrentFloor e)) = Floor e"
  "Dir (fst (RequestsClearAtCurrentFloor e)) = Dir e"
  "Behavior (fst (RequestsClearAtCurrentFloor e)) = Behavior e"
  "HallLightStates (fst (RequestsClearAtCurrentFloor e)) = HallLightStates e"
  "IsObstructed (fst (RequestsClearAtCurrentFloor e)) = IsObstructed e"
  by (simp_all add: RequestsClearAtCurrentFloor_def Let_def)

declare clear_frame [simp]

lemma clear_wf [wf_intros]: "wf_elev e \<Longrightarrow> wf_elev (fst (RequestsClearAtCurrentFloor e))"
  by (simp add: RequestsClearAtCurrentFloor_def Let_def wf_put_req)

lemma clear_out_of_range: "\<not> in_floors (Floor e) \<Longrightarrow> RequestsClearAtCurrentFloor e = (e, [])"
  by (auto simp: RequestsClearAtCurrentFloor_def in_floors_def)

lemma clear_req:
  assumes "wf_elev e" "in_floors (Floor e)" "in_floors f" "in_buttons b"
  shows "req (fst (RequestsClearAtCurrentFloor e)) f b \<longleftrightarrow> req e f b \<and> \<not> (f = Floor e \<and> served e b)"
proof -
  have rng: "\<not> (Floor e < 0 \<or> NUM_FLOORS \<le> Floor e)" using assms(2) by (auto simp: in_floors_def)
  show ?thesis
    using assms
    by (cases rule: in_buttons_cases [OF assms(4)])
       (simp_all add: RequestsClearAtCurrentFloor_def rng served_def Let_def req_put_req wf_put_req
         above_below_put_here)
qed

lemma clear_events:
  assumes "wf_elev e" "in_floors (Floor e)"
  shows "set (snd (RequestsClearAtCurrentFloor e)) =
           {mk_event (Floor e) b | b. (b = ButtonHallUp \<or> b = ButtonHallDown) \<and> req e (Floor e) b \<and> served e b}"
    and "distinct (snd (RequestsClearAtCurrentFloor e))"
proof -
  have rng: "\<not> (Floor e < 0 \<or> NUM_FLOORS \<le> Floor e)" using assms(2) by (auto simp: in_floors_def)
  note unf = RequestsClearAtCurrentFloor_def rng served_def Let_def req_put_req wf_put_req assms
    above_below_put_here
  show "set (snd (RequestsClearAtCurrentFloor e)) =
           {mk_event (Floor e) b | b. (b = ButtonHallUp \<or> b = ButtonHallDown) \<and> req e (Floor e) b \<and> served e b}"
    by (rule set_eqI) (auto simp: unf split: if_splits)
  show "distinct (snd (RequestsClearAtCurrentFloor e))"
    by (simp add: unf)
qed

section \<open>Properties\<close>

text \<open>C29: Serving the current floor removes exactly the requests the stop serves (the cab call, the
  hall call in the direction of travel, the opposite one only when nothing lies ahead, both without
  a direction), leaves every other request alone, and returns one event per hall request removed.\<close>

theorem clear_at_floor_exact:
  assumes "wf_elev e" "in_floors (Floor e)"
  shows "(\<forall>f b. in_floors f \<longrightarrow> in_buttons b \<longrightarrow>
      req (fst (RequestsClearAtCurrentFloor e)) f b = (req e f b \<and> \<not> (f = Floor e \<and> served e b))) \<and>
    set (snd (RequestsClearAtCurrentFloor e)) =
      {mk_event (Floor e) b | b. (b = ButtonHallUp \<or> b = ButtonHallDown) \<and> req e (Floor e) b \<and> served e b} \<and>
    distinct (snd (RequestsClearAtCurrentFloor e))"
  using clear_req [OF assms] clear_events [OF assms] by blast

definition two_calls_above :: Elevator where
  "two_calls_above = NewElevator\<lparr>Floor := 1, Dir := DirectionUp,
     Requests := [[False, False, False], [True, True, True], [False, False, False], [True, False, False]]\<rparr>"

lemma two_calls_above_ok: "wf_elev two_calls_above" "in_floors (Floor two_calls_above)"
  using wf_NewElevator by (simp_all add: two_calls_above_def wf_elev_def wf_mat_def in_floors_def)

theorem clear_at_floor_exact_witness:
  "mk_event 1 ButtonHallUp \<in> set (snd (RequestsClearAtCurrentFloor two_calls_above)) \<and>
   mk_event 1 ButtonHallDown \<notin> set (snd (RequestsClearAtCurrentFloor two_calls_above)) \<and>
   req (fst (RequestsClearAtCurrentFloor two_calls_above)) 1 ButtonHallDown"
proof -
  have calls: "req two_calls_above 1 ButtonHallUp" "req two_calls_above 1 ButtonHallDown" "req two_calls_above 3 ButtonHallUp"
    by (simp_all add: two_calls_above_def req_def mat_at_def numeral_nat)
  have fl: "Floor two_calls_above = 1" "Dir two_calls_above = DirectionUp" by (simp_all add: two_calls_above_def)
  have "RequestsAbove two_calls_above"
    unfolding RequestsAbove_iff using calls(3) fl
    by (intro conjI exI [where x = "3::int"] exI [where x = ButtonHallUp]) (simp_all add: in_floors_def)
  with clear_at_floor_exact [OF two_calls_above_ok] calls fl show ?thesis
    by (auto simp: served_def in_floors_def)
qed

text \<open>C30: The chosen direction and behaviour are sound and complete: the elevator goes idle exactly
  when no request is left, moves only towards a floor with a request, opens the door only at a floor
  with one, and keeps its direction while requests lie ahead.\<close>

theorem choose_direction_spec:
  assumes "in_floors (Floor e)" "valid_dir (Dir e)"
  shows "let p = RequestsChooseDirection e in
    (pair_Behavior p = Idle \<longleftrightarrow> no_requests e) \<and>
    (pair_Behavior p = Moving \<longrightarrow>
       (\<exists>f b. in_floors f \<and> in_buttons b \<and> req e f b \<and>
          (pair_Dir p = DirectionUp \<and> Floor e < f \<or> pair_Dir p = DirectionDown \<and> f < Floor e))) \<and>
    (pair_Behavior p = DoorOpen \<longrightarrow> (\<exists>b. in_buttons b \<and> req e (Floor e) b)) \<and>
    (Dir e = DirectionUp \<and> (\<exists>f b. Floor e < f \<and> in_floors f \<and> in_buttons b \<and> req e f b) \<longrightarrow>
       p = mk_pair DirectionUp Moving) \<and>
    (Dir e = DirectionDown \<and> (\<exists>f b. f < Floor e \<and> in_floors f \<and> in_buttons b \<and> req e f b) \<longrightarrow>
       p = mk_pair DirectionDown Moving)"
proof -
  have above: "RequestsAbove e \<longleftrightarrow> (\<exists>f b. Floor e < f \<and> in_floors f \<and> in_buttons b \<and> req e f b)"
    and below: "RequestsBelow e \<longleftrightarrow> (\<exists>f b. f < Floor e \<and> in_floors f \<and> in_buttons b \<and> req e f b)"
    and here: "RequestsHere e \<longleftrightarrow> (\<exists>b. in_buttons b \<and> req e (Floor e) b)"
    using assms(1) by (simp_all add: searches_iff)
  show ?thesis unfolding Let_def
  proof (intro conjI)
    show "pair_Behavior (RequestsChooseDirection e) = Idle \<longleftrightarrow> no_requests e"
      by (rule choose_Idle_iff [OF assms])
    show "pair_Behavior (RequestsChooseDirection e) = Moving \<longrightarrow>
       (\<exists>f b. in_floors f \<and> in_buttons b \<and> req e f b \<and>
          (pair_Dir (RequestsChooseDirection e) = DirectionUp \<and> Floor e < f \<or>
           pair_Dir (RequestsChooseDirection e) = DirectionDown \<and> f < Floor e))"
      using choose_Moving [of e] above below by blast
    show "pair_Behavior (RequestsChooseDirection e) = DoorOpen \<longrightarrow> (\<exists>b. in_buttons b \<and> req e (Floor e) b)"
      using choose_DoorOpen [of e] here by blast
  qed (unfold above [symmetric] below [symmetric], simp_all add: RequestsChooseDirection_def)
qed

theorem choose_direction_spec_witness:
  "RequestsChooseDirection two_calls_above = mk_pair DirectionUp Moving"
proof -
  have "req two_calls_above 3 ButtonHallUp"
    by (simp add: two_calls_above_def req_def mat_at_def numeral_nat)
  then have "\<exists>f b. Floor two_calls_above < f \<and> in_floors f \<and> in_buttons b \<and> req two_calls_above f b"
    by (intro exI [of _ 3] exI [of _ ButtonHallUp]) (simp add: two_calls_above_def in_floors_def)
  with choose_direction_spec [OF two_calls_above_ok(2)] show ?thesis
    by (simp add: Let_def two_calls_above_def valid_dir_def)
qed

text \<open>A moving elevator passes a floor exactly when nobody there wants to board in its direction
  or get off and some request still lies ahead; it panics exactly at a floor outside the array.\<close>

theorem should_stop_exact:
  assumes "wf_elev e" "Dir e = DirectionUp \<or> Dir e = DirectionDown"
  shows "(RequestsShouldStop e = None \<longleftrightarrow> \<not> in_floors (Floor e)) \<and>
    (RequestsShouldStop e = Some False \<longleftrightarrow>
       in_floors (Floor e) \<and> \<not> req e (Floor e) ButtonCab \<and>
       \<not> req e (Floor e) (if Dir e = DirectionUp then ButtonHallUp else ButtonHallDown) \<and>
       (\<exists>f b. in_floors f \<and> in_buttons b \<and> req e f b \<and>
          (if Dir e = DirectionUp then Floor e < f else f < Floor e)))"
proof (cases "in_floors (Floor e)")
  case True
  with assms(2) show ?thesis
    unfolding should_stop_inrange [OF assms(1) True] searches_iff by auto
next
  case False
  with should_stop_panics [OF assms(1) False assms(2)] show ?thesis by simp
qed

theorem should_stop_exact_witness:
  "RequestsShouldStop (two_calls_above\<lparr>Floor := 2\<rparr>) = Some False \<and>
   RequestsShouldStop (two_calls_above\<lparr>Floor := -1\<rparr>) = None"
proof -
  have "req two_calls_above 3 ButtonHallUp" "\<not> req two_calls_above 2 ButtonHallUp" "\<not> req two_calls_above 2 ButtonCab"
    by (simp_all add: two_calls_above_def req_def mat_at_def numeral_nat)
  moreover have "Dir two_calls_above = DirectionUp" by (simp add: two_calls_above_def)
  moreover have "\<exists>f b. in_floors f \<and> in_buttons b \<and> req two_calls_above f b \<and> 2 < f"
    using calculation(1) by (intro exI [of _ 3] exI [of _ ButtonHallUp]) (simp add: in_floors_def)
  ultimately show ?thesis
    using should_stop_exact [of "two_calls_above\<lparr>Floor := 2\<rparr>"] should_stop_exact [of "two_calls_above\<lparr>Floor := -1\<rparr>"]
      two_calls_above_ok(1) by (simp add: in_floors_def)
qed

end
