(* ===== verification/Elevio.thy ===== *)
theory Elevio
  imports Elev_Requests Go_Time "HOL-Library.Word"
begin

text \<open>
  The hardware driver elevator/elevio.go. Every command is a packet of four bytes; a setter
  is the packet it writes, a getter sends a packet and decodes the answer. The elevator
  server at the other end of the TCP connection is not part of the repository: it is a
  parameter \<open>server\<close>, and \<open>None\<close> is the panic on a lost connection.
\<close>

type_synonym byte = "8 word"
type_synonym packet = "byte \<times> byte \<times> byte \<times> byte"

section \<open>Bytes\<close>

definition toByte :: "bool \<Rightarrow> byte" where
  "toByte a = (if a then 1 else 0)"

definition toBool :: "byte \<Rightarrow> bool" where
  "toBool a \<longleftrightarrow> a \<noteq> 0"

definition byte_of :: "int \<Rightarrow> byte" where
  "byte_of n = word_of_int n"

lemma toBool_toByte [simp]: "toBool (toByte b) = b"
  by (simp add: toBool_def toByte_def)

lemma uint_byte_of: "0 \<le> n \<Longrightarrow> n < 256 \<Longrightarrow> uint (byte_of n) = n"
  by (simp add: byte_of_def uint_word_of_int)

text \<open>The new value of \<open>driverIsInitialized\<close>; \<open>dial_ok\<close> is whether \<open>net.Dial\<close> succeeds.\<close>

definition driver_Init :: "bool \<Rightarrow> bool \<Rightarrow> bool option" where
  "driver_Init initialized dial_ok = (if initialized then Some True else if dial_ok then Some True else None)"

section \<open>Setters\<close>

definition SetMotorDirection :: "MotorDirection \<Rightarrow> packet" where
  "SetMotorDirection dir = (1, byte_of dir, 0, 0)"

definition SetButtonLamp :: "ButtonType \<Rightarrow> int \<Rightarrow> bool \<Rightarrow> packet" where
  "SetButtonLamp button floor value = (2, byte_of button, byte_of floor, toByte value)"

definition SetAllLights :: "Elevator \<Rightarrow> packet list" where
  "SetAllLights elev =
     concat (map (\<lambda>floor.
       SetButtonLamp ButtonCab floor (mat_at (Requests elev) floor ButtonCab) #
       map (\<lambda>i. SetButtonLamp i floor (mat_at (HallLightStates elev) floor i)) hall_buttons) floors)"

definition SetFloorIndicator :: "int \<Rightarrow> packet" where
  "SetFloorIndicator floor = (3, byte_of floor, 0, 0)"

definition SetDoorOpenLamp :: "bool \<Rightarrow> packet" where
  "SetDoorOpenLamp value = (4, toByte value, 0, 0)"

definition SetStopLamp :: "bool \<Rightarrow> packet" where
  "SetStopLamp value = (5, toByte value, 0, 0)"

lemmas setters = SetMotorDirection_def SetButtonLamp_def SetFloorIndicator_def SetDoorOpenLamp_def
  SetStopLamp_def

section \<open>Getters\<close>

type_synonym server = "packet \<Rightarrow> packet option"

definition ButtonIsPressed :: "server \<Rightarrow> ButtonType \<Rightarrow> int \<Rightarrow> bool option" where
  "ButtonIsPressed server button floor =
     do { (a0, a1, a2, a3) \<leftarrow> server (6, byte_of button, byte_of floor, 0); Some (toBool a1) }"

definition GetFloor :: "server \<Rightarrow> int option" where
  "GetFloor server =
     do { (a0, a1, a2, a3) \<leftarrow> server (7, 0, 0, 0); Some (if a1 \<noteq> 0 then uint a2 else -1) }"

definition StopIsPressed :: "server \<Rightarrow> bool option" where
  "StopIsPressed server = do { (a0, a1, a2, a3) \<leftarrow> server (8, 0, 0, 0); Some (toBool a1) }"

definition Obstructed :: "server \<Rightarrow> bool option" where
  "Obstructed server = do { (a0, a1, a2, a3) \<leftarrow> server (9, 0, 0, 0); Some (toBool a1) }"

lemma uint_byte_bounds: "0 \<le> uint (w :: byte) \<and> uint w < 256"
  using uint_bounded [of w] by simp

lemma GetFloor_range: "GetFloor server = Some f \<Longrightarrow> -1 \<le> f \<and> f < 256"
  using uint_byte_bounds
  by (auto simp: GetFloor_def split: Option.bind_splits prod.splits if_splits intro: order_trans [of _ 0])

section \<open>Polling\<close>

text \<open>One round of the loop of \<open>PollButtons\<close>: the new \<open>prev\<close> and the events sent.\<close>

definition PollButtons_body :: "server \<Rightarrow> int \<times> ButtonType \<Rightarrow> bool list list \<times> ButtonEvent list
    \<Rightarrow> (bool list list \<times> ButtonEvent list) option" where
  "PollButtons_body server fb st = (case (fb, st) of ((floor, button), (prev, out)) \<Rightarrow> do {
     v \<leftarrow> ButtonIsPressed server button floor;
     Some (mat_put prev floor button v,
           if v \<noteq> mat_at prev floor button \<and> v then out @ [mk_event floor button] else out)
   })"

definition PollButtons_round :: "server \<Rightarrow> bool list list \<Rightarrow> (bool list list \<times> ButtonEvent list) option" where
  "PollButtons_round server prev = fold_opt (PollButtons_body server) (grid buttons) (prev, [])"

text \<open>The other pollers keep one previous reading; their input is the sequence of readings.\<close>

definition PollFloorSensor :: "int list \<Rightarrow> int list" where
  "PollFloorSensor readings = poll_edges (\<lambda>prev v. v \<noteq> prev \<and> v \<noteq> -1) (-1) readings"

definition PollStopButton :: "bool list \<Rightarrow> bool list" where
  "PollStopButton readings = poll_edges (\<lambda>prev v. v \<noteq> prev) False readings"

definition PollObstructionSwitch :: "bool list \<Rightarrow> bool list" where
  "PollObstructionSwitch readings = poll_edges (\<lambda>prev v. v \<noteq> prev) False readings"

text \<open>
  \<open>PollDoorTimeout\<close> and \<open>PollDoorStuck\<close> take their timer by value: every tick tests the same
  copy. The input is the clock at each tick.
\<close>

definition PollDoorTimeout :: "Timer \<Rightarrow> Time list \<Rightarrow> bool list" where
  "PollDoorTimeout inTimer ticks =
     concat (map (\<lambda>now. if Active inTimer \<and> TimerTimedOut now inTimer then [True] else []) ticks)"

definition PollDoorStuck :: "Timer \<Rightarrow> Time list \<Rightarrow> bool list" where
  "PollDoorStuck inTimer ticks =
     concat (map (\<lambda>now. if Active inTimer \<and> TimerTimedOut now inTimer then [True] else []) ticks)"

lemma poll_copy_inactive: "\<not> Active t \<Longrightarrow> PollDoorTimeout t ticks = [] \<and> PollDoorStuck t ticks = []"
  by (simp add: PollDoorTimeout_def PollDoorStuck_def)

section \<open>What the driver has told the hardware\<close>

text \<open>
  The abstract panel: the last value written for every output, obtained by decoding the
  packets in order. It specifies what a sequence of driver calls commands.
\<close>

record panel =
  motor :: MotorDirection
  door_lamp :: bool
  stop_lamp :: bool
  indicator :: int
  lamp :: "int \<Rightarrow> ButtonType \<Rightarrow> bool"

definition panel_write :: "packet \<Rightarrow> panel \<Rightarrow> panel" where
  "panel_write pk p = (case pk of (op, x, y, z) \<Rightarrow>
     if op = 1 then p\<lparr>motor := sint x\<rparr>
     else if op = 2 then p\<lparr>lamp := (lamp p)(uint y := (lamp p (uint y))(uint x := toBool z))\<rparr>
     else if op = 3 then p\<lparr>indicator := uint x\<rparr>
     else if op = 4 then p\<lparr>door_lamp := toBool x\<rparr>
     else if op = 5 then p\<lparr>stop_lamp := toBool x\<rparr>
     else p)"

lemma panel_motor: "valid_dir d \<Longrightarrow> panel_write (SetMotorDirection d) p = p\<lparr>motor := d\<rparr>"
  by (auto simp: panel_write_def SetMotorDirection_def byte_of_def valid_dir_def)

lemma panel_lamp:
  "in_floors f \<Longrightarrow> in_buttons b \<Longrightarrow>
   panel_write (SetButtonLamp b f v) p = p\<lparr>lamp := (lamp p)(f := (lamp p f)(b := v))\<rparr>"
  by (simp add: panel_write_def SetButtonLamp_def uint_byte_of in_floors_def in_buttons_def)

lemma panel_indicator: "0 \<le> f \<Longrightarrow> f < 256 \<Longrightarrow> panel_write (SetFloorIndicator f) p = p\<lparr>indicator := f\<rparr>"
  by (simp add: panel_write_def SetFloorIndicator_def uint_byte_of)

lemma panel_door: "panel_write (SetDoorOpenLamp v) p = p\<lparr>door_lamp := v\<rparr>"
  by (simp add: panel_write_def SetDoorOpenLamp_def)

lemma panel_stop: "panel_write (SetStopLamp v) p = p\<lparr>stop_lamp := v\<rparr>"
  by (simp add: panel_write_def SetStopLamp_def)

lemmas panel_simps = panel_motor panel_lamp panel_indicator panel_door panel_stop

text \<open>What \<open>SetAllLights\<close> leaves on the panel: every lamp shows the elevator's state.\<close>

definition lights_of :: "Elevator \<Rightarrow> int \<Rightarrow> ButtonType \<Rightarrow> bool" where
  "lights_of e f b = (if b = ButtonCab then req e f ButtonCab else mat_at (HallLightStates e) f b)"

definition lights_shown :: "Elevator \<Rightarrow> panel \<Rightarrow> bool" where
  "lights_shown e p \<longleftrightarrow> (\<forall>f \<in> set floors. \<forall>b \<in> set buttons. lamp p f b = lights_of e f b)"

lemma SetAllLights_unfold:
  "SetAllLights e =
     map (\<lambda>(f, b). SetButtonLamp b f (lights_of e f b))
       [(0, 2), (0, 0), (0, 1), (1, 2), (1, 0), (1, 1), (2, 2), (2, 0), (2, 1), (3, 2), (3, 0), (3, 1)]"
  by (simp add: SetAllLights_def floors_def hall_buttons_def lights_of_def req_def)

lemma set_all_lights_shown: "lights_shown e (fold panel_write (SetAllLights e) p)"
  by (simp add: SetAllLights_unfold lights_shown_def floors_def buttons_def panel_lamp
      in_floors_def in_buttons_def)

lemma set_all_lights_frame:
  "motor (fold panel_write (SetAllLights e) p) = motor p"
  "door_lamp (fold panel_write (SetAllLights e) p) = door_lamp p"
  "stop_lamp (fold panel_write (SetAllLights e) p) = stop_lamp p"
  "indicator (fold panel_write (SetAllLights e) p) = indicator p"
  by (simp_all add: SetAllLights_unfold panel_lamp in_floors_def in_buttons_def)

declare set_all_lights_frame [simp]

section \<open>Polling is edge detection\<close>

lemma poll_body_eq:
  assumes "server (6, byte_of b, byte_of f, 0) = Some (a0, toByte (pressed f b), a2, a3)"
  shows "PollButtons_body server (f, b) (prev, out) =
           Some (mat_put prev f b (pressed f b),
                 if pressed f b \<and> \<not> mat_at prev f b then out @ [mk_event f b] else out)"
  using assms by (auto simp: PollButtons_body_def ButtonIsPressed_def)

definition answers :: "server \<Rightarrow> (int \<Rightarrow> ButtonType \<Rightarrow> bool) \<Rightarrow> bool" where
  "answers server pressed \<longleftrightarrow>
     (\<forall>f \<in> set floors. \<forall>b \<in> set buttons.
        \<exists>a0 a2 a3. server (6, byte_of b, byte_of f, 0) = Some (a0, toByte (pressed f b), a2, a3))"

lemma poll_fold:
  assumes "answers server pressed" "wf_mat NUM_FLOORS NUM_BUTTONS prev"
    and "set cells \<subseteq> set (grid buttons)" "distinct cells"
  shows "\<exists>prev'. fold_opt (PollButtons_body server) cells (prev, out) =
           Some (prev', out @ [mk_event f b. (f, b) \<leftarrow> cells, pressed f b \<and> \<not> mat_at prev f b])
         \<and> wf_mat NUM_FLOORS NUM_BUTTONS prev'
         \<and> (\<forall>f b. in_floors f \<longrightarrow> in_buttons b \<longrightarrow>
              mat_at prev' f b = (if (f, b) \<in> set cells then pressed f b else mat_at prev f b))"
  using assms
proof (induction cells arbitrary: prev out)
  case Nil
  then show ?case by simp
next
  case (Cons c cells)
  obtain f b where c: "c = (f, b)" by fastforce
  with Cons.prems(3) have rng: "0 \<le> f" "f < NUM_FLOORS" "0 \<le> b" "b < NUM_BUTTONS" by auto
  with Cons.prems(1) obtain a0 a2 a3 where
    "server (6, byte_of b, byte_of f, 0) = Some (a0, toByte (pressed f b), a2, a3)"
    unfolding answers_def by (meson set_floors set_buttons)
  note body = poll_body_eq [of server b f a0 pressed, OF this]
  let ?prev1 = "mat_put prev f b (pressed f b)"
  have at1: "mat_at (mat_put prev f b v) f' b' = (if f' = f \<and> b' = b then v else mat_at prev f' b')"
    if "in_floors f'" "in_buttons b'" for f' b' v
    using that mat_at_put [OF Cons.prems(2) rng, of f' b'] by (simp add: in_floors_def in_buttons_def)
  have same: "[mk_event f b. (f, b) \<leftarrow> cells, pressed f b \<and> \<not> mat_at ?prev1 f b]
            = [mk_event f b. (f, b) \<leftarrow> cells, pressed f b \<and> \<not> mat_at prev f b]"
    using Cons.prems(3,4) by (intro arg_cong [where f = concat] map_cong)
      (auto simp: at1 c in_floors_def in_buttons_def)
  from Cons.IH [OF Cons.prems(1) wf_mat_put [OF Cons.prems(2)], of f b "pressed f b"
      "if pressed f b \<and> \<not> mat_at prev f b then out @ [mk_event f b] else out"] Cons.prems(3,4)
  show ?case by (auto simp: c body same at1)
qed

lemma poll_buttons_round:
  assumes "answers server pressed" "wf_mat NUM_FLOORS NUM_BUTTONS prev"
  shows "\<exists>prev'. PollButtons_round server prev =
           Some (prev', [mk_event f b. (f, b) \<leftarrow> grid buttons, pressed f b \<and> \<not> mat_at prev f b])
         \<and> wf_mat NUM_FLOORS NUM_BUTTONS prev'
         \<and> (\<forall>f b. in_floors f \<longrightarrow> in_buttons b \<longrightarrow> mat_at prev' f b = pressed f b)"
  using poll_fold [OF assms, of "grid buttons" "[]"]
  by (auto simp: PollButtons_round_def in_floors_def in_buttons_def)

section \<open>Properties\<close>

text \<open>Whatever the panel showed before, the packets of \<open>SetAllLights\<close> leave every cab lamp at
  the elevator's own request and every hall lamp at the shared hall light, and touch neither the
  motor, the door lamp, the stop lamp nor the floor indicator.\<close>

theorem set_all_lights_exact:
  "lights_shown e (fold panel_write (SetAllLights e) p) \<and>
   motor (fold panel_write (SetAllLights e) p) = motor p \<and>
   door_lamp (fold panel_write (SetAllLights e) p) = door_lamp p \<and>
   stop_lamp (fold panel_write (SetAllLights e) p) = stop_lamp p \<and>
   indicator (fold panel_write (SetAllLights e) p) = indicator p"
  by (simp add: set_all_lights_shown)

text \<open>The specification of the button poller: the rising edges of every button, round by round.\<close>

fun rising :: "(int \<Rightarrow> ButtonType \<Rightarrow> bool) \<Rightarrow> (int \<Rightarrow> ButtonType \<Rightarrow> bool) list \<Rightarrow> ButtonEvent list" where
  "rising prev [] = []"
| "rising prev (now # later) =
     [mk_event f b. (f, b) \<leftarrow> grid buttons, now f b \<and> \<not> prev f b] @ rising now later"

lemma poll_run_rising:
  assumes "list_all2 answers servers readings"
  shows "\<exists>prev. run_steps (\<lambda>prev server. PollButtons_round server prev) (zero_mat NUM_FLOORS NUM_BUTTONS) servers =
           Some (prev, rising (\<lambda>_ _. False) readings)"
proof -
  have edges: "[mk_event f b. (f, b) \<leftarrow> grid buttons, now f b \<and> \<not> mat_at m f b] =
      [mk_event f b. (f, b) \<leftarrow> grid buttons, now f b \<and> \<not> prev f b]"
    if "\<And>f b. in_floors f \<Longrightarrow> in_buttons b \<Longrightarrow> mat_at m f b = prev f b" for m prev now
    using that by (intro arg_cong [where f = concat] map_cong) (auto simp: in_floors_def in_buttons_def)
  have "\<exists>p. run_steps (\<lambda>prev server. PollButtons_round server prev) m servers = Some (p, rising prev readings)"
    if "wf_mat NUM_FLOORS NUM_BUTTONS m" "\<And>f b. in_floors f \<Longrightarrow> in_buttons b \<Longrightarrow> mat_at m f b = prev f b" for m prev
    using assms that
  proof (induction servers readings arbitrary: m prev rule: list_all2_induct)
    case Nil
    then show ?case by simp
  next
    case (Cons server servers now readings)
    from poll_buttons_round [OF Cons.hyps(1) Cons.prems(1)] obtain m' where
      m': "PollButtons_round server m = Some (m', [mk_event f b. (f, b) \<leftarrow> grid buttons, now f b \<and> \<not> mat_at m f b])"
        "wf_mat NUM_FLOORS NUM_BUTTONS m'" "\<And>f b. in_floors f \<Longrightarrow> in_buttons b \<Longrightarrow> mat_at m' f b = now f b" by blast
    from Cons.IH [OF m'(2,3)] m'(1) edges [OF Cons.prems(2)] show ?case by auto
  qed
  then show ?thesis
    using wf_mat_zero [of NUM_FLOORS NUM_BUTTONS] by (simp add: mat_at_zero in_floors_def in_buttons_def)
qed

text \<open>C40: Over any number of rounds the button poller reports every press once, when it begins, in
  panel order: its events are the rising edges of the readings, starting from no button pressed.\<close>

theorem poll_buttons_rising:
  assumes "list_all2 answers servers readings"
  shows "\<exists>prev. run_steps (\<lambda>prev server. PollButtons_round server prev) (zero_mat NUM_FLOORS NUM_BUTTONS) servers =
           Some (prev, rising (\<lambda>_ _. False) readings)"
  by (rule poll_run_rising [OF assms])

definition holds_button :: "int \<Rightarrow> ButtonType \<Rightarrow> bool \<Rightarrow> server" where
  "holds_button f b v = (\<lambda>(op, x, y, z). Some (op, toByte (v \<and> x = byte_of b \<and> y = byte_of f), 0, 0))"

lemma holds_button_answers:
  "answers (holds_button 1 ButtonCab v) (\<lambda>f b. v \<and> f = 1 \<and> b = ButtonCab)"
  by (auto simp: answers_def holds_button_def floors_def buttons_def byte_of_def)

theorem poll_buttons_rising_witness:
  "\<exists>prev. run_steps (\<lambda>prev server. PollButtons_round server prev) (zero_mat NUM_FLOORS NUM_BUTTONS)
     [holds_button 1 ButtonCab False, holds_button 1 ButtonCab True, holds_button 1 ButtonCab True,
      holds_button 1 ButtonCab False, holds_button 1 ButtonCab True] =
     Some (prev, [mk_event 1 ButtonCab, mk_event 1 ButtonCab])"
proof -
  let ?r = "\<lambda>v f b. v \<and> f = 1 \<and> b = ButtonCab"
  let ?vs = "[False, True, True, False, True]"
  have "list_all2 answers (map (holds_button 1 ButtonCab) ?vs) (map ?r ?vs)"
    by (simp only: list.map list_all2_Cons list_all2_Nil holds_button_answers)
  from poll_buttons_rising [OF this] show ?thesis by (simp add: grid_def floors_def buttons_def)
qed

end
