(* ===== verification/Elevator_FSM.thy ===== *)
theory Elevator_FSM
  imports Elevio
begin

text \<open>
  The elevator state machine, elevator_fsm/elevator_fsm.go. The package's global \<open>elev\<close> is
  passed in and returned. What a handler does to the world is the list of its effects in
  order: packets written to the driver and operations on the two door timers. A handler that
  indexes \<open>Requests\<close> with an unchecked floor or button returns an option, \<open>None\<close> being the
  panic. The second half states the invariant of the machine and of the hardware and timers
  it drives (the \<open>plant\<close>), with one preservation lemma per handler.
\<close>

section \<open>Handlers\<close>

datatype effect =
    Hw packet
  | ResetDoorOpenTimer
  | ResetDoorStuckTimer
  | StopDoorStuckTimer

definition OnInitBetweenFloors :: "Elevator \<Rightarrow> Elevator \<times> effect list" where
  "OnInitBetweenFloors elev =
     (elev\<lparr>Dir := DirectionDown, Behavior := Moving\<rparr>, [Hw (SetMotorDirection DirectionDown)])"

definition InitFSM :: "Elevator \<times> effect list" where
  "InitFSM =
     (let (elev, effs) = OnInitBetweenFloors NewElevator
      in (elev, map (\<lambda>(floor, btn). Hw (SetButtonLamp btn floor False)) (grid buttons) @ effs))"

definition HandleButtonEvent :: "int \<Rightarrow> ButtonType \<Rightarrow> Elevator \<Rightarrow> (Elevator \<times> ButtonEvent list \<times> bool) option" where
  "HandleButtonEvent btnFloor btnType elev =
     (if Behavior elev = DoorOpen then
        if RequestsShouldClearImmediately elev btnFloor btnType
        then Some (elev, if btnType \<noteq> ButtonCab then [mk_event btnFloor btnType] else [], True)
        else do {
          m \<leftarrow> mat_set (Requests elev) btnFloor btnType True;
          Some (elev\<lparr>Requests := m\<rparr>, [], False)
        }
      else if Behavior elev = Moving then do {
        m \<leftarrow> mat_set (Requests elev) btnFloor btnType True;
        Some (elev\<lparr>Requests := m\<rparr>, [], False)
      }
      else if Behavior elev = Idle then do {
        m \<leftarrow> mat_set (Requests elev) btnFloor btnType True;
        let newState = elev\<lparr>Requests := m\<rparr>;
        let pair = RequestsChooseDirection newState;
        let newState = newState\<lparr>Dir := pair_Dir pair, Behavior := pair_Behavior pair\<rparr>;
        if pair_Behavior pair = DoorOpen
        then let (updatedElev, events) = RequestsClearAtCurrentFloor newState in Some (updatedElev, events, True)
        else Some (newState, [], False)
      }
      else Some (elev, [], False))"

definition OnRequestButtonPress :: "int \<Rightarrow> ButtonType \<Rightarrow> Elevator \<Rightarrow> (Elevator \<times> effect list \<times> ButtonEvent list) option" where
  "OnRequestButtonPress btnFloor btnType elev = do {
     (newState, clearedEvents, resetDoorTimer) \<leftarrow> HandleButtonEvent btnFloor btnType elev;
     Some (newState,
           (if resetDoorTimer then [ResetDoorOpenTimer, Hw (SetDoorOpenLamp True)] else []) @
           (if Behavior newState = Moving \<and> Behavior elev \<noteq> Moving
            then [Hw (SetMotorDirection (Dir newState))] else []) @
           map Hw (SetAllLights newState),
           clearedEvents)
   }"

definition RemoveRequest :: "int \<Rightarrow> ButtonType \<Rightarrow> Elevator \<Rightarrow> (Elevator \<times> effect list) option" where
  "RemoveRequest floor btnType elev = do {
     m \<leftarrow> mat_set (Requests elev) floor btnType False;
     Some (elev\<lparr>Requests := m\<rparr>, [Hw (SetButtonLamp btnType floor False)])
   }"

definition SetObstruction :: "bool \<Rightarrow> Elevator \<Rightarrow> Elevator" where
  "SetObstruction isObstructed elev = elev\<lparr>IsObstructed := isObstructed\<rparr>"

definition OnFloorArrival :: "int \<Rightarrow> Elevator \<Rightarrow> (Elevator \<times> effect list \<times> ButtonEvent list) option" where
  "OnFloorArrival newFloor elev =
     (let elev = elev\<lparr>Floor := newFloor\<rparr>;
          indicate = Hw (SetFloorIndicator (Floor elev))
      in if Behavior elev = Moving then do {
           stop \<leftarrow> RequestsShouldStop elev;
           if stop then
             let (updatedElev, clearedRequests) = RequestsClearAtCurrentFloor elev
             in Some (updatedElev\<lparr>Behavior := DoorOpen\<rparr>,
                      [indicate, Hw (SetMotorDirection DirectionStop), Hw (SetDoorOpenLamp True), ResetDoorOpenTimer]
                      @ map Hw (SetAllLights updatedElev),
                      clearedRequests)
           else Some (elev, [indicate], [])
         }
         else Some (elev, [indicate], []))"

definition SetHallLights :: "bool list list \<Rightarrow> Elevator \<Rightarrow> Elevator \<times> effect list" where
  "SetHallLights lightStates elev =
     (let elev = elev\<lparr>HallLightStates := lightStates\<rparr> in (elev, map Hw (SetAllLights elev)))"

text \<open>The results are the new state and \<open>resetDoorOpenTimer\<close>, \<open>stopDoorStuckTimer\<close>, \<open>resetDoorStuckTimer\<close>.\<close>

definition HandleDoorTimeout :: "Elevator \<Rightarrow> Elevator \<times> bool \<times> bool \<times> bool" where
  "HandleDoorTimeout elev =
     (if Behavior elev = DoorOpen then
        if IsObstructed elev then (elev, True, False, False)
        else
          let pair = RequestsChooseDirection elev;
              newState = elev\<lparr>Dir := pair_Dir pair, Behavior := pair_Behavior pair\<rparr>
          in if Behavior newState = DoorOpen
             then (fst (RequestsClearAtCurrentFloor newState), True, True, True)
             else (newState, False, True, False)
      else (elev, False, False, False))"

definition OnDoorTimeout :: "Elevator \<Rightarrow> Elevator \<times> effect list" where
  "OnDoorTimeout elev =
     (let (newState, resetDoorOpenTimer, stopDoorStuckTimer, resetDoorStuckTimer) = HandleDoorTimeout elev
      in (newState,
          (if resetDoorOpenTimer then [ResetDoorOpenTimer] else []) @
          (if stopDoorStuckTimer then [StopDoorStuckTimer, Hw (SetDoorOpenLamp False)] else []) @
          (if resetDoorStuckTimer then [ResetDoorStuckTimer] else []) @
          (if Behavior newState \<noteq> Behavior elev then
             if Behavior newState = Moving then [Hw (SetMotorDirection (Dir newState))]
             else if Behavior elev = DoorOpen \<and> Behavior newState \<noteq> DoorOpen then [Hw (SetDoorOpenLamp False)]
             else []
           else []) @
          map Hw (SetAllLights newState)))"

section \<open>The plant\<close>

text \<open>The hardware outputs and the two one-shot door timers, as the effects leave them.\<close>

record plant =
  pnl :: panel
  open_armed :: bool
  stuck_armed :: bool

lemma plant_order [simp]:
  "pl\<lparr>open_armed := a, pnl := p\<rparr> = pl\<lparr>pnl := p, open_armed := a\<rparr>"
  "pl\<lparr>stuck_armed := b, pnl := p\<rparr> = pl\<lparr>pnl := p, stuck_armed := b\<rparr>"
  "pl\<lparr>stuck_armed := b, open_armed := a\<rparr> = pl\<lparr>open_armed := a, stuck_armed := b\<rparr>"
  by simp_all

fun apply_effect :: "effect \<Rightarrow> plant \<Rightarrow> plant" where
  "apply_effect (Hw pk) pl = pl\<lparr>pnl := panel_write pk (pnl pl)\<rparr>"
| "apply_effect ResetDoorOpenTimer pl = pl\<lparr>open_armed := True\<rparr>"
| "apply_effect ResetDoorStuckTimer pl = pl\<lparr>stuck_armed := True\<rparr>"
| "apply_effect StopDoorStuckTimer pl = pl\<lparr>stuck_armed := False\<rparr>"

definition apply_effects :: "effect list \<Rightarrow> plant \<Rightarrow> plant" where
  "apply_effects effs pl = fold apply_effect effs pl"

lemma apply_effects_simps [simp]:
  "apply_effects [] pl = pl"
  "apply_effects (x # xs) pl = apply_effects xs (apply_effect x pl)"
  "apply_effects (xs @ ys) pl = apply_effects ys (apply_effects xs pl)"
  by (simp_all add: apply_effects_def)

lemma apply_effects_Hw:
  "apply_effects (map Hw pks) pl = pl\<lparr>pnl := fold panel_write pks (pnl pl)\<rparr>"
  by (induction pks arbitrary: pl) simp_all

lemma apply_lights [simp]:
  "motor (pnl (apply_effects (map Hw (SetAllLights e)) pl)) = motor (pnl pl)"
  "door_lamp (pnl (apply_effects (map Hw (SetAllLights e)) pl)) = door_lamp (pnl pl)"
  "open_armed (apply_effects (map Hw (SetAllLights e)) pl) = open_armed pl"
  "stuck_armed (apply_effects (map Hw (SetAllLights e)) pl) = stuck_armed pl"
  "lights_shown e (pnl (apply_effects (map Hw (SetAllLights e)) pl))"
  by (simp_all add: apply_effects_Hw set_all_lights_shown)

section \<open>The invariant\<close>

definition fsm_inv :: "Elevator \<Rightarrow> bool" where
  "fsm_inv e \<longleftrightarrow>
     wf_elev e \<and>
     (Floor e = -1 \<or> in_floors (Floor e)) \<and>
     (Behavior e = Idle \<and> Dir e = DirectionStop \<and> in_floors (Floor e) \<and> no_requests e \<or>
      Behavior e = DoorOpen \<and> valid_dir (Dir e) \<and> in_floors (Floor e) \<or>
      Behavior e = Moving \<and> Dir e = DirectionUp \<and> Floor e < NUM_FLOORS - 1 \<or>
      Behavior e = Moving \<and> Dir e = DirectionDown \<and> Floor e \<noteq> 0)"

definition cab_lamps_ok :: "Elevator \<Rightarrow> panel \<Rightarrow> bool" where
  "cab_lamps_ok e p \<longleftrightarrow> (\<forall>f \<in> set floors. lamp p f ButtonCab = req e f ButtonCab)"

definition plant_inv :: "Elevator \<Rightarrow> plant \<Rightarrow> bool" where
  "plant_inv e pl \<longleftrightarrow>
     motor (pnl pl) = (if Behavior e = Moving then Dir e else DirectionStop) \<and>
     (door_lamp (pnl pl) \<longrightarrow> Behavior e = DoorOpen) \<and>
     (open_armed pl \<longleftrightarrow> Behavior e = DoorOpen) \<and>
     cab_lamps_ok e (pnl pl)"

lemma fsm_invD:
  assumes "fsm_inv e"
  shows "wf_elev e" and "Floor e = -1 \<or> in_floors (Floor e)"
    and "Behavior e \<noteq> Moving \<Longrightarrow> in_floors (Floor e)"
    and "valid_dir (Dir e)"
    and "Behavior e = Idle \<or> Behavior e = DoorOpen \<or> Behavior e = Moving"
  using assms by (auto simp: fsm_inv_def valid_dir_def)

lemma fsm_inv_Idle: "fsm_inv e \<Longrightarrow> Behavior e = Idle \<Longrightarrow> Dir e = DirectionStop \<and> no_requests e"
  by (simp add: fsm_inv_def)

lemma lights_shown_cab: "lights_shown e p \<Longrightarrow> cab_lamps_ok e p"
  by (simp add: lights_shown_def cab_lamps_ok_def lights_of_def)

lemma cab_lamps_cong:
  "(\<And>f. in_floors f \<Longrightarrow> req e' f ButtonCab = req e f ButtonCab) \<Longrightarrow> cab_lamps_ok e' p = cab_lamps_ok e p"
  by (auto simp: cab_lamps_ok_def in_floors_def)

lemma after_lights:
  "cab_lamps_ok e (pnl (apply_effects (map Hw (SetAllLights e)) pl))"
  by (rule lights_shown_cab) simp

text \<open>A state chosen by \<open>RequestsChooseDirection\<close> at a known floor satisfies the invariant.\<close>

lemma fsm_inv_chosen:
  assumes "wf_elev e" "in_floors (Floor e)" "valid_dir (Dir e)"
  shows "fsm_inv (e\<lparr>Dir := pair_Dir (RequestsChooseDirection e),
                    Behavior := pair_Behavior (RequestsChooseDirection e)\<rparr>)"
proof -
  let ?p = "RequestsChooseDirection e"
  have no: "no_requests (e\<lparr>Dir := d, Behavior := b\<rparr>) = no_requests e" for d b
    by (simp add: no_requests_def)
  from choose_range(2) [of e] consider "pair_Behavior ?p = Idle" | "pair_Behavior ?p = DoorOpen"
    | "pair_Behavior ?p = Moving" by blast
  then show ?thesis
  proof cases
    case 1
    then show ?thesis using assms choose_Idle_Dir [of e] choose_Idle_iff [OF assms(2,3)]
      by (simp add: fsm_inv_def no)
  next
    case 2
    then show ?thesis using assms choose_range(1) [of e] by (simp add: fsm_inv_def)
  next
    case 3
    then show ?thesis using assms choose_Moving [OF 3] above_not_top [of e] below_not_bottom [of e]
      by (auto simp: fsm_inv_def)
  qed
qed

lemma fsm_inv_reopened:
  assumes "fsm_inv e" "Behavior e = DoorOpen"
  shows "fsm_inv (fst (RequestsClearAtCurrentFloor e))"
  using assms clear_wf [of e] by (simp add: fsm_inv_def)

end
