(* ===== verification/FSM_Invariant.thy ===== *)
theory FSM_Invariant
  imports Elevator_FSM
begin

text \<open>
  The invariant of the elevator state machine and of the plant it drives holds after
  initialisation and is kept by every handler of elevator_fsm.go; none of the handlers panics
  on a floor and a button inside the arrays.
\<close>

section \<open>Initialisation\<close>

lemma fsm_inv_init: "fsm_inv (fst InitFSM)"
  by (simp add: InitFSM_def OnInitBetweenFloors_def fsm_inv_def wf_NewElevator) (simp add: NewElevator_def)

lemma lamps_off:
  assumes "set cells \<subseteq> set (grid buttons)"
  shows "lamp (pnl (apply_effects (map (\<lambda>(floor, btn). Hw (SetButtonLamp btn floor False)) cells) pl)) f b
           = ((f, b) \<notin> set cells \<and> lamp (pnl pl) f b)"
  using assms
  by (induction cells arbitrary: pl)
     (auto simp: panel_lamp in_floors_def in_buttons_def split: if_splits)

lemma lamps_off_frame:
  assumes "set cells \<subseteq> set (grid buttons)"
  shows "door_lamp (pnl (apply_effects (map (\<lambda>(floor, btn). Hw (SetButtonLamp btn floor False)) cells) pl))
           = door_lamp (pnl pl)"
    and "open_armed (apply_effects (map (\<lambda>(floor, btn). Hw (SetButtonLamp btn floor False)) cells) pl)
           = open_armed pl"
  using assms
  by (induction cells arbitrary: pl) (auto simp: panel_lamp in_floors_def in_buttons_def)

lemma plant_inv_init:
  assumes "\<not> door_lamp (pnl pl)" "\<not> open_armed pl"
  shows "plant_inv (fst InitFSM) (apply_effects (snd InitFSM) pl)"
proof -
  have "req (OnInit) f ButtonCab = False" if "OnInit = NewElevator\<lparr>Dir := DirectionDown, Behavior := Moving\<rparr>"
      "in_floors f" for OnInit f
    using that req_NewElevator by simp
  then show ?thesis using assms
    by (simp add: InitFSM_def OnInitBetweenFloors_def plant_inv_def panel_motor valid_dir_def
        lamps_off_frame cab_lamps_ok_def lamps_off in_floors_def)
qed

section \<open>Button presses\<close>

lemma set_request:
  assumes "wf_elev e" "in_floors f" "in_buttons b"
  shows "mat_set (Requests e) f b v = Some (mat_put (Requests e) f b v)"
  using assms mat_set_inrange [OF wf_elev_matD] by (auto simp: in_floors_def in_buttons_def)

lemma handle_pending:
  assumes "wf_elev e" "in_floors f" "in_buttons b"
    and "Behavior e = Moving \<or> Behavior e = DoorOpen \<and> \<not> RequestsShouldClearImmediately e f b"
  shows "HandleButtonEvent f b e = Some (put_req e f b True, [], False)"
  using assms(4) by (auto simp: HandleButtonEvent_def set_request [OF assms(1-3)] put_req_def)

lemma handle_immediate:
  assumes "Behavior e = DoorOpen" "RequestsShouldClearImmediately e f b"
  shows "HandleButtonEvent f b e = Some (e, if b \<noteq> ButtonCab then [mk_event f b] else [], True)"
  using assms by (simp add: HandleButtonEvent_def)

definition redirect :: "Elevator \<Rightarrow> Elevator" where
  "redirect e = e\<lparr>Dir := pair_Dir (RequestsChooseDirection e),
                  Behavior := pair_Behavior (RequestsChooseDirection e)\<rparr>"

lemma redirect_simps [simp]:
  "Dir (redirect e) = pair_Dir (RequestsChooseDirection e)"
  "Behavior (redirect e) = pair_Behavior (RequestsChooseDirection e)"
  "Floor (redirect e) = Floor e"
  "req (redirect e) = req e"
  "HallLightStates (redirect e) = HallLightStates e"
  "wf_elev (redirect e) = wf_elev e"
  "no_requests (redirect e) = no_requests e"
  by (simp_all add: redirect_def req_def fun_eq_iff wf_elev_def no_requests_def)

lemma fsm_inv_redirect:
  "wf_elev e \<Longrightarrow> in_floors (Floor e) \<Longrightarrow> valid_dir (Dir e) \<Longrightarrow> fsm_inv (redirect e)"
  unfolding redirect_def by (rule fsm_inv_chosen)

lemma handle_idle:
  assumes "wf_elev e" "in_floors f" "in_buttons b" "Behavior e = Idle"
  defines "r \<equiv> redirect (put_req e f b True)"
  shows "HandleButtonEvent f b e =
     Some (if Behavior r = DoorOpen then (fst (RequestsClearAtCurrentFloor r), snd (RequestsClearAtCurrentFloor r), True)
           else (r, [], False))"
  using assms(4)
  by (simp add: HandleButtonEvent_def set_request [OF assms(1-3)] r_def redirect_def put_req_def
      Let_def case_prod_beta)

text \<open>The cases of a press, as one rule: the new state, whether the door timer is reset.\<close>

lemma handle_button:
  assumes inv: "fsm_inv e" and rng: "in_floors f" "in_buttons b"
  shows "\<exists>e' evs reset. HandleButtonEvent f b e = Some (e', evs, reset) \<and> fsm_inv e'
           \<and> (Behavior e = Moving \<longrightarrow> Behavior e' = Moving \<and> Dir e' = Dir e)
           \<and> (Behavior e = DoorOpen \<longrightarrow> Behavior e' = DoorOpen)
           \<and> (reset \<longrightarrow> Behavior e' = DoorOpen)
           \<and> (Behavior e = Idle \<longrightarrow> (reset \<longleftrightarrow> Behavior e' = DoorOpen))"
proof -
  note wf = fsm_invD(1) [OF inv]
  consider "Behavior e = Moving \<or> Behavior e = DoorOpen \<and> \<not> RequestsShouldClearImmediately e f b"
    | "Behavior e = DoorOpen" "RequestsShouldClearImmediately e f b" | "Behavior e = Idle"
    using fsm_invD(5) [OF inv] by blast
  then show ?thesis
  proof cases
    case 1
    then have "fsm_inv (put_req e f b True)" using inv wf_put_req [OF wf] by (auto simp: fsm_inv_def)
    with 1 handle_pending [OF wf rng 1] show ?thesis by auto
  next
    case 2
    with handle_immediate [OF 2] inv show ?thesis by auto
  next
    case 3
    let ?r = "redirect (put_req e f b True)"
    have r: "fsm_inv ?r"
      by (rule fsm_inv_redirect) (use inv wf_put_req [OF wf] 3 in \<open>auto simp: fsm_inv_def valid_dir_def\<close>)
    show ?thesis
    proof (cases "Behavior ?r = DoorOpen")
      case True
      with fsm_inv_reopened [OF r] handle_idle [OF wf rng 3] 3 show ?thesis by simp
    next
      case False
      with handle_idle [OF wf rng 3] 3 r show ?thesis by simp
    qed
  qed
qed

lemma press_ok:
  assumes inv: "fsm_inv e" and rng: "in_floors f" "in_buttons b"
  shows "\<exists>e' effs evs. OnRequestButtonPress f b e = Some (e', effs, evs) \<and> fsm_inv e' \<and>
           (\<forall>pl. plant_inv e pl \<longrightarrow> plant_inv e' (apply_effects effs pl))"
proof -
  from handle_button [OF assms] obtain e' evs reset where
    h: "HandleButtonEvent f b e = Some (e', evs, reset)" and inv': "fsm_inv e'"
    and cases: "Behavior e = Moving \<longrightarrow> Behavior e' = Moving \<and> Dir e' = Dir e"
      "Behavior e = DoorOpen \<longrightarrow> Behavior e' = DoorOpen" "reset \<longrightarrow> Behavior e' = DoorOpen"
      "Behavior e = Idle \<longrightarrow> (reset \<longleftrightarrow> Behavior e' = DoorOpen)" by blast
  have "valid_dir (Dir e')" by (rule fsm_invD(4) [OF inv'])
  then show ?thesis
    using h inv' cases fsm_invD(5) [OF inv] fsm_invD(5) [OF inv']
    by (auto simp: OnRequestButtonPress_def plant_inv_def after_lights panel_motor panel_door)
qed

lemma remove_ok:
  assumes inv: "fsm_inv e" and rng: "in_floors f" "in_buttons b"
  shows "\<exists>e' effs. RemoveRequest f b e = Some (e', effs) \<and> fsm_inv e' \<and>
           (\<forall>pl. plant_inv e pl \<longrightarrow> plant_inv e' (apply_effects effs pl))"
proof -
  note wf = fsm_invD(1) [OF inv]
  let ?e = "put_req e f b False"
  have r: "RemoveRequest f b e = Some (?e, [Hw (SetButtonLamp b f False)])"
    by (simp add: RemoveRequest_def set_request [OF wf rng] put_req_def)
  have "no_requests e \<Longrightarrow> no_requests ?e"
    using rng by (auto simp: no_requests_iff req_put_req wf)
  then have "fsm_inv ?e" using inv wf_put_req [OF wf] by (auto simp: fsm_inv_def)
  moreover have "plant_inv e pl \<longrightarrow> plant_inv ?e (apply_effects [Hw (SetButtonLamp b f False)] pl)" for pl
    using rng by (auto simp: plant_inv_def panel_lamp cab_lamps_ok_def req_put_req wf in_floors_def)
  ultimately show ?thesis using r by blast
qed

section \<open>Floors, lights, obstruction, door timer\<close>

lemma arrival_moving:
  assumes inv: "fsm_inv e" and mv: "Behavior e = Moving" and f: "in_floors f"
  defines "e1 \<equiv> e\<lparr>Floor := f\<rparr>"
  obtains (stop) "RequestsShouldStop e1 = Some True"
        "fsm_inv (fst (RequestsClearAtCurrentFloor e1)\<lparr>Behavior := DoorOpen\<rparr>)"
    | (pass) "RequestsShouldStop e1 = Some False" "fsm_inv e1"
proof -
  have wf: "wf_elev e1" using fsm_invD(1) [OF inv] by (simp add: e1_def)
  have fl: "in_floors (Floor e1)" using f by (simp add: e1_def)
  have dir: "Dir e1 = Dir e" "Behavior e1 = Moving" using mv by (simp_all add: e1_def)
  from should_stop_inrange [OF wf fl] obtain b where "RequestsShouldStop e1 = Some b" by blast
  then consider "RequestsShouldStop e1 = Some True" | "RequestsShouldStop e1 = Some False"
    by (cases b) simp_all
  then show ?thesis
  proof cases
    case 1
    have "fsm_inv (fst (RequestsClearAtCurrentFloor e1)\<lparr>Behavior := DoorOpen\<rparr>)"
      using clear_wf [OF wf] fl fsm_invD(4) [OF inv] dir by (simp add: fsm_inv_def)
    with 1 show ?thesis by (rule stop)
  next
    case 2
    from no_stop_ahead [OF wf fl 2] have "fsm_inv e1"
      using wf fl dir above_not_top [of e1] below_not_bottom [of e1] by (auto simp: fsm_inv_def)
    with 2 show ?thesis by (rule pass)
  qed
qed

lemma fsm_inv_floor: "fsm_inv e \<Longrightarrow> Behavior e \<noteq> Moving \<Longrightarrow> in_floors f \<Longrightarrow> fsm_inv (e\<lparr>Floor := f\<rparr>)"
  by (auto simp: fsm_inv_def no_requests_def)

lemma arrival_ok:
  assumes inv: "fsm_inv e" and f: "in_floors f"
  shows "\<exists>e' effs evs. OnFloorArrival f e = Some (e', effs, evs) \<and> fsm_inv e' \<and>
           (\<forall>pl. plant_inv e pl \<longrightarrow> plant_inv e' (apply_effects effs pl))"
proof (cases "Behavior e = Moving")
  case True
  have ind: "panel_write (SetFloorIndicator f) p = p\<lparr>indicator := f\<rparr>" for p
    using f by (intro panel_indicator) (auto simp: in_floors_def)
  let ?e1 = "e\<lparr>Floor := f\<rparr>"
  from inv True f show ?thesis
  proof (cases rule: arrival_moving)
    case stop
    let ?c = "fst (RequestsClearAtCurrentFloor ?e1)"
    have "cab_lamps_ok (?c\<lparr>Behavior := DoorOpen\<rparr>) p = cab_lamps_ok ?c p" for p
      by (rule cab_lamps_cong) simp
    with stop True show ?thesis
      by (simp add: OnFloorArrival_def Let_def case_prod_beta plant_inv_def after_lights ind panel_motor panel_door valid_dir_def)
  next
    case pass
    with True show ?thesis by (simp add: OnFloorArrival_def plant_inv_def cab_lamps_ok_def ind)
  qed
next
  case False
  have ind: "panel_write (SetFloorIndicator f) p = p\<lparr>indicator := f\<rparr>" for p
    using f by (intro panel_indicator) (auto simp: in_floors_def)
  from fsm_inv_floor [OF inv False f] False show ?thesis
    by (auto simp: OnFloorArrival_def plant_inv_def cab_lamps_ok_def ind)
qed

lemma arrival_panics:
  assumes "wf_elev e" "Behavior e = Moving" "Dir e = DirectionUp \<or> Dir e = DirectionDown" "\<not> in_floors f"
  shows "OnFloorArrival f e = None"
  using should_stop_panics [of "e\<lparr>Floor := f\<rparr>"] assms by (simp add: OnFloorArrival_def)

lemma hall_lights_ok:
  assumes "fsm_inv e" "wf_mat NUM_FLOORS 2 ls"
  shows "fsm_inv (fst (SetHallLights ls e)) \<and>
         (\<forall>pl. plant_inv e pl \<longrightarrow> plant_inv (fst (SetHallLights ls e)) (apply_effects (snd (SetHallLights ls e)) pl))"
proof -
  have "fsm_inv (e\<lparr>HallLightStates := ls\<rparr>)"
    using assms by (auto simp: fsm_inv_def wf_elev_def no_requests_def)
  then show ?thesis
    by (simp add: SetHallLights_def Let_def plant_inv_def after_lights)
qed

lemma obstruction_ok:
  "fsm_inv e \<Longrightarrow> fsm_inv (SetObstruction ob e)"
  "plant_inv e pl \<Longrightarrow> plant_inv (SetObstruction ob e) pl"
  by (auto simp: SetObstruction_def fsm_inv_def no_requests_def plant_inv_def cab_lamps_ok_def)

lemma door_timeout_cases:
  assumes "Behavior e = DoorOpen"
  obtains (obstructed) "IsObstructed e" "HandleDoorTimeout e = (e, True, False, False)"
    | (reopen) "\<not> IsObstructed e" "Behavior (redirect e) = DoorOpen"
        "HandleDoorTimeout e = (fst (RequestsClearAtCurrentFloor (redirect e)), True, True, True)"
    | (leave) "\<not> IsObstructed e" "Behavior (redirect e) \<noteq> DoorOpen"
        "HandleDoorTimeout e = (redirect e, False, True, False)"
  using assms by (cases "IsObstructed e"; cases "Behavior (redirect e) = DoorOpen")
    (auto simp: HandleDoorTimeout_def redirect_def Let_def)

lemma door_timeout_ok:
  assumes inv: "fsm_inv e" and door: "Behavior e = DoorOpen"
  shows "fsm_inv (fst (OnDoorTimeout e))"
    and "plant_inv e pl \<Longrightarrow> plant_inv (fst (OnDoorTimeout e)) (apply_effects (snd (OnDoorTimeout e)) (pl\<lparr>open_armed := False\<rparr>))"
proof -
  have r: "fsm_inv (redirect e)"
    by (rule fsm_inv_redirect) (use inv door in \<open>auto simp: fsm_inv_def\<close>)
  note vd = fsm_invD(4) [OF r]
  show "fsm_inv (fst (OnDoorTimeout e))"
    using door inv r fsm_inv_reopened [OF r]
    by (cases rule: door_timeout_cases) (simp_all add: OnDoorTimeout_def)
  show "plant_inv (fst (OnDoorTimeout e)) (apply_effects (snd (OnDoorTimeout e)) (pl\<lparr>open_armed := False\<rparr>))"
    if "plant_inv e pl"
    using door
  proof (cases rule: door_timeout_cases)
    case obstructed
    with door that show ?thesis
      by (simp add: OnDoorTimeout_def plant_inv_def after_lights)
  next
    case reopen
    with door that show ?thesis
      by (simp add: OnDoorTimeout_def plant_inv_def after_lights panel_door)
  next
    case leave
    with door that vd show ?thesis
      by (simp add: OnDoorTimeout_def plant_inv_def after_lights panel_door panel_motor)
  qed
qed

text \<open>Outside \<open>DoorOpen\<close> the handler only refreshes the lights.\<close>

lemma door_timeout_elsewhere:
  "Behavior e \<noteq> DoorOpen \<Longrightarrow> OnDoorTimeout e = (e, map Hw (SetAllLights e))"
  by (simp add: OnDoorTimeout_def HandleDoorTimeout_def)

end
