(* ===== verification/Service.thy ===== *)
theory Service
  imports FSM_Invariant
begin

text \<open>
  Every accepted request is served. \<open>drive\<close> closes the loop around the state machine: while
  the motor runs the car arrives at the next floor in its direction, while the door is open
  its timer fires; nobody presses a button and nothing blocks the door. The measure \<open>effort\<close>
  decreases with every such step, so the machine comes to rest with no request left after at
  most \<open>6 * pending + 6\<close> steps.
\<close>

section \<open>The closed loop\<close>

definition drive :: "Elevator \<Rightarrow> Elevator option" where
  "drive e =
     (if Behavior e = Moving then map_option fst (OnFloorArrival (Floor e + Dir e) e)
      else if Behavior e = DoorOpen then Some (fst (OnDoorTimeout e))
      else Some e)"

fun drive_run :: "nat \<Rightarrow> Elevator \<Rightarrow> Elevator option" where
  "drive_run n e =
     (if Behavior e = Idle then Some e
      else case n of 0 \<Rightarrow> None | Suc m \<Rightarrow> do { e' \<leftarrow> drive e; drive_run m e' })"

declare drive_run.simps [simp del]

definition pending :: "Elevator \<Rightarrow> nat" where
  "pending e = length (filter (\<lambda>(f, b). req e f b) (grid buttons))"

definition heading :: "Elevator \<Rightarrow> bool" where
  "heading e \<longleftrightarrow> Dir e = DirectionUp \<and> RequestsAbove e \<or> Dir e = DirectionDown \<and> RequestsBelow e"

definition effort :: "Elevator \<Rightarrow> nat" where
  "effort e = 6 * pending e +
     (if Behavior e = Moving then
        if heading e then nat (if Dir e = DirectionUp then NUM_FLOORS - 1 - Floor e else Floor e) else 6
      else if Behavior e = DoorOpen then
        if pair_Behavior (RequestsChooseDirection e) = DoorOpen then 5 else 4
      else 0)"

section \<open>Counting requests\<close>

lemma pending_card: "pending e = card {x \<in> set (grid buttons). req e (fst x) (snd x)}"
proof -
  have "pending e = card (set (filter (\<lambda>(f, b). req e f b) (grid buttons)))"
    unfolding pending_def by (rule distinct_card [symmetric]) simp
  also have "set (filter (\<lambda>(f, b). req e f b) (grid buttons)) = {x \<in> set (grid buttons). req e (fst x) (snd x)}"
    by auto
  finally show ?thesis .
qed

lemma pending_cong: "req e' = req e \<Longrightarrow> pending e' = pending e"
  by (simp add: pending_def)

lemma pending_clear_le:
  assumes "wf_elev e" "in_floors (Floor e)"
  shows "pending (fst (RequestsClearAtCurrentFloor e)) \<le> pending e"
  unfolding pending_card using clear_req [OF assms]
  by (intro card_mono) (auto simp: in_floors_def in_buttons_def)

lemma pending_clear_less:
  assumes "wf_elev e" "in_floors (Floor e)" "in_buttons b" "req e (Floor e) b" "served e b"
  shows "pending (fst (RequestsClearAtCurrentFloor e)) < pending e"
  unfolding pending_card
proof (rule psubset_card_mono)
  let ?c = "fst (RequestsClearAtCurrentFloor e)"
  let ?S = "\<lambda>e. {x \<in> set (grid buttons). req e (fst x) (snd x)}"
  have "(Floor e, b) \<in> ?S e" using assms by (auto simp: in_floors_def in_buttons_def)
  moreover have "(Floor e, b) \<notin> ?S ?c" using clear_req [OF assms(1,2,2,3)] assms by auto
  moreover have "?S ?c \<subseteq> ?S e" using clear_req [OF assms(1,2)] by (auto simp: in_floors_def in_buttons_def)
  ultimately show "?S ?c \<subset> ?S e" by blast
qed simp

section \<open>One step costs effort\<close>

lemma effort_door_le: "Behavior e = DoorOpen \<Longrightarrow> effort e \<le> 6 * pending e + 5"
  by (simp add: effort_def)

lemma effort_redirect:
  assumes "in_floors (Floor e)" "Behavior (redirect e) \<noteq> DoorOpen"
  shows "effort (redirect e) \<le> 6 * pending e + 3"
proof -
  have p: "pending (redirect e) = pending e" by (rule pending_cong) simp
  have ab: "RequestsAbove (redirect e) = RequestsAbove e" "RequestsBelow (redirect e) = RequestsBelow e"
    by (simp_all add: redirect_def)
  show ?thesis
  proof (cases "Behavior (redirect e) = Moving")
    case True
    then have "heading (redirect e)" using choose_Moving [of e] by (auto simp: heading_def ab)
    with True assms(1) show ?thesis by (auto simp: effort_def p in_floors_def)
  next
    case False
    with assms(2) show ?thesis by (simp add: effort_def p)
  qed
qed

text \<open>A reopened door either serves a request or the next timeout leaves the floor.\<close>

lemma effort_reopen:
  assumes inv: "fsm_inv e" and door: "Behavior e = DoorOpen" and re: "Behavior (redirect e) = DoorOpen"
  shows "effort (fst (RequestsClearAtCurrentFloor (redirect e))) < effort e"
proof -
  let ?r = "redirect e" and ?c = "fst (RequestsClearAtCurrentFloor (redirect e))"
  have wf: "wf_elev ?r" and fl: "in_floors (Floor ?r)" using fsm_invD [OF inv] door by simp_all
  have p: "pending ?r = pending e" by (rule pending_cong) simp
  have ab: "RequestsAbove ?r = RequestsAbove e" "RequestsBelow ?r = RequestsBelow e"
    by (simp_all add: redirect_def)
  have e: "effort e = 6 * pending e + 5" using door re by (simp add: effort_def)
  have cd: "Behavior ?c = DoorOpen" using re by simp
  show ?thesis
  proof (cases "\<exists>b. in_buttons b \<and> req ?r (Floor ?r) b \<and> served ?r b")
    case True
    then have "pending ?c < pending e" using pending_clear_less [OF wf fl] p by auto
    with effort_door_le [OF cd] e show ?thesis by simp
  next
    case False
    from choose_DoorOpen [of e] re obtain b where "in_buttons b" "req ?r (Floor ?r) b"
      by (auto simp: RequestsHere_iff)
    with False have none: "\<not> served ?r b" by blast
    then have ahead: "Dir ?r = DirectionUp \<and> RequestsAbove e \<or> Dir ?r = DirectionDown \<and> RequestsBelow e"
      using \<open>in_buttons b\<close> by (auto simp: served_def ab elim!: in_buttons_cases split: if_splits)
    have same: "RequestsAbove ?c = RequestsAbove ?r" "RequestsBelow ?c = RequestsBelow ?r"
      using clear_req [OF wf fl] by (auto intro!: above_below_cong)
    have "pair_Behavior (RequestsChooseDirection ?c) \<noteq> DoorOpen"
      using ahead by (auto simp: RequestsChooseDirection_def [of ?c] same ab)
    then have "effort ?c \<le> 6 * pending ?c + 4" using cd by (simp add: effort_def)
    with pending_clear_le [OF wf fl] p e show ?thesis by simp
  qed
qed

text \<open>A stop serves a request whenever the car was heading for one.\<close>

lemma stop_serves:
  assumes wf: "wf_elev e" and fl: "in_floors (Floor e)" and h: "heading e"
    and e1: "e1 = e\<lparr>Floor := Floor e + Dir e\<rparr>" and fl1: "in_floors (Floor e1)"
    and stop: "RequestsShouldStop e1 = Some True"
  shows "pending (fst (RequestsClearAtCurrentFloor e1)) < pending e"
proof -
  have wf1: "wf_elev e1" using wf e1 by simp
  have r1: "req e1 = req e" and d1: "Dir e1 = Dir e" using e1 by (simp_all add: fun_eq_iff)
  have p1: "pending e1 = pending e" by (rule pending_cong [OF r1])
  have near: "f = Floor e1" if "\<not> RequestsAbove e1" "Dir e = DirectionUp" "Floor e < f" "in_floors f" "in_buttons b" "req e f b" for f b
    using that fl1 e1 unfolding RequestsAbove_iff by (force simp: r1)
  have near': "f = Floor e1" if "\<not> RequestsBelow e1" "Dir e = DirectionDown" "f < Floor e" "in_floors f" "in_buttons b" "req e f b" for f b
    using that fl1 e1 unfolding RequestsBelow_iff by (force simp: r1)
  have "\<exists>b. in_buttons b \<and> req e1 (Floor e1) b \<and> served e1 b"
  proof (cases "Dir e = DirectionUp")
    case True
    with stop [unfolded should_stop_inrange [OF wf1 fl1]] d1
    consider "req e1 (Floor e1) ButtonHallUp" | "req e1 (Floor e1) ButtonCab" | "\<not> RequestsAbove e1"
      by auto
    then show ?thesis
    proof cases
      case 3
      from h True obtain f b where fb: "Floor e < f" "in_floors f" "in_buttons b" "req e f b"
        by (auto simp: heading_def RequestsAbove_iff)
      from near [OF 3 True fb] fb 3 True show ?thesis
        by (auto simp: served_def d1 r1 elim!: in_buttons_cases intro: exI [of _ b])
    qed (use True d1 in \<open>auto simp: served_def intro: in_buttons_consts\<close>)
  next
    case False
    with h have dn: "Dir e = DirectionDown" by (simp add: heading_def)
    with stop [unfolded should_stop_inrange [OF wf1 fl1]] d1
    consider "req e1 (Floor e1) ButtonHallDown" | "req e1 (Floor e1) ButtonCab" | "\<not> RequestsBelow e1"
      by auto
    then show ?thesis
    proof cases
      case 3
      from h dn obtain f b where fb: "f < Floor e" "in_floors f" "in_buttons b" "req e f b"
        by (auto simp: heading_def RequestsBelow_iff)
      from near' [OF 3 dn fb] fb 3 dn show ?thesis
        by (auto simp: served_def d1 r1 elim!: in_buttons_cases intro: exI [of _ b])
    qed (use dn d1 in \<open>auto simp: served_def intro: in_buttons_consts\<close>)
  qed
  with pending_clear_less [OF wf1 fl1] p1 show ?thesis by auto
qed

lemma drive_moving:
  assumes inv: "fsm_inv e" and fl: "in_floors (Floor e)" and mv: "Behavior e = Moving"
  shows "\<exists>e'. drive e = Some e' \<and> fsm_inv e' \<and> in_floors (Floor e') \<and> IsObstructed e' = IsObstructed e
              \<and> effort e' < effort e"
proof -
  let ?e1 = "e\<lparr>Floor := Floor e + Dir e\<rparr>"
  have dir: "Dir e = DirectionUp \<and> Floor e < NUM_FLOORS - 1 \<or> Dir e = DirectionDown \<and> Floor e \<noteq> 0"
    using inv mv by (auto simp: fsm_inv_def)
  then have f1: "in_floors (Floor e + Dir e)" using fl by (auto simp: in_floors_def)
  have wf: "wf_elev e" and wf1: "wf_elev ?e1" using fsm_invD(1) [OF inv] by simp_all
  have p1: "pending ?e1 = pending e" by (rule pending_cong) (simp add: fun_eq_iff)
  from inv mv f1 show ?thesis
  proof (cases rule: arrival_moving)
    case stop
    let ?c = "fst (RequestsClearAtCurrentFloor ?e1)" and ?e' = "fst (RequestsClearAtCurrentFloor ?e1)\<lparr>Behavior := DoorOpen\<rparr>"
    have d: "drive e = Some ?e'"
      using stop mv by (simp add: drive_def OnFloorArrival_def Let_def case_prod_beta)
    have pc: "pending ?e' = pending ?c" by (rule pending_cong) (simp add: fun_eq_iff)
    have "effort ?e' \<le> 6 * pending ?c + 5" using effort_door_le [of ?e'] pc by simp
    moreover have "6 * pending ?c + 5 < effort e"
    proof (cases "heading e")
      case True
      from stop_serves [OF wf fl True refl _ stop(1)] f1 have "pending ?c < pending e" by simp
      then show ?thesis using mv True dir fl by (auto simp: effort_def heading_def in_floors_def)
    next
      case False
      with pending_clear_le [OF wf1] f1 p1 mv show ?thesis by (simp add: effort_def)
    qed
    ultimately show ?thesis using d stop f1 by simp
  next
    case pass
    have d: "drive e = Some ?e1" using pass mv by (simp add: drive_def OnFloorArrival_def)
    have h1: "heading ?e1" using no_stop_ahead [OF wf1 _ pass(1)] f1 by (auto simp: heading_def)
    have h: "heading e" if "RequestsAbove ?e1 \<and> Dir e = DirectionUp \<or> RequestsBelow ?e1 \<and> Dir e = DirectionDown"
      using that fl unfolding heading_def searches_iff by force
    have "effort ?e1 < effort e"
      using h1 h mv p1 dir fl by (auto simp: effort_def heading_def in_floors_def)
    with d pass f1 show ?thesis by simp
  qed
qed

lemma drive_door:
  assumes inv: "fsm_inv e" and door: "Behavior e = DoorOpen" and ob: "\<not> IsObstructed e"
  shows "\<exists>e'. drive e = Some e' \<and> fsm_inv e' \<and> in_floors (Floor e') \<and> IsObstructed e' = IsObstructed e
              \<and> effort e' < effort e"
proof -
  have fl: "in_floors (Floor e)" using fsm_invD(3) [OF inv] door by simp
  have d: "drive e = Some (fst (OnDoorTimeout e))" using door by (simp add: drive_def)
  have ob': "IsObstructed (redirect e) = IsObstructed e" by (simp add: redirect_def)
  from door show ?thesis
  proof (cases rule: door_timeout_cases)
    case reopen
    with effort_reopen [OF inv door] door_timeout_ok(1) [OF inv door] fl d ob' show ?thesis
      by (simp add: OnDoorTimeout_def)
  next
    case leave
    have "effort e = 6 * pending e + 4" using door leave(2) by (simp add: effort_def)
    with effort_redirect [OF fl leave(2)] leave door_timeout_ok(1) [OF inv door] fl d ob' show ?thesis
      by (simp add: OnDoorTimeout_def)
  qed (use ob in simp)
qed

lemma drive_run_rests:
  assumes "fsm_inv e" "in_floors (Floor e)" "\<not> IsObstructed e" "effort e \<le> n"
  shows "\<exists>e'. drive_run n e = Some e' \<and> fsm_inv e' \<and> Behavior e' = Idle"
  using assms
proof (induction n arbitrary: e)
  case 0
  show ?case
  proof (cases "Behavior e = Idle")
    case True
    with 0 show ?thesis by (simp add: drive_run.simps)
  next
    case False
    with 0 drive_moving [of e] drive_door [of e] fsm_invD(5) [of e] show ?thesis by auto
  qed
next
  case (Suc n)
  show ?case
  proof (cases "Behavior e = Idle")
    case True
    with Suc.prems show ?thesis by (simp add: drive_run.simps)
  next
    case False
    with Suc.prems drive_moving [of e] drive_door [of e] fsm_invD(5) [of e] obtain e' where
      e': "drive e = Some e'" "fsm_inv e'" "in_floors (Floor e')" "\<not> IsObstructed e'" "effort e' < effort e"
      by auto
    with Suc.IH [of e'] Suc.prems(4) False show ?thesis by (simp add: drive_run.simps [of "Suc n" e])
  qed
qed

lemma effort_bound: "in_floors (Floor e) \<Longrightarrow> effort e \<le> 6 * pending e + 6"
  by (auto simp: effort_def in_floors_def)

lemma pending_bound: "pending e \<le> 12"
proof -
  have "pending e \<le> length (grid buttons)" unfolding pending_def by (rule length_filter_le)
  then show ?thesis by (simp add: grid_def floors_def buttons_def)
qed

text \<open>The fuel that always suffices.\<close>

abbreviation (input) service_steps :: nat where "service_steps \<equiv> 78"

lemma effort_service: "in_floors (Floor e) \<Longrightarrow> effort e \<le> service_steps"
  using effort_bound [of e] pending_bound [of e] by simp

end
