(* ===== verification/Single_Elevator.thy ===== *)
theory Single_Elevator
  imports FSM_Invariant
begin

text \<open>
  The elevator goroutine, singleelevator/elevatorprogram.go: the messages between elevator and
  node and one step of the \<open>select\<close> loop of \<open>ElevatorProgram\<close>. The state is the machine's
  \<open>elev\<close>, the plant and the local \<open>doorStuckTimerActive\<close>; the output of a step is the list of
  messages sent on \<open>elevatorEventTx\<close>, in order. A timer case of the \<open>select\<close> can only be taken
  while that one-shot timer is armed (Go 1.23 timers deliver no stale ticks), which \<open>enabled\<close>
  says; taking it disarms the timer.
\<close>

section \<open>Messages\<close>

datatype ElevatorEventType = HallButtonEvent | LocalHallAssignmentCompleteEvent | DoorStuckEvent

datatype ElevatorOrderType = HallOrder | CabOrder | LightUpdate

record ElevatorEvent =
  EventType :: ElevatorEventType
  ee_ButtonEvent :: ButtonEvent
  DoorIsStuck :: bool

record LightAndAssignmentUpdate =
  OrderType :: ElevatorOrderType
  HallAssignments :: "bool list list"
  CabAssignments :: "bool list"
  LightStates :: "bool list list"

text \<open>The zero value of the message; the zero value of its order type is \<open>HallOrder\<close>.\<close>

definition zero_update :: LightAndAssignmentUpdate where
  "zero_update =
     \<lparr>OrderType = HallOrder, HallAssignments = zero_mat NUM_FLOORS 2,
      CabAssignments = replicate 4 False, LightStates = zero_mat NUM_FLOORS 2\<rparr>"

definition makeHallButtonEventMessage :: "ButtonEvent \<Rightarrow> ElevatorEvent" where
  "makeHallButtonEventMessage buttonEvent =
     \<lparr>EventType = HallButtonEvent, ee_ButtonEvent = buttonEvent, DoorIsStuck = False\<rparr>"

definition makeHallAssignmentCompleteEventMessage :: "ButtonEvent \<Rightarrow> ElevatorEvent" where
  "makeHallAssignmentCompleteEventMessage buttonEvent =
     \<lparr>EventType = LocalHallAssignmentCompleteEvent, ee_ButtonEvent = buttonEvent, DoorIsStuck = False\<rparr>"

definition makeDoorStuckMessage :: "bool \<Rightarrow> ElevatorEvent" where
  "makeDoorStuckMessage isDoorStuck =
     \<lparr>EventType = DoorStuckEvent, ee_ButtonEvent = mk_event 0 0, DoorIsStuck = isDoorStuck\<rparr>"

lemmas make_messages = makeHallButtonEventMessage_def makeHallAssignmentCompleteEventMessage_def
  makeDoorStuckMessage_def

lemma complete_inj [simp]:
  "makeHallAssignmentCompleteEventMessage a = makeHallAssignmentCompleteEventMessage b \<longleftrightarrow> a = b"
  by (simp add: make_messages)

text \<open>The message of \<open>transmitElevatorState\<close>, sent at every tick.\<close>

definition transmitElevatorState :: "Elevator \<Rightarrow> ElevatorState" where
  "transmitElevatorState elev =
     \<lparr>es_Floor = Floor elev, es_Direction = Dir elev, es_Behavior = Behavior elev,
      es_CabRequests = GetCabRequestsAsElevState elev\<rparr>"

section \<open>The event loop\<close>

record ep_state =
  elev :: Elevator
  hw :: plant
  doorStuckTimerActive :: bool

datatype ep_input =
    ButtonRx ButtonEvent
  | UpdateRx LightAndAssignmentUpdate
  | FloorRx int
  | ObstructionRx bool
  | DoorOpenTimerFires
  | DoorStuckTimerFires

type_synonym ep_out = "ep_state \<times> ElevatorEvent list"

text \<open>Calls of the state machine: the new \<open>elev\<close> with the effects applied to the plant.\<close>

definition set_elev :: "Elevator \<Rightarrow> effect list \<Rightarrow> ep_state \<Rightarrow> ep_state" where
  "set_elev e effs s = s\<lparr>elev := e, hw := apply_effects effs (hw s)\<rparr>"

definition ElevatorProgram_init :: "plant \<Rightarrow> ep_out" where
  "ElevatorProgram_init pl =
     (\<lparr>elev = fst InitFSM,
       hw = (apply_effects (snd InitFSM) pl)\<lparr>open_armed := False, stuck_armed := False\<rparr>,
       doorStuckTimerActive = False\<rparr>,
      [makeDoorStuckMessage False])"

definition HallOrder_body :: "LightAndAssignmentUpdate \<Rightarrow> int \<times> ButtonType \<Rightarrow> ep_out \<Rightarrow> ep_out option" where
  "HallOrder_body msg cell so = (case (cell, so) of ((floor, hallButton), (s, out)) \<Rightarrow>
     if mat_at (HallAssignments msg) floor hallButton then do {
       (e, effs, clearedEvents) \<leftarrow> OnRequestButtonPress floor hallButton (elev s);
       Some (set_elev e effs s,
             out @ map makeHallAssignmentCompleteEventMessage
                     (filter (\<lambda>be. be_Button be \<noteq> ButtonCab \<and> be_Floor be = floor) clearedEvents))
     }
     else if \<not> mat_at (HallAssignments msg) floor hallButton \<and> req (elev s) floor hallButton then do {
       (e, effs) \<leftarrow> RemoveRequest floor hallButton (elev s);
       Some (set_elev e effs s, out)
     }
     else Some (s, out))"

definition CabOrder_body :: "LightAndAssignmentUpdate \<Rightarrow> int \<Rightarrow> ep_out \<Rightarrow> ep_out option" where
  "CabOrder_body msg floor so = (case so of (s, out) \<Rightarrow>
     if CabAssignments msg ! nat floor then do {
       (e, effs, clearedEvents) \<leftarrow> OnRequestButtonPress floor ButtonCab (elev s);
       Some (set_elev e effs s, out)
     }
     else Some (s, out))"

fun ElevatorProgram_step :: "ep_state \<Rightarrow> ep_input \<Rightarrow> ep_out option" where
  "ElevatorProgram_step s (ButtonRx button) =
     (if be_Button button = ButtonCab then do {
        (e, effs, clearedEvents) \<leftarrow> OnRequestButtonPress (be_Floor button) (be_Button button) (elev s);
        Some (set_elev e effs s, [])
      }
      else Some (s, [makeHallButtonEventMessage button]))"
| "ElevatorProgram_step s (UpdateRx msg) =
     (case OrderType msg of
        HallOrder \<Rightarrow> fold_opt (HallOrder_body msg) (grid hall_buttons) (s, [])
      | CabOrder \<Rightarrow> fold_opt (CabOrder_body msg) floors (s, [])
      | LightUpdate \<Rightarrow> (let (e, effs) = SetHallLights (LightStates msg) (elev s) in Some (set_elev e effs s, [])))"
| "ElevatorProgram_step s (FloorRx floor) = do {
     (e, effs, clearedButtonEvents) \<leftarrow> OnFloorArrival floor (elev s);
     Some (set_elev e effs s,
           map makeHallAssignmentCompleteEventMessage (filter (\<lambda>be. be_Button be \<noteq> ButtonCab) clearedButtonEvents))
   }"
| "ElevatorProgram_step s (ObstructionRx isObstructed) =
     Some (s\<lparr>elev := SetObstruction isObstructed (elev s)\<rparr>, [])"
| "ElevatorProgram_step s DoorOpenTimerFires =
     (let s = s\<lparr>hw := (hw s)\<lparr>open_armed := False\<rparr>\<rparr>;
          s = (if \<not> doorStuckTimerActive s
               then s\<lparr>hw := apply_effect ResetDoorStuckTimer (hw s), doorStuckTimerActive := True\<rparr> else s);
          (e, effs) = OnDoorTimeout (elev s)
      in Some (set_elev e effs s, []))"
| "ElevatorProgram_step s DoorStuckTimerFires =
     Some (s\<lparr>hw := (hw s)\<lparr>stuck_armed := False\<rparr>\<rparr>, [makeDoorStuckMessage True])"

definition enabled :: "ep_state \<Rightarrow> ep_input \<Rightarrow> bool" where
  "enabled s i = (case i of
     DoorOpenTimerFires \<Rightarrow> open_armed (hw s)
   | DoorStuckTimerFires \<Rightarrow> stuck_armed (hw s)
   | _ \<Rightarrow> True)"

text \<open>
  What the drivers and Go's types guarantee of an input: buttons are polled inside the arrays,
  messages carry arrays of the right size; the floor sensor reports one of the configured floors.
\<close>

definition wf_update :: "LightAndAssignmentUpdate \<Rightarrow> bool" where
  "wf_update msg \<longleftrightarrow> wf_mat NUM_FLOORS 2 (HallAssignments msg) \<and> int (length (CabAssignments msg)) = NUM_FLOORS \<and>
     wf_mat NUM_FLOORS 2 (LightStates msg)"

definition wf_input :: "ep_input \<Rightarrow> bool" where
  "wf_input i = (case i of
     ButtonRx b \<Rightarrow> in_floors (be_Floor b) \<and> in_buttons (be_Button b)
   | UpdateRx msg \<Rightarrow> wf_update msg
   | FloorRx f \<Rightarrow> in_floors f
   | _ \<Rightarrow> True)"

inductive ep_reach :: "plant \<Rightarrow> ep_state \<Rightarrow> bool" for pl :: plant where
  ep_start: "ep_reach pl (fst (ElevatorProgram_init pl))"
| ep_next: "ep_reach pl s \<Longrightarrow> enabled s i \<Longrightarrow> wf_input i \<Longrightarrow> ElevatorProgram_step s i = Some (s', out) \<Longrightarrow> ep_reach pl s'"

section \<open>The loops of an order\<close>

text \<open>
  The contract of a loop whose body settles one cell and leaves the others alone: from it the
  loop settles every cell it visits, and never panics.
\<close>

locale cell_loop =
  fixes body :: "'c \<Rightarrow> 's \<Rightarrow> 's option"
    and ok :: "'s \<Rightarrow> bool"
    and cells :: "'c set"
    and cell :: "'s \<Rightarrow> 'c \<Rightarrow> 'v"
    and settled :: "'c \<Rightarrow> 'v \<Rightarrow> 'v \<Rightarrow> bool"
  assumes body_ok: "c \<in> cells \<Longrightarrow> ok s \<Longrightarrow>
      \<exists>s'. body c s = Some s' \<and> ok s' \<and> settled c (cell s c) (cell s' c) \<and>
           (\<forall>d \<in> cells. d \<noteq> c \<longrightarrow> cell s' d = cell s d)"
begin

lemma loop_settles:
  assumes "set cs \<subseteq> cells" "distinct cs" "ok s"
  shows "\<exists>s'. fold_opt body cs s = Some s' \<and> ok s' \<and>
           (\<forall>d \<in> cells. if d \<in> set cs then settled d (cell s d) (cell s' d) else cell s' d = cell s d)"
  using assms
proof (induction cs arbitrary: s)
  case Nil
  then show ?case by simp
next
  case (Cons c cs)
  then have "c \<in> cells" by simp
  from body_ok [OF this Cons.prems(3)] obtain s1 where
    s1: "body c s = Some s1" "ok s1" "settled c (cell s c) (cell s1 c)"
    and others: "\<And>d. d \<in> cells \<Longrightarrow> d \<noteq> c \<Longrightarrow> cell s1 d = cell s d" by blast
  from Cons.IH [OF _ _ s1(2)] Cons.prems obtain s' where
    s': "fold_opt body cs s1 = Some s'" "ok s'"
    and all: "\<And>d. d \<in> cells \<Longrightarrow> if d \<in> set cs then settled d (cell s1 d) (cell s' d) else cell s' d = cell s1 d"
    by auto
  have "if d \<in> set (c # cs) then settled d (cell s d) (cell s' d) else cell s' d = cell s d" if "d \<in> cells" for d
    using all [OF that] others [OF that] s1(3) Cons.prems(2) by (cases "d = c") auto
  with s1(1) s' show ?case by simp
qed

end

section \<open>The invariant of the loop\<close>

definition ep_inv :: "ep_state \<Rightarrow> bool" where
  "ep_inv s \<longleftrightarrow> fsm_inv (elev s) \<and> plant_inv (elev s) (hw s)"

lemma ep_inv_set_elev:
  "fsm_inv e \<Longrightarrow> plant_inv e (apply_effects effs (hw s)) \<Longrightarrow> ep_inv (set_elev e effs s)"
  by (simp add: ep_inv_def set_elev_def)

lemma set_elev_simps [simp]:
  "elev (set_elev e effs s) = e"
  "hw (set_elev e effs s) = apply_effects effs (hw s)"
  "doorStuckTimerActive (set_elev e effs s) = doorStuckTimerActive s"
  by (simp_all add: set_elev_def)

text \<open>
  What a press does to the requests: only its own cell changes; a hall press is afterwards
  pending or reported as served, and nothing else is reported.
\<close>

lemma press_cells:
  assumes inv: "fsm_inv e" and rng: "in_floors f" "in_buttons b"
    and press: "OnRequestButtonPress f b e = Some (e', effs, evs)"
  shows "\<And>f' b'. in_floors f' \<Longrightarrow> in_buttons b' \<Longrightarrow> (f', b') \<noteq> (f, b) \<Longrightarrow> req e' f' b' = req e f' b'"
    and "b \<noteq> ButtonCab \<Longrightarrow> req e' f b \<or> mk_event f b \<in> set evs"
    and "set evs \<subseteq> {mk_event f b}"
    and "b = ButtonCab \<Longrightarrow> evs = []"
proof -
  note wf = fsm_invD(1) [OF inv]
  from press obtain reset where h: "HandleButtonEvent f b e = Some (e', evs, reset)"
    by (auto simp: OnRequestButtonPress_def split: Option.bind_splits prod.splits)
  consider (pend) "Behavior e = Moving \<or> Behavior e = DoorOpen \<and> \<not> RequestsShouldClearImmediately e f b"
    | (now) "Behavior e = DoorOpen" "RequestsShouldClearImmediately e f b"
    | (idle) "Behavior e = Idle"
    using fsm_invD(5) [OF inv] by blast
  then have "(\<forall>f' b'. in_floors f' \<longrightarrow> in_buttons b' \<longrightarrow> (f', b') \<noteq> (f, b) \<longrightarrow> req e' f' b' = req e f' b') \<and>
    (b \<noteq> ButtonCab \<longrightarrow> req e' f b \<or> mk_event f b \<in> set evs) \<and> set evs \<subseteq> {mk_event f b} \<and>
    (b = ButtonCab \<longrightarrow> evs = [])"
  proof cases
    case pend
    from handle_pending [OF wf rng pend] h rng show ?thesis by (auto simp: req_put_req wf)
  next
    case now
    from handle_immediate [OF now] h show ?thesis by (auto split: if_splits)
  next
    case idle
    let ?p = "put_req e f b True" and ?r = "redirect (put_req e f b True)"
    have none: "\<not> req e f' b'" if "in_floors f'" "in_buttons b'" for f' b'
      using fsm_inv_Idle [OF inv idle] that by (auto simp: no_requests_iff)
    have wfr: "wf_elev ?r" using wf_put_req [OF wf] by simp
    have fl: "in_floors (Floor ?r)" using fsm_invD(3) [OF inv] idle by simp
    have rp: "req ?r f' b' \<longleftrightarrow> f' = f \<and> b' = b" if "in_floors f'" "in_buttons b'" for f' b'
      using that rng none by (auto simp: req_put_req wf)
    show ?thesis
    proof (cases "Behavior ?r = DoorOpen")
      case True
      with handle_idle [OF wf rng idle] h
      have e': "e' = fst (RequestsClearAtCurrentFloor ?r)" and evs: "evs = snd (RequestsClearAtCurrentFloor ?r)" by simp_all
      from choose_DoorOpen [of ?p] True obtain b0 where "in_buttons b0" "req ?p (Floor e) b0"
        by (auto simp: RequestsHere_iff)
      with fl rng none have here: "f = Floor e" by (auto simp: req_put_req wf split: if_splits)
      have stopdir: "Dir ?r = DirectionStop"
        using True fsm_inv_Idle [OF inv idle] by (auto simp: RequestsChooseDirection_def split: if_splits)
      have sv: "served ?r b'" if "in_buttons b'" for b'
        using that stopdir by (auto simp: served_def elim!: in_buttons_cases)
      have "req e' f' b' = req e f' b'" if "in_floors f'" "in_buttons b'" "(f', b') \<noteq> (f, b)" for f' b'
        using that none rp by (auto simp: e' clear_req [OF wfr fl that(1,2)])
      moreover have "set evs = {mk_event (Floor e) b' | b'. (b' = ButtonHallUp \<or> b' = ButtonHallDown) \<and> b' = b}"
        using clear_events(1) [OF wfr fl] rp sv here rng by (auto simp: evs in_buttons_def)
      ultimately show ?thesis using rng here by (auto simp: in_buttons_def)
    next
      case False
      with handle_idle [OF wf rng idle] h have "e' = ?r" "evs = []" by simp_all
      then show ?thesis using rp none rng by auto
    qed
  qed
  then show "\<And>f' b'. in_floors f' \<Longrightarrow> in_buttons b' \<Longrightarrow> (f', b') \<noteq> (f, b) \<Longrightarrow> req e' f' b' = req e f' b'"
    and "b \<noteq> ButtonCab \<Longrightarrow> req e' f b \<or> mk_event f b \<in> set evs"
    and "set evs \<subseteq> {mk_event f b}" and "b = ButtonCab \<Longrightarrow> evs = []" by blast+
qed

end
