(* ===== verification/Elevator_Loop.thy ===== *)
theory Elevator_Loop
  imports Single_Elevator Service
begin

text \<open>
  Correctness of the elevator goroutine. The two order loops are instances of \<open>cell_loop\<close>;
  with the handlers' lemmas this gives that no step of the event loop panics on well-formed
  input and that the invariant of machine and plant holds in every reachable state.
\<close>

section \<open>The order loops\<close>

definition hall_cells :: "(int \<times> ButtonType) set" where
  "hall_cells = set (grid hall_buttons)"

text \<open>A hall cell is the pair of being pending and of having been reported complete.\<close>

definition hall_cell :: "ep_out \<Rightarrow> int \<times> ButtonType \<Rightarrow> bool \<times> bool" where
  "hall_cell so c =
     (req (elev (fst so)) (fst c) (snd c),
      makeHallAssignmentCompleteEventMessage (mk_event (fst c) (snd c)) \<in> set (snd so))"

definition hall_settled :: "LightAndAssignmentUpdate \<Rightarrow> int \<times> ButtonType \<Rightarrow> bool \<times> bool \<Rightarrow> bool \<times> bool \<Rightarrow> bool" where
  "hall_settled msg c old new =
     (if mat_at (HallAssignments msg) (fst c) (snd c) then fst new \<or> snd new
      else \<not> fst new \<and> snd new = snd old)"

lemma hall_cellsD: "c \<in> hall_cells \<Longrightarrow> in_floors (fst c) \<and> in_buttons (snd c) \<and> snd c \<noteq> ButtonCab"
  by (cases c) (auto simp: hall_cells_def in_floors_def in_buttons_def)

definition cab_kept :: "Elevator \<Rightarrow> Elevator \<Rightarrow> bool" where
  "cab_kept e0 e \<longleftrightarrow> (\<forall>f \<in> set floors. req e f ButtonCab = req e0 f ButtonCab)"

lemma hall_body_ok:
  assumes c: "c \<in> hall_cells" and ok: "ep_inv (fst so) \<and> cab_kept e0 (elev (fst so))"
  shows "\<exists>so'. HallOrder_body msg c so = Some so' \<and> (ep_inv (fst so') \<and> cab_kept e0 (elev (fst so'))) \<and>
           hall_settled msg c (hall_cell so c) (hall_cell so' c) \<and>
           (\<forall>d \<in> hall_cells. d \<noteq> c \<longrightarrow> hall_cell so' d = hall_cell so d)"
proof -
  obtain f b where cf: "c = (f, b)" by fastforce
  obtain s out where so: "so = (s, out)" by fastforce
  have rng: "in_floors f" "in_buttons b" "b \<noteq> ButtonCab" using hall_cellsD [OF c] cf by simp_all
  have inv: "fsm_inv (elev s)" "plant_inv (elev s) (hw s)" using ok so by (simp_all add: ep_inv_def)
  have wf: "wf_elev (elev s)" by (rule fsm_invD(1) [OF inv(1)])
  consider (press) "mat_at (HallAssignments msg) f b"
    | (remove) "\<not> mat_at (HallAssignments msg) f b" "req (elev s) f b"
    | (skip) "\<not> mat_at (HallAssignments msg) f b" "\<not> req (elev s) f b" by blast
  then show ?thesis
  proof cases
    case press
    from press_ok [OF inv(1) rng(1,2)] obtain e effs evs where
      p: "OnRequestButtonPress f b (elev s) = Some (e, effs, evs)" and e: "fsm_inv e"
      "\<forall>pl. plant_inv (elev s) pl \<longrightarrow> plant_inv e (apply_effects effs pl)" by blast
    note pc = press_cells [OF inv(1) rng(1,2) p]
    have flt: "filter (\<lambda>be. be_Button be \<noteq> ButtonCab \<and> be_Floor be = f) evs = evs"
      using pc(3) rng(3) by (auto simp: filter_id_conv)
    have kept: "cab_kept e0 e" using ok pc(1) rng(3) so by (auto simp: cab_kept_def in_floors_def)
    show ?thesis
      using press p e inv(2) pc flt kept rng hall_cellsD
      by (auto simp: HallOrder_body_def cf so hall_cell_def hall_settled_def intro: ep_inv_set_elev)
  next
    case remove
    from remove_ok [OF inv(1) rng(1,2)] obtain e effs where
      p: "RemoveRequest f b (elev s) = Some (e, effs)" and e: "fsm_inv e"
      "\<forall>pl. plant_inv (elev s) pl \<longrightarrow> plant_inv e (apply_effects effs pl)" by blast
    then have eq: "e = put_req (elev s) f b False"
      by (simp add: RemoveRequest_def set_request [OF wf rng(1,2)] put_req_def)
    have kept: "cab_kept e0 e" using ok rng so by (auto simp: cab_kept_def in_floors_def eq req_put_req wf)
    show ?thesis
      using remove p e inv(2) kept rng hall_cellsD
      by (auto simp: HallOrder_body_def cf so hall_cell_def hall_settled_def eq req_put_req wf intro: ep_inv_set_elev)
  next
    case skip
    then show ?thesis using ok by (simp add: HallOrder_body_def cf so hall_cell_def hall_settled_def)
  qed
qed

interpretation hall: cell_loop "HallOrder_body msg" "\<lambda>so. ep_inv (fst so) \<and> cab_kept e0 (elev (fst so))"
    hall_cells hall_cell "hall_settled msg" for msg e0
  by unfold_locales (rule hall_body_ok)

text \<open>A cab cell only remembers being pending; a press may serve it at once.\<close>

lemma cab_body_ok:
  assumes c: "f \<in> set floors" and ok: "ep_inv (fst so)"
  shows "\<exists>so'. CabOrder_body msg f so = Some so' \<and> ep_inv (fst so') \<and>
           (\<not> CabAssignments msg ! nat f \<longrightarrow> req (elev (fst so')) f ButtonCab = req (elev (fst so)) f ButtonCab) \<and>
           (\<forall>d \<in> set floors. d \<noteq> f \<longrightarrow> req (elev (fst so')) d ButtonCab = req (elev (fst so)) d ButtonCab)"
proof -
  obtain s out where so: "so = (s, out)" by fastforce
  have rng: "in_floors f" "in_buttons ButtonCab" using c by (simp_all add: in_floors_def)
  have inv: "fsm_inv (elev s)" "plant_inv (elev s) (hw s)" using ok so by (simp_all add: ep_inv_def)
  show ?thesis
  proof (cases "CabAssignments msg ! nat f")
    case True
    from press_ok [OF inv(1) rng] obtain e effs evs where
      p: "OnRequestButtonPress f ButtonCab (elev s) = Some (e, effs, evs)" and e: "fsm_inv e"
      "\<forall>pl. plant_inv (elev s) pl \<longrightarrow> plant_inv e (apply_effects effs pl)" by blast
    with True inv(2) press_cells(1) [OF inv(1) rng p] show ?thesis
      by (auto simp: CabOrder_body_def so in_floors_def intro: ep_inv_set_elev)
  next
    case False
    with ok show ?thesis by (simp add: CabOrder_body_def so)
  qed
qed

interpretation cab: cell_loop "CabOrder_body msg" "\<lambda>so. ep_inv (fst so)" "set floors"
    "\<lambda>so f. req (elev (fst so)) f ButtonCab" "\<lambda>f old new. CabAssignments msg ! nat f \<or> new = old" for msg
  by unfold_locales (use cab_body_ok in blast)

lemma hall_order_result:
  assumes "ep_inv s"
  shows "\<exists>s' out. fold_opt (HallOrder_body msg) (grid hall_buttons) (s, []) = Some (s', out) \<and> ep_inv s' \<and>
           cab_kept (elev s) (elev s') \<and>
           (\<forall>c \<in> hall_cells. hall_settled msg c (hall_cell (s, []) c) (hall_cell (s', out) c))"
proof -
  have "ep_inv (fst (s, [])) \<and> cab_kept (elev s) (elev (fst (s, [])))" using assms by (simp add: cab_kept_def)
  from hall.loop_settles [OF _ _ this, of "grid hall_buttons" msg]
  show ?thesis by (auto simp: hall_cells_def)
qed

section \<open>Steps never panic and keep the invariant\<close>

lemma ep_inv_init:
  assumes "\<not> door_lamp (pnl pl)"
  shows "ep_inv (fst (ElevatorProgram_init pl))"
proof -
  let ?pl = "pl\<lparr>open_armed := False\<rparr>"
  have pnl: "pnl (apply_effects effs (pl\<lparr>open_armed := False\<rparr>)) = pnl (apply_effects effs pl)" for effs pl
  proof (induction effs arbitrary: pl)
    case (Cons x xs)
    show ?case
    proof (cases x)
      case (Hw pk)
      with Cons.IH [of "pl\<lparr>pnl := panel_write pk (pnl pl)\<rparr>"] show ?thesis by simp
    next
      case ResetDoorOpenTimer
      then show ?thesis by simp
    next
      case ResetDoorStuckTimer
      with Cons.IH [of "pl\<lparr>stuck_armed := True\<rparr>"] show ?thesis by simp
    next
      case StopDoorStuckTimer
      with Cons.IH [of "pl\<lparr>stuck_armed := False\<rparr>"] show ?thesis by simp
    qed
  qed simp
  have "plant_inv (fst InitFSM) (apply_effects (snd InitFSM) ?pl)"
    by (rule plant_inv_init) (use assms in simp_all)
  moreover have "Behavior (fst InitFSM) \<noteq> DoorOpen"
    by (simp add: InitFSM_def OnInitBetweenFloors_def)
  ultimately show ?thesis using fsm_inv_init
    by (simp add: ep_inv_def ElevatorProgram_init_def plant_inv_def pnl)
qed

lemma plant_inv_stuck [simp]: "plant_inv e (pl\<lparr>stuck_armed := b\<rparr>) = plant_inv e pl"
  by (simp add: plant_inv_def)

lemma step_ok:
  assumes inv: "ep_inv s" and en: "enabled s i" and wf: "wf_input i"
  shows "\<exists>s' out. ElevatorProgram_step s i = Some (s', out) \<and> ep_inv s'"
proof (cases i)
  case (ButtonRx button)
  show ?thesis
  proof (cases "be_Button button = ButtonCab")
    case True
    from press_ok [of "elev s" "be_Floor button" ButtonCab] inv wf True ButtonRx
    show ?thesis by (fastforce simp: ep_inv_def wf_input_def)
  qed (use inv ButtonRx in simp)
next
  case (UpdateRx msg)
  have wm: "wf_update msg" using wf UpdateRx by (simp add: wf_input_def)
  show ?thesis
  proof (cases "OrderType msg")
    case HallOrder
    with hall_order_result [OF inv, of msg] UpdateRx show ?thesis by auto
  next
    case CabOrder
    from cab.loop_settles [of floors "(s, [])" msg] inv CabOrder UpdateRx show ?thesis by auto
  next
    case LightUpdate
    with hall_lights_ok [of "elev s" "LightStates msg"] inv wm UpdateRx show ?thesis
      by (auto simp: ep_inv_def wf_update_def case_prod_beta)
  qed
next
  case (FloorRx f)
  with arrival_ok [of "elev s" f] inv wf show ?thesis by (fastforce simp: ep_inv_def wf_input_def)
next
  case (ObstructionRx b)
  with inv obstruction_ok show ?thesis by (simp add: ep_inv_def)
next
  case DoorOpenTimerFires
  with en have "open_armed (hw s)" by (simp add: enabled_def)
  with inv have door: "Behavior (elev s) = DoorOpen" by (simp add: ep_inv_def plant_inv_def)
  let ?hw = "if \<not> doorStuckTimerActive s then (hw s)\<lparr>stuck_armed := True\<rparr> else hw s"
  have "plant_inv (elev s) ?hw" using inv by (simp add: ep_inv_def)
  from door_timeout_ok(2) [OF _ door this] door_timeout_ok(1) [OF _ door] inv
  show ?thesis using DoorOpenTimerFires
    by (auto simp: ep_inv_def Let_def case_prod_beta)
next
  case DoorStuckTimerFires
  with inv show ?thesis by (simp add: ep_inv_def)
qed

lemma reach_inv:
  assumes "ep_reach pl s" "\<not> door_lamp (pnl pl)"
  shows "ep_inv s"
  using assms
proof (induction rule: ep_reach.induct)
  case ep_start
  then show ?case by (rule ep_inv_init)
next
  case (ep_next s i s' out)
  with step_ok [of s i] show ?case by auto
qed

section \<open>Service by the event loop\<close>

text \<open>
  What the hardware and the timers do next when nobody presses a button and nothing blocks the
  door: a moving car arrives at the next floor, an open door's timer fires. \<open>serve n\<close> feeds the
  event loop up to \<open>n\<close> such inputs, until there is none.
\<close>

definition env_input :: "ep_state \<Rightarrow> ep_input option" where
  "env_input s =
     (if Behavior (elev s) = Moving then Some (FloorRx (Floor (elev s) + Dir (elev s)))
      else if Behavior (elev s) = DoorOpen then Some DoorOpenTimerFires
      else None)"

fun serve :: "nat \<Rightarrow> ep_state \<Rightarrow> ep_state option" where
  "serve n s = (case env_input s of
     None \<Rightarrow> Some s
   | Some i \<Rightarrow>
       (case n of
          0 \<Rightarrow> None
        | Suc m \<Rightarrow> if enabled s i then do { (s', out) \<leftarrow> ElevatorProgram_step s i; serve m s' } else None))"

declare serve.simps [simp del]

lemma env_step_drive:
  assumes "env_input s = Some i" "ElevatorProgram_step s i = Some (s', out)"
  shows "drive (elev s) = Some (elev s')"
  using assms
  by (auto simp: env_input_def drive_def Let_def split: if_splits Option.bind_splits prod.splits)

lemma env_enabled:
  assumes inv: "ep_inv s" and fl: "in_floors (Floor (elev s))" and i: "env_input s = Some i"
  shows "enabled s i \<and> wf_input i"
  using assms by (auto simp: env_input_def enabled_def wf_input_def ep_inv_def plant_inv_def fsm_inv_def
      in_floors_def split: if_splits)

lemma serve_drive:
  assumes "ep_inv s" "in_floors (Floor (elev s))" "\<not> IsObstructed (elev s)" "drive_run n (elev s) = Some e'"
  shows "\<exists>s'. serve n s = Some s' \<and> elev s' = e' \<and> ep_inv s'"
  using assms
proof (induction n arbitrary: s)
  case 0
  then have idle: "Behavior (elev s) = Idle" "e' = elev s" by (simp_all add: drive_run.simps split: if_splits)
  then have "env_input s = None" by (simp add: env_input_def)
  with 0 idle show ?case by (simp add: serve.simps)
next
  case (Suc n)
  show ?case
  proof (cases "env_input s")
    case None
    then have idle: "Behavior (elev s) = Idle"
      using Suc.prems(1) fsm_invD(5) [of "elev s"] by (auto simp: env_input_def ep_inv_def split: if_splits)
    with Suc.prems(4) have "e' = elev s" by (simp add: drive_run.simps)
    with None Suc.prems(1) show ?thesis by (simp add: serve.simps)
  next
    case (Some i)
    note en = env_enabled [OF Suc.prems(1,2) Some]
    from step_ok [OF Suc.prems(1)] en obtain s1 out where
      s1: "ElevatorProgram_step s i = Some (s1, out)" "ep_inv s1" by blast
    note d = env_step_drive [OF Some s1(1)]
    have "Behavior (elev s) \<noteq> Idle" using Some by (auto simp: env_input_def)
    with Suc.prems(4) d have run: "drive_run n (elev s1) = Some e'" by (simp add: drive_run.simps [of "Suc n"])
    have "fsm_inv (elev s)" using Suc.prems(1) by (simp add: ep_inv_def)
    with drive_moving [of "elev s"] drive_door [of "elev s"] Suc.prems(2,3) d \<open>Behavior (elev s) \<noteq> Idle\<close>
      fsm_invD(5) [of "elev s"] have "in_floors (Floor (elev s1))" "\<not> IsObstructed (elev s1)" by auto
    from Suc.IH [OF s1(2) this run] s1 Some en show ?thesis by (simp add: serve.simps [of "Suc n"])
  qed
qed

section \<open>What the elevator reports\<close>

definition event_on_panel :: "ElevatorEvent \<Rightarrow> bool" where
  "event_on_panel e \<longleftrightarrow> in_floors (be_Floor (ee_ButtonEvent e)) \<and>
     (be_Button (ee_ButtonEvent e) = ButtonHallUp \<or> be_Button (ee_ButtonEvent e) = ButtonHallDown)"

lemma complete_on_panel:
  "event_on_panel (makeHallAssignmentCompleteEventMessage be) \<longleftrightarrow>
     in_floors (be_Floor be) \<and> (be_Button be = ButtonHallUp \<or> be_Button be = ButtonHallDown)"
  by (simp add: event_on_panel_def make_messages)

lemma hall_body_events:
  assumes "c \<in> hall_cells" "ep_inv (fst so)" "list_all event_on_panel (snd so)" "HallOrder_body msg c so = Some so'"
  shows "ep_inv (fst so') \<and> list_all event_on_panel (snd so')"
proof -
  obtain f b where c: "c = (f, b)" by fastforce
  obtain s out where so: "so = (s, out)" by fastforce
  have rng: "in_floors f" "in_buttons b" "b = ButtonHallUp \<or> b = ButtonHallDown"
    using assms(1) by (auto simp: c hall_cells_def in_floors_def in_buttons_def)
  have inv: "fsm_inv (elev s)" using assms(2) so by (simp add: ep_inv_def)
  from hall_body_ok [OF assms(1), of so "elev s" msg] assms(2,4) so have "ep_inv (fst so')"
    by (auto simp: cab_kept_def)
  moreover have "list_all event_on_panel (snd so')"
  proof (cases "mat_at (HallAssignments msg) f b")
    case True
    with assms(4) obtain e effs evs where p: "OnRequestButtonPress f b (elev s) = Some (e, effs, evs)"
      and so': "snd so' = out @ map makeHallAssignmentCompleteEventMessage
                     (filter (\<lambda>be. be_Button be \<noteq> ButtonCab \<and> be_Floor be = f) evs)"
      by (cases "OnRequestButtonPress f b (elev s)") (auto simp: HallOrder_body_def c so)
    have "list_all (\<lambda>be. be = mk_event f b) evs" using press_cells(3) [OF inv rng(1,2) p] by (auto simp: list_all_iff)
    then have "list_all event_on_panel (map makeHallAssignmentCompleteEventMessage evs)"
      using rng(1,3) by (auto simp: list_all_iff complete_on_panel)
    with assms(3) so show ?thesis by (auto simp: so' list_all_iff)
  next
    case False
    with assms(4) have "snd so' = out"
      by (cases "RemoveRequest f b (elev s)") (auto simp: HallOrder_body_def c so split: if_splits)
    with assms(3) so show ?thesis by simp
  qed
  ultimately show ?thesis by blast
qed

lemma cab_body_silent: "CabOrder_body msg f so = Some so' \<Longrightarrow> snd so' = snd so"
  by (auto simp: CabOrder_body_def split: prod.splits if_splits Option.bind_splits)

lemma step_events:
  assumes inv: "ep_inv s" and wf: "wf_input i" and st: "ElevatorProgram_step s i = Some (s', out)"
  shows "list_all event_on_panel out"
proof (cases i)
  case (ButtonRx button)
  show ?thesis
  proof (cases "be_Button button = ButtonCab")
    case True
    with st ButtonRx show ?thesis
      by (cases "OnRequestButtonPress (be_Floor button) ButtonCab (elev s)") auto
  next
    case False
    with st wf ButtonRx have "out = [makeHallButtonEventMessage button]" "in_floors (be_Floor button)"
      "be_Button button = ButtonHallUp \<or> be_Button button = ButtonHallDown"
      by (simp_all add: wf_input_def in_buttons_def) linarith
    then show ?thesis by (simp add: event_on_panel_def make_messages)
  qed
next
  case (UpdateRx msg)
  show ?thesis
  proof (cases "OrderType msg")
    case HallOrder
    with st UpdateRx have "fold_opt (HallOrder_body msg) (grid hall_buttons) (s, []) = Some (s', out)" by simp
    then have "ep_inv (fst (s', out)) \<and> list_all event_on_panel (snd (s', out))"
    proof (rule fold_opt_inv)
      fix c so so'
      assume "c \<in> set (grid hall_buttons)" "ep_inv (fst so) \<and> list_all event_on_panel (snd so)"
        "HallOrder_body msg c so = Some so'"
      then show "ep_inv (fst so') \<and> list_all event_on_panel (snd so')"
        using hall_body_events [of c so msg so'] by (simp add: hall_cells_def)
    qed (simp add: inv)
    then show ?thesis by simp
  next
    case CabOrder
    with st UpdateRx have "fold_opt (CabOrder_body msg) floors (s, []) = Some (s', out)" by simp
    then have "snd (s', out) = []" by (rule fold_opt_inv) (simp, metis cab_body_silent)
    then show ?thesis by simp
  qed (use st UpdateRx in \<open>auto split: prod.splits\<close>)
next
  case (FloorRx f)
  let ?e = "elev s\<lparr>Floor := f\<rparr>"
  have "wf_elev ?e" "in_floors (Floor ?e)"
    using inv wf fsm_invD(1) [of "elev s"] by (simp_all add: FloorRx wf_input_def ep_inv_def)
  from clear_events(1) [OF this] \<open>in_floors (Floor ?e)\<close> st FloorRx show ?thesis
    by (auto simp: OnFloorArrival_def Let_def list_all_iff complete_on_panel split: if_splits Option.bind_splits prod.splits)
qed (use st in \<open>auto simp: event_on_panel_def make_messages in_floors_def Let_def split: prod.splits\<close>)

text \<open>The elevator reports a stuck door, never that it is free again.\<close>

definition not_freed :: "ElevatorEvent \<Rightarrow> bool" where
  "not_freed e \<longleftrightarrow> EventType e \<noteq> DoorStuckEvent \<or> DoorIsStuck e"

lemma not_freed_complete: "list_all not_freed (map makeHallAssignmentCompleteEventMessage xs)"
  by (simp add: list_all_iff not_freed_def make_messages)

lemma step_not_freed:
  assumes "ElevatorProgram_step s i = Some (s', out)"
  shows "list_all not_freed out"
proof (cases i)
  case (UpdateRx msg)
  show ?thesis
  proof (cases "OrderType msg")
    case HallOrder
    with assms UpdateRx have "fold_opt (HallOrder_body msg) (grid hall_buttons) (s, []) = Some (s', out)" by simp
    then have "list_all not_freed (snd (s', out))"
    proof (rule fold_opt_inv)
      fix c so so' assume "list_all not_freed (snd so)" "HallOrder_body msg c so = Some so'"
      then show "list_all not_freed (snd so')"
        by (auto simp: HallOrder_body_def not_freed_complete split: prod.splits if_splits Option.bind_splits)
    qed simp
    then show ?thesis by simp
  next
    case CabOrder
    with assms UpdateRx have "fold_opt (CabOrder_body msg) floors (s, []) = Some (s', out)" by simp
    then have "snd (s', out) = []" by (rule fold_opt_inv) (simp, metis cab_body_silent)
    then show ?thesis by simp
  qed (use assms UpdateRx in \<open>auto split: prod.splits\<close>)
next
  case (FloorRx f)
  with assms show ?thesis by (auto simp: not_freed_complete split: Option.bind_splits)
qed (use assms in \<open>auto simp: not_freed_def make_messages Let_def split: prod.splits if_splits Option.bind_splits\<close>)

section \<open>What a hall order does\<close>

lemma hall_order_effect:
  assumes inv: "ep_inv s" and order: "OrderType msg = HallOrder"
  shows "\<exists>s' out. ElevatorProgram_step s (UpdateRx msg) = Some (s', out) \<and>
    (\<forall>f b. in_floors f \<longrightarrow> b = ButtonHallUp \<or> b = ButtonHallDown \<longrightarrow>
       (if mat_at (HallAssignments msg) f b
        then req (elev s') f b \<or> makeHallAssignmentCompleteEventMessage (mk_event f b) \<in> set out
        else \<not> req (elev s') f b \<and> makeHallAssignmentCompleteEventMessage (mk_event f b) \<notin> set out)) \<and>
    (\<forall>f. in_floors f \<longrightarrow> req (elev s') f ButtonCab = req (elev s) f ButtonCab)"
proof -
  from hall_order_result [OF inv, of msg] obtain s' out where
    r: "fold_opt (HallOrder_body msg) (grid hall_buttons) (s, []) = Some (s', out)" "cab_kept (elev s) (elev s')"
      "\<forall>c \<in> hall_cells. hall_settled msg c (hall_cell (s, []) c) (hall_cell (s', out) c)" by blast
  have cell: "if mat_at (HallAssignments msg) f b
      then req (elev s') f b \<or> makeHallAssignmentCompleteEventMessage (mk_event f b) \<in> set out
      else \<not> req (elev s') f b \<and> makeHallAssignmentCompleteEventMessage (mk_event f b) \<notin> set out"
    if "in_floors f" "b = ButtonHallUp \<or> b = ButtonHallDown" for f b
  proof -
    have "(f, b) \<in> hall_cells" using that by (auto simp: hall_cells_def in_floors_def)
    with r(3) have "hall_settled msg (f, b) (hall_cell (s, []) (f, b)) (hall_cell (s', out) (f, b))" by blast
    then show ?thesis by (simp add: hall_settled_def hall_cell_def split: if_splits)
  qed
  have "ElevatorProgram_step s (UpdateRx msg) = Some (s', out)" using r(1) order by simp
  moreover have "\<forall>f. in_floors f \<longrightarrow> req (elev s') f ButtonCab = req (elev s) f ButtonCab"
    using r(2) by (simp add: cab_kept_def in_floors_def)
  ultimately show ?thesis using cell by blast
qed

section \<open>A concrete elevator\<close>

text \<open>A dark panel; the elevator started there after its first floor, and after a press of the
  hall button up at that floor while its door is open.\<close>

definition dark_plant :: plant where
  "dark_plant = \<lparr>pnl = \<lparr>motor = 0, door_lamp = False, stop_lamp = False, indicator = 0, lamp = \<lambda>_ _. False\<rparr>,
                 open_armed = False, stuck_armed = False\<rparr>"

definition one_hall_order :: LightAndAssignmentUpdate where
  "one_hall_order = zero_update\<lparr>HallAssignments :=
     [[True, False], [False, False], [False, False], [False, False]]\<rparr>"

lemma one_hall_order_wf: "wf_update one_hall_order" "OrderType one_hall_order = HallOrder"
  by (simp_all add: one_hall_order_def zero_update_def wf_update_def wf_mat_def zero_mat_def)

definition next_state :: "ep_state \<Rightarrow> ep_input \<Rightarrow> ep_state" where
  "next_state s i = fst (the (ElevatorProgram_step s i))"

definition at_floor_0 :: ep_state where
  "at_floor_0 = next_state (fst (ElevatorProgram_init dark_plant)) (FloorRx 0)"

definition called_up :: ep_state where
  "called_up = next_state at_floor_0 (UpdateRx one_hall_order)"

lemma next_reach:
  assumes "ep_reach dark_plant s" "enabled s i" "wf_input i"
  shows "ep_reach dark_plant (next_state s i)"
proof -
  have "ep_inv s" by (rule reach_inv [OF assms(1)]) (simp add: dark_plant_def)
  from step_ok [OF this assms(2,3)] obtain s' out where "ElevatorProgram_step s i = Some (s', out)" by blast
  with ep_next [OF assms this] show ?thesis by (simp add: next_state_def)
qed

lemma at_floor_0_reach: "ep_reach dark_plant at_floor_0"
  unfolding at_floor_0_def by (rule next_reach [OF ep_start]) (simp_all add: enabled_def wf_input_def in_floors_def)

lemma at_floor_0_elev: "elev at_floor_0 = NewElevator\<lparr>Floor := 0, Dir := DirectionDown, Behavior := DoorOpen\<rparr>"
  by (simp add: at_floor_0_def next_state_def ElevatorProgram_init_def InitFSM_def OnInitBetweenFloors_def
      OnFloorArrival_def RequestsShouldStop_def RequestsClearAtCurrentFloor_def NewElevator_def zero_mat_def
      mat_get_def arr_get_def RequestsBelow_def req_def put_req_def mat_at_def mat_put_def numeral_nat Let_def)

lemma called_up_reach: "ep_reach dark_plant called_up"
  unfolding called_up_def
  by (rule next_reach [OF at_floor_0_reach]) (simp_all add: enabled_def wf_input_def one_hall_order_wf)

lemma called_up_elev:
  "elev called_up = NewElevator\<lparr>Floor := 0, Dir := DirectionDown, Behavior := DoorOpen,
     Requests := [[True, False, False], [False, False, False], [False, False, False], [False, False, False]]\<rparr>"
  by (simp add: called_up_def next_state_def at_floor_0_elev one_hall_order_wf HallOrder_body_def grid_def
      floors_def hall_buttons_def one_hall_order_def OnRequestButtonPress_def HandleButtonEvent_def
      RequestsShouldClearImmediately_def NewElevator_def zero_mat_def mat_set_def arr_get_def arr_set_def
      req_def mat_at_def numeral_nat Let_def zero_update_def)

section \<open>Properties\<close>

lemma dark: "\<not> door_lamp (pnl dark_plant)"
  by (simp add: dark_plant_def)

text \<open>C8: In every state the event loop can reach, the motor runs only with the door closed and its
  lamp off, its direction is the machine's exactly while it is moving, it never drives past the top
  or bottom floor, the door timer is running exactly while the door is open, every cab lamp shows
  the cab request of its floor, and an idle elevator has no request left.\<close>

theorem elevator_safety:
  assumes "ep_reach pl s" "\<not> door_lamp (pnl pl)"
  shows "(motor (pnl (hw s)) \<noteq> DirectionStop \<longrightarrow>
       Behavior (elev s) = Moving \<and> \<not> door_lamp (pnl (hw s)) \<and> \<not> open_armed (hw s) \<and>
       (motor (pnl (hw s)) = DirectionUp \<and> Floor (elev s) < NUM_FLOORS - 1 \<or>
        motor (pnl (hw s)) = DirectionDown \<and> Floor (elev s) \<noteq> 0)) \<and>
    (Behavior (elev s) = Moving \<longrightarrow> motor (pnl (hw s)) = Dir (elev s)) \<and>
    (open_armed (hw s) \<longleftrightarrow> Behavior (elev s) = DoorOpen) \<and>
    (door_lamp (pnl (hw s)) \<longrightarrow> Behavior (elev s) = DoorOpen) \<and>
    (\<forall>f. in_floors f \<longrightarrow> lamp (pnl (hw s)) f ButtonCab = req (elev s) f ButtonCab) \<and>
    (Behavior (elev s) = Idle \<longrightarrow> no_requests (elev s))"
proof -
  have "fsm_inv (elev s)" "plant_inv (elev s) (hw s)" using reach_inv [OF assms] by (simp_all add: ep_inv_def)
  then show ?thesis
    by (auto simp: fsm_inv_def plant_inv_def cab_lamps_ok_def in_floors_def split: if_splits)
qed

theorem elevator_safety_witness:
  "Behavior (elev called_up) = DoorOpen \<and> motor (pnl (hw called_up)) = DirectionStop \<and> open_armed (hw called_up)"
  using elevator_safety [OF called_up_reach dark] by (auto simp: called_up_elev)

text \<open>The event loop never panics: in every reachable state it handles every input the drivers,
  the timers and the node can deliver.\<close>

theorem elevator_never_panics:
  assumes "ep_reach pl s" "\<not> door_lamp (pnl pl)" "enabled s i" "wf_input i"
  shows "\<exists>s' out. ElevatorProgram_step s i = Some (s', out)"
  using step_ok [OF reach_inv [OF assms(1,2)] assms(3,4)] by blast

theorem elevator_never_panics_witness:
  "\<exists>s' out. ElevatorProgram_step called_up (FloorRx 3) = Some (s', out)"
  by (rule elevator_never_panics [OF called_up_reach dark]) (simp_all add: enabled_def wf_input_def in_floors_def)

text \<open>C9: Every request is served: from any reachable state at a known floor with the door clear, at
  most 78 arrivals and door timeouts bring the event loop to rest, idle, with the motor off, the
  door lamp off and no request left.\<close>

theorem every_request_served:
  assumes "ep_reach pl s" "\<not> door_lamp (pnl pl)" "in_floors (Floor (elev s))" "\<not> IsObstructed (elev s)"
  shows "\<exists>s'. serve service_steps s = Some s' \<and> Behavior (elev s') = Idle \<and> no_requests (elev s') \<and>
    motor (pnl (hw s')) = DirectionStop \<and> \<not> door_lamp (pnl (hw s'))"
proof -
  have inv: "ep_inv s" by (rule reach_inv [OF assms(1,2)])
  then have "fsm_inv (elev s)" by (simp add: ep_inv_def)
  from drive_run_rests [OF this assms(3,4) effort_service [OF assms(3)]] obtain e' where
    e': "drive_run service_steps (elev s) = Some e'" "fsm_inv e'" "Behavior e' = Idle" by blast
  from serve_drive [OF inv assms(3,4) e'(1)] obtain s' where
    s': "serve service_steps s = Some s'" "elev s' = e'" "ep_inv s'" by blast
  with e' fsm_inv_Idle [OF e'(2,3)] show ?thesis by (auto simp: ep_inv_def plant_inv_def)
qed

theorem every_request_served_witness:
  "req (elev called_up) 0 ButtonHallUp \<and>
   (\<exists>s'. serve service_steps called_up = Some s' \<and> no_requests (elev s'))"
  using every_request_served [OF called_up_reach dark]
  by (auto simp: called_up_elev NewElevator_def in_floors_def req_def mat_at_def)

text \<open>C13: A hall order from the node is carried out exactly: afterwards every hall call assigned is
  pending or has been reported complete, every other hall call is gone and not reported, and the
  cab calls are untouched.\<close>

theorem hall_order_exact:
  assumes "ep_reach pl s" "\<not> door_lamp (pnl pl)" "OrderType msg = HallOrder"
  shows "\<exists>s' out. ElevatorProgram_step s (UpdateRx msg) = Some (s', out) \<and>
    (\<forall>f b. in_floors f \<longrightarrow> b = ButtonHallUp \<or> b = ButtonHallDown \<longrightarrow>
       (if mat_at (HallAssignments msg) f b
        then req (elev s') f b \<or> makeHallAssignmentCompleteEventMessage (mk_event f b) \<in> set out
        else \<not> req (elev s') f b \<and> makeHallAssignmentCompleteEventMessage (mk_event f b) \<notin> set out)) \<and>
    (\<forall>f. in_floors f \<longrightarrow> req (elev s') f ButtonCab = req (elev s) f ButtonCab)"
  by (rule hall_order_effect [OF reach_inv [OF assms(1,2)] assms(3)])

theorem hall_order_exact_witness:
  "\<exists>s' out. ElevatorProgram_step called_up (UpdateRx zero_update) = Some (s', out) \<and> \<not> req (elev s') 0 ButtonHallUp"
proof -
  have "\<not> mat_at (HallAssignments zero_update) 0 ButtonHallUp"
    by (simp add: zero_update_def mat_at_zero)
  with hall_order_exact [OF called_up_reach dark, of zero_update] show ?thesis
    by (fastforce simp: zero_update_def in_floors_def)
qed

text \<open>C34: When the open door's timer fires and a call is waiting at the floor that was not served by
  the stop, the elevator serves it with the door open and its timer running, but the door lamp ends
  up off and the hall calls it served are reported to nobody.\<close>

theorem reopened_door_dark_unreported:
  assumes "ep_reach pl s" "\<not> door_lamp (pnl pl)" "Behavior (elev s) = DoorOpen" "\<not> IsObstructed (elev s)"
    and here: "pair_Behavior (RequestsChooseDirection (elev s)) = DoorOpen"
  shows "\<exists>s'. ElevatorProgram_step s DoorOpenTimerFires = Some (s', []) \<and>
    Behavior (elev s') = DoorOpen \<and> open_armed (hw s') \<and> \<not> door_lamp (pnl (hw s')) \<and>
    (\<forall>b. in_buttons b \<longrightarrow> req (elev s') (Floor (elev s)) b =
       (req (elev s) (Floor (elev s)) b \<and> \<not> served (redirect (elev s)) b))"
proof -
  have inv: "fsm_inv (elev s)" using reach_inv [OF assms(1,2)] by (simp add: ep_inv_def)
  have fl: "in_floors (Floor (elev s))" using fsm_invD(3) [OF inv] assms(3) by simp
  have wf: "wf_elev (redirect (elev s))" using fsm_invD(1) [OF inv] by simp
  have r: "Behavior (redirect (elev s)) = DoorOpen" using here by simp
  have "HandleDoorTimeout (elev s) = (fst (RequestsClearAtCurrentFloor (redirect (elev s))), True, True, True)"
    using assms(3,4) r by (auto simp: HandleDoorTimeout_def redirect_def Let_def)
  then have t: "OnDoorTimeout (elev s) = (fst (RequestsClearAtCurrentFloor (redirect (elev s))),
      [ResetDoorOpenTimer, StopDoorStuckTimer, Hw (SetDoorOpenLamp False), ResetDoorStuckTimer] @
      map Hw (SetAllLights (fst (RequestsClearAtCurrentFloor (redirect (elev s))))))"
    using assms(3) r by (simp add: OnDoorTimeout_def)
  show ?thesis
    using clear_req [OF wf _ _, of "Floor (elev s)"] fl r by (simp add: t Let_def panel_door)
qed

theorem reopened_door_dark_unreported_witness:
  "\<exists>s'. ElevatorProgram_step called_up DoorOpenTimerFires = Some (s', []) \<and>
     req (elev called_up) 0 ButtonHallUp \<and> \<not> req (elev s') 0 ButtonHallUp \<and>
     Behavior (elev s') = DoorOpen \<and> \<not> door_lamp (pnl (hw s'))"
proof -
  have rq: "req (elev called_up) 0 ButtonHallUp" "Floor (elev called_up) = 0" "Dir (elev called_up) = DirectionDown"
    by (simp_all add: called_up_elev req_def mat_at_def)
  then have p: "RequestsChooseDirection (elev called_up) = mk_pair DirectionUp DoorOpen"
    using below_not_bottom [of "elev called_up"]
    by (auto simp: RequestsChooseDirection_def RequestsHere_def buttons_def)
  then have "served (redirect (elev called_up)) ButtonHallUp" by (simp add: served_def)
  with reopened_door_dark_unreported [OF called_up_reach dark] p rq show ?thesis
    by (auto simp: called_up_elev NewElevator_def)
qed

text \<open>The same elevator with something in its door, after the first door timeout and the stuck
  report that followed.\<close>

definition stuck_reported :: ep_state where
  "stuck_reported = next_state (next_state (next_state at_floor_0 (ObstructionRx True)) DoorOpenTimerFires) DoorStuckTimerFires"

text \<open>The loop starts the door-stuck timer at most once in its life: once it has, a door that stays
  obstructed for however many door timeouts is not reported again, because the flag that says the
  timer has been started is never reset.\<close>

theorem stuck_timer_started_once:
  assumes "doorStuckTimerActive s" "\<not> stuck_armed (hw s)" "Behavior (elev s) = DoorOpen" "IsObstructed (elev s)"
  shows "\<exists>s'. run_steps ElevatorProgram_step s (replicate n DoorOpenTimerFires) = Some (s', []) \<and>
    \<not> stuck_armed (hw s') \<and> doorStuckTimerActive s' \<and> IsObstructed (elev s') \<and> Behavior (elev s') = DoorOpen"
  using assms
proof (induction n arbitrary: s)
  case 0
  then show ?case by simp
next
  case (Suc n)
  let ?s = "set_elev (elev s) (ResetDoorOpenTimer # map Hw (SetAllLights (elev s))) (s\<lparr>hw := (hw s)\<lparr>open_armed := False\<rparr>\<rparr>)"
  have "ElevatorProgram_step s DoorOpenTimerFires = Some (?s, [])"
    using Suc.prems by (simp add: OnDoorTimeout_def HandleDoorTimeout_def set_elev_def)
  with Suc.IH [of ?s] Suc.prems show ?case by simp
qed

theorem stuck_timer_started_once_witness:
  "\<exists>s'. run_steps ElevatorProgram_step stuck_reported (replicate 1000 DoorOpenTimerFires) = Some (s', []) \<and>
     \<not> stuck_armed (hw s')"
proof -
  have "doorStuckTimerActive stuck_reported" "\<not> stuck_armed (hw stuck_reported)"
    "Behavior (elev stuck_reported) = DoorOpen" "IsObstructed (elev stuck_reported)"
    by (simp_all add: stuck_reported_def next_state_def at_floor_0_elev SetObstruction_def OnDoorTimeout_def
        HandleDoorTimeout_def Let_def)
  from stuck_timer_started_once [OF this, of 1000] show ?thesis by blast
qed

end
