(* ===== verification/Messages.thy ===== *)
theory Messages
  imports Elevator_Sys Go_Time "HOL-Library.Word"
begin

text \<open>
  The messages nodes exchange, Network/messages/messagetypes.go, one record per Go struct
  with a prefix on the field names that several structs share, and the message identifiers of
  Network/messagehandler/receivers.go, which are 64-bit words.
\<close>

type_synonym uint64 = "64 word"

type_synonym hall_matrix = "bool list list"

section \<open>Message types\<close>

datatype MessageType = MsgHallAssignment | MsgRequestDoorState

record Ack =
  ack_MessageID :: uint64
  ack_NodeID :: int

record CabRequestInfo =
  cri_CabRequest :: "bool list"
  cri_ReceiverNodeID :: int

record GlobalHallRequest =
  ghr_HallRequests :: hall_matrix

record NodeElevState =
  nes_NodeID :: int
  nes_ElevState :: ElevatorState

record ConnectionReq =
  cr_TOLC :: Time
  cr_NodeID :: int
  cr_MessageID :: uint64

record NewHallAssignments =
  nha_NodeID :: int
  nha_HallAssignment :: hall_matrix
  nha_MessageID :: uint64

record NewHallRequest =
  nhr_Floor :: int
  nhr_HallButton :: ButtonType

record HallAssignmentComplete =
  hac_Floor :: int
  hac_HallButton :: ButtonType
  hac_MessageID :: uint64

section \<open>Message identifiers\<close>

definition MSG_ID_PARTITION_SIZE :: uint64 where
  "MSG_ID_PARTITION_SIZE = push_bit 60 2"

type_synonym MessageIDType = uint64

abbreviation (input) NEW_HALL_ASSIGNMENT :: MessageIDType where "NEW_HALL_ASSIGNMENT \<equiv> 0"

abbreviation (input) HALL_LIGHT_UPDATE :: MessageIDType where "HALL_LIGHT_UPDATE \<equiv> 1"

abbreviation (input) CONNECTION_REQ :: MessageIDType where "CONNECTION_REQ \<equiv> 2"

abbreviation (input) HALL_ASSIGNMENT_COMPLETE :: MessageIDType where "HALL_ASSIGNMENT_COMPLETE \<equiv> 3"

text \<open>
  \<open>rnd\<close> is the value of \<open>rand.Int63n(MSG_ID_PARTITION_SIZE)\<close>, which is below its argument.
  The result is the identifier and whether the error is nil.
\<close>

definition GenerateMessageID :: "MessageIDType \<Rightarrow> uint64 \<Rightarrow> uint64 \<times> bool" where
  "GenerateMessageID mtype rnd =
     (if HALL_ASSIGNMENT_COMPLETE < mtype then (0, False)
      else (rnd + MSG_ID_PARTITION_SIZE * mtype, True))"

datatype ack_channel = hallAssignmentsAck | lightUpdateAck | connectionReqAck | HallAssignmentCompleteAck

definition IncomingAckDistributor :: "Ack \<Rightarrow> ack_channel option" where
  "IncomingAckDistributor ackMsg =
     (if ack_MessageID ackMsg < MSG_ID_PARTITION_SIZE * (NEW_HALL_ASSIGNMENT + 1) then Some hallAssignmentsAck
      else if ack_MessageID ackMsg < MSG_ID_PARTITION_SIZE * (HALL_LIGHT_UPDATE + 1) then Some lightUpdateAck
      else if ack_MessageID ackMsg < MSG_ID_PARTITION_SIZE * (CONNECTION_REQ + 1) then Some connectionReqAck
      else if ack_MessageID ackMsg < MSG_ID_PARTITION_SIZE * (HALL_ASSIGNMENT_COMPLETE + 1)
      then Some HallAssignmentCompleteAck
      else None)"

definition channel_of :: "MessageIDType \<Rightarrow> ack_channel option" where
  "channel_of p =
     (if p = NEW_HALL_ASSIGNMENT then Some hallAssignmentsAck
      else if p = HALL_LIGHT_UPDATE then Some lightUpdateAck
      else if p = CONNECTION_REQ then Some connectionReqAck
      else if p = HALL_ASSIGNMENT_COMPLETE then Some HallAssignmentCompleteAck else None)"

lemma partition_size: "MSG_ID_PARTITION_SIZE = 2305843009213693952"
  by (simp add: MSG_ID_PARTITION_SIZE_def push_bit_eq_mult)

lemma unat_partition_size: "unat MSG_ID_PARTITION_SIZE = 2 ^ 61"
  by (simp add: partition_size)

lemma partition_cases:
  assumes "(p :: MessageIDType) \<le> 3"
  obtains "p = 0" | "p = 1" | "p = 2" | "p = 3"
proof -
  have "unat p \<le> 3" using assms by (simp add: word_le_nat_alt)
  then have "unat p = 0 \<or> unat p = 1 \<or> unat p = 2 \<or> unat p = 3" by auto
  then have "p = 0 \<or> p = 1 \<or> p = 2 \<or> p = 3" by (simp add: word_unat_eq_iff)
  then show ?thesis using that by blast
qed

text \<open>An identifier lies in the partition of its type: no wrap-around, no overlap.\<close>

lemma generated_value:
  assumes "p \<le> 3" "rnd < MSG_ID_PARTITION_SIZE"
  shows "unat (fst (GenerateMessageID p rnd)) = unat rnd + 2 ^ 61 * unat p"
proof -
  have r: "unat rnd < 2 ^ 61" using assms(2) by (simp add: word_less_nat_alt unat_partition_size)
  have p: "unat p \<le> 3" using assms(1) by (simp add: word_le_nat_alt)
  have m: "unat (MSG_ID_PARTITION_SIZE * p) = 2 ^ 61 * unat p"
    using p by (simp add: unat_word_ariths unat_partition_size)
  have "unat (rnd + MSG_ID_PARTITION_SIZE * p) = unat rnd + 2 ^ 61 * unat p"
    using r p m by (simp add: unat_word_ariths(1))
  moreover have "\<not> 3 < p" using assms(1) by simp
  ultimately show ?thesis by (simp add: GenerateMessageID_def)
qed

lemma distributor_by_value:
  "IncomingAckDistributor a =
     (let n = unat (ack_MessageID a) div 2 ^ 61
      in if n = 0 then Some hallAssignmentsAck else if n = 1 then Some lightUpdateAck
         else if n = 2 then Some connectionReqAck else if n = 3 then Some HallAssignmentCompleteAck else None)"
proof -
  have b: "unat (MSG_ID_PARTITION_SIZE * 1) = 2 ^ 61" "unat (MSG_ID_PARTITION_SIZE * 2) = 2 * 2 ^ 61"
    "unat (MSG_ID_PARTITION_SIZE * 3) = 3 * 2 ^ 61" "unat (MSG_ID_PARTITION_SIZE * 4) = 4 * 2 ^ 61"
    by (simp_all add: partition_size)
  have d: "n div 2 ^ 61 < k \<longleftrightarrow> n < k * 2 ^ 61" for n k :: nat
    by (simp add: div_less_iff_less_mult)
  show ?thesis
    using d [of "unat (ack_MessageID a)" 1] d [of "unat (ack_MessageID a)" 2]
      d [of "unat (ack_MessageID a)" 3] d [of "unat (ack_MessageID a)" 4]
    by (auto simp: IncomingAckDistributor_def word_less_nat_alt b unat_partition_size Let_def)
qed

lemma generated_partition:
  assumes "p \<le> 3" "rnd < MSG_ID_PARTITION_SIZE"
  shows "unat (fst (GenerateMessageID p rnd)) div 2 ^ 61 = unat p"
proof -
  have "unat rnd < 2 ^ 61" using assms(2) by (simp add: word_less_nat_alt unat_partition_size)
  then show ?thesis by (simp add: generated_value [OF assms])
qed

section \<open>Properties\<close>

text \<open>The identifier generated for a message of any of the four types routes the acknowledgement
  that carries it back to the channel of that type, and no other type or random number gives the
  same identifier: the 64-bit arithmetic never wraps.\<close>

theorem ack_reaches_sender:
  assumes "mtype \<le> 3" "rnd < MSG_ID_PARTITION_SIZE"
  shows "snd (GenerateMessageID mtype rnd) \<and>
    IncomingAckDistributor \<lparr>ack_MessageID = fst (GenerateMessageID mtype rnd), ack_NodeID = n\<rparr> = channel_of mtype \<and>
    (\<forall>mtype' rnd'. mtype' \<le> 3 \<longrightarrow> rnd' < MSG_ID_PARTITION_SIZE \<longrightarrow>
       fst (GenerateMessageID mtype' rnd') = fst (GenerateMessageID mtype rnd) \<longrightarrow> mtype' = mtype \<and> rnd' = rnd)"
proof (intro conjI allI impI)
  show "snd (GenerateMessageID mtype rnd)" using assms(1) by (auto simp: GenerateMessageID_def not_less)
  show "IncomingAckDistributor \<lparr>ack_MessageID = fst (GenerateMessageID mtype rnd), ack_NodeID = n\<rparr> = channel_of mtype"
    using generated_partition [OF assms]
    by (cases rule: partition_cases [OF assms(1)]) (simp_all add: distributor_by_value channel_of_def)
next
  fix mtype' rnd' :: uint64
  assume o: "mtype' \<le> 3" "rnd' < MSG_ID_PARTITION_SIZE" and
    eq: "fst (GenerateMessageID mtype' rnd') = fst (GenerateMessageID mtype rnd)"
  have t: "unat mtype' = unat mtype"
    using generated_partition [OF assms] generated_partition [OF o] eq by simp
  then show "mtype' = mtype" by (simp add: word_unat_eq_iff)
  from generated_value [OF assms] generated_value [OF o] eq t show "rnd' = rnd" by (simp add: word_unat_eq_iff)
qed

theorem ack_reaches_sender_witness:
  "IncomingAckDistributor \<lparr>ack_MessageID = fst (GenerateMessageID HALL_ASSIGNMENT_COMPLETE 5), ack_NodeID = 1\<rparr> =
     Some HallAssignmentCompleteAck"
  using ack_reaches_sender [of HALL_ASSIGNMENT_COMPLETE 5 1] by (simp add: partition_size channel_of_def)

end
