(* ===== verification/Transmitters.thy ===== *)
theory Transmitters
  imports Messages "HOL-Library.Multiset"
begin

text \<open>
  The transmitter goroutines of Network/messagehandler/transmitters.go, one step per case of
  their \<open>select\<close>. Two of them resend a message every 500 ms until it is acknowledged:
  \<open>Transmit m\<close> is the send on the broadcast channel and \<open>After500ms id\<close> the \<open>time.AfterFunc\<close>
  that will put \<open>id\<close> on the goroutine's timeout channel. What the two share is stated once, in
  the locale \<open>resender\<close>, over the system of a transmitter and its outstanding timers.
\<close>

datatype 'm tx_out = Transmit 'm | After500ms uint64

section \<open>HallAssignmentsTransmitter\<close>

record hat_state =
  activeAssignments :: "(int, NewHallAssignments) gomap"
  hat_enable :: bool

definition hat_init :: hat_state where
  "hat_init = \<lparr>activeAssignments = [], hat_enable = False\<rparr>"

text \<open>\<open>HatNew\<close> carries the random number drawn for the identifier.\<close>

datatype hat_input =
    HatEnable bool
  | HatNew NewHallAssignments uint64
  | HatTimeout uint64
  | HatAck Ack

fun HallAssignmentsTransmitter_step :: "hat_state \<Rightarrow> hat_input \<Rightarrow> hat_state \<times> NewHallAssignments tx_out list" where
  "HallAssignmentsTransmitter_step st (HatEnable enable) =
     (if \<not> enable then (st\<lparr>hat_enable := enable, activeAssignments := []\<rparr>, [])
      else (st\<lparr>hat_enable := enable\<rparr>, []))"
| "HallAssignmentsTransmitter_step st (HatNew newAssignment rnd) =
     (if \<not> hat_enable st then (st, [])
      else
        let new_msg_id = fst (GenerateMessageID NEW_HALL_ASSIGNMENT rnd);
            newAssignment = newAssignment\<lparr>nha_MessageID := new_msg_id\<rparr>
        in (st\<lparr>activeAssignments := AList.update (nha_NodeID newAssignment) newAssignment (activeAssignments st)\<rparr>,
            [Transmit newAssignment, After500ms new_msg_id]))"
| "HallAssignmentsTransmitter_step st (HatTimeout timedOutMsgID) =
     (case find (\<lambda>(k, msg). nha_MessageID msg = timedOutMsgID) (activeAssignments st) of
        None \<Rightarrow> (st, [])
      | Some (k, msg) \<Rightarrow> (st, [Transmit msg, After500ms (nha_MessageID msg)]))"
| "HallAssignmentsTransmitter_step st (HatAck receivedAck) =
     (case map_of (activeAssignments st) (ack_NodeID receivedAck) of
        None \<Rightarrow> (st, [])
      | Some msg \<Rightarrow>
          if nha_MessageID msg = ack_MessageID receivedAck
          then (st\<lparr>activeAssignments := AList.delete (ack_NodeID receivedAck) (activeAssignments st)\<rparr>, [])
          else (st, []))"

section \<open>HallAssignmentCompleteTransmitter\<close>

record hac_state =
  completedActiveAssignments :: "(uint64, HallAssignmentComplete) gomap"
  hac_enable :: bool

definition hac_init :: hac_state where
  "hac_init = \<lparr>completedActiveAssignments = [], hac_enable = False\<rparr>"

datatype hac_input =
    HacEnable bool
  | HacNew HallAssignmentComplete uint64
  | HacTimeout uint64
  | HacAck Ack

fun HallAssignmentCompleteTransmitter_step :: "hac_state \<Rightarrow> hac_input \<Rightarrow> hac_state \<times> HallAssignmentComplete tx_out list" where
  "HallAssignmentCompleteTransmitter_step st (HacEnable enable) =
     (if \<not> enable then (st\<lparr>hac_enable := enable, completedActiveAssignments := []\<rparr>, [])
      else (st\<lparr>hac_enable := enable\<rparr>, []))"
| "HallAssignmentCompleteTransmitter_step st (HacNew newComplete rnd) =
     (let new_msg_id = fst (GenerateMessageID HALL_ASSIGNMENT_COMPLETE rnd);
          newComplete = newComplete\<lparr>hac_MessageID := new_msg_id\<rparr>
      in (st\<lparr>completedActiveAssignments := AList.update new_msg_id newComplete (completedActiveAssignments st)\<rparr>,
          [Transmit newComplete, After500ms new_msg_id]))"
| "HallAssignmentCompleteTransmitter_step st (HacAck receivedAck) =
     (st\<lparr>completedActiveAssignments := AList.delete (ack_MessageID receivedAck) (completedActiveAssignments st)\<rparr>, [])"
| "HallAssignmentCompleteTransmitter_step st (HacTimeout timedOutMsgID) =
     (case find (\<lambda>(msgID, msg). msgID = timedOutMsgID) (completedActiveAssignments st) of
        None \<Rightarrow> (st, [])
      | Some (msgID, msg) \<Rightarrow> (st, [Transmit msg, After500ms (hac_MessageID msg)]))"

section \<open>GlobalHallRequestsTransmitter\<close>

record ght_state =
  ght_enable :: bool
  GHallRequests :: GlobalHallRequest

definition ght_init :: ght_state where
  "ght_init = \<lparr>ght_enable = False, GHallRequests = \<lparr>ghr_HallRequests = zero_mat NUM_FLOORS 2\<rparr>\<rparr>"

datatype ght_input = GhtEnable bool | GhtUpdate GlobalHallRequest | GhtInterval

fun GlobalHallRequestsTransmitter_step :: "ght_state \<Rightarrow> ght_input \<Rightarrow> ght_state \<times> GlobalHallRequest list" where
  "GlobalHallRequestsTransmitter_step st (GhtEnable enable) = (st\<lparr>ght_enable := enable\<rparr>, [])"
| "GlobalHallRequestsTransmitter_step st (GhtUpdate r) = (st\<lparr>GHallRequests := r\<rparr>, [])"
| "GlobalHallRequestsTransmitter_step st GhtInterval = (st, if ght_enable st then [GHallRequests st] else [])"

section \<open>Resending until acknowledged\<close>

text \<open>
  A transmitter with its timers: a timeout input needs its identifier among the outstanding
  timers and uses one up; every \<open>After500ms\<close> of a step adds one.
\<close>

fun timers_of :: "'m tx_out list \<Rightarrow> uint64 multiset" where
  "timers_of [] = {#}"
| "timers_of (After500ms i # xs) = add_mset i (timers_of xs)"
| "timers_of (Transmit m # xs) = timers_of xs"

lemma in_timers_of: "i \<in># timers_of xs \<longleftrightarrow> After500ms i \<in> set xs"
  by (induction xs rule: timers_of.induct) auto

inductive tx_run :: "('s \<Rightarrow> 'i \<Rightarrow> 's \<times> 'm tx_out list) \<Rightarrow> ('i \<Rightarrow> uint64 option) \<Rightarrow>
    's \<times> uint64 multiset \<Rightarrow> 'i list \<Rightarrow> 'm list \<Rightarrow> 's \<times> uint64 multiset \<Rightarrow> bool"
  for step timeout where
  tx_nil: "tx_run step timeout c [] [] c"
| tx_plain: "timeout i = None \<Longrightarrow> step s i = (s', out) \<Longrightarrow> tx_run step timeout (s', T + timers_of out) ins ms c \<Longrightarrow>
    tx_run step timeout (s, T) (i # ins) ([m. Transmit m \<leftarrow> out] @ ms) c"
| tx_timeout: "timeout i = Some k \<Longrightarrow> k \<in># T \<Longrightarrow> step s i = (s', out) \<Longrightarrow>
    tx_run step timeout (s', T - {#k#} + timers_of out) ins ms c \<Longrightarrow>
    tx_run step timeout (s, T) (i # ins) ([m. Transmit m \<leftarrow> out] @ ms) c"

locale resender =
  fixes step :: "'s \<Rightarrow> 'i \<Rightarrow> 's \<times> 'm tx_out list"
    and timeout :: "'i \<Rightarrow> uint64 option"
    and waiting :: "'s \<Rightarrow> uint64 \<Rightarrow> 'm option"
    and fresh :: "'i \<Rightarrow> uint64 set"
    and idof :: "'m \<Rightarrow> uint64"
    and ok :: "'s \<Rightarrow> bool"
  assumes ok_step: "ok s \<Longrightarrow> ok (fst (step s i))"
    and resends: "ok s \<Longrightarrow> timeout i = Some k \<Longrightarrow>
      step s i = (s, case waiting s k of None \<Rightarrow> [] | Some m \<Rightarrow> [Transmit m, After500ms k])"
    and tracks: "ok s \<Longrightarrow> waiting (fst (step s i)) k \<noteq> None \<Longrightarrow>
      waiting s k \<noteq> None \<or> k \<in> fresh i \<and> After500ms k \<in> set (snd (step s i))"
    and sends_tracked: "ok s \<Longrightarrow> Transmit m \<in> set (snd (step s i)) \<Longrightarrow> waiting (fst (step s i)) (idof m) \<noteq> None"
begin

text \<open>Every message awaiting its acknowledgement has a timer that will resend it.\<close>

lemma timer_outstanding:
  assumes "tx_run step timeout c ins ms c'" "ok (fst c)" "\<And>k. waiting (fst c) k \<noteq> None \<Longrightarrow> k \<in># snd c"
  shows "ok (fst c') \<and> (\<forall>k. waiting (fst c') k \<noteq> None \<longrightarrow> k \<in># snd c')"
  using assms
proof (induction rule: tx_run.induct)
  case (tx_nil c)
  then show ?case by simp
next
  case (tx_plain i s s' out T ins ms c)
  have ok: "ok s'" using ok_step [of s i] tx_plain by simp
  have "k \<in># T + timers_of out" if "waiting s' k \<noteq> None" for k
    using tracks [of s i k] that tx_plain by (auto simp: in_timers_of)
  with ok tx_plain.IH show ?case by simp
next
  case (tx_timeout i k T s s' out ins ms c)
  have ok: "ok s" using tx_timeout by simp
  have s': "s' = s" and out: "out = (case waiting s k of None \<Rightarrow> [] | Some m \<Rightarrow> [Transmit m, After500ms k])"
    using resends [OF ok tx_timeout.hyps(1)] tx_timeout.hyps(3) by auto
  have "j \<in># T - {#k#} + timers_of out" if "waiting s' j \<noteq> None" for j
  proof (cases "j = k")
    case True
    with that show ?thesis by (auto simp: out s')
  next
    case False
    with that tx_timeout.prems s' show ?thesis by (simp add: in_diff_count)
  qed
  with ok s' tx_timeout.IH show ?case by simp
qed

text \<open>Once nothing waits under an identifier, no message with it is sent until it is drawn again.\<close>

lemma settled_silent:
  assumes "tx_run step timeout c ins ms c'" "ok (fst c)" "waiting (fst c) k = None" "\<forall>i \<in> set ins. k \<notin> fresh i"
  shows "\<forall>m \<in> set ms. idof m \<noteq> k"
  using assms
proof (induction rule: tx_run.induct)
  case (tx_nil c)
  then show ?case by simp
next
  case (tx_plain i s s' out T ins ms c)
  have w: "waiting s' k = None" using tracks [of s i k] tx_plain by (cases "waiting s' k") auto
  have "\<forall>m. Transmit m \<in> set out \<longrightarrow> idof m \<noteq> k"
    using sends_tracked [of s _ i] w tx_plain.hyps(2) tx_plain.prems(1) by fastforce
  moreover have "\<forall>m \<in> set ms. idof m \<noteq> k" using tx_plain.IH tx_plain.prems w ok_step [of s i] tx_plain.hyps by simp
  ultimately show ?case by (auto split: tx_out.splits)
next
  case (tx_timeout i j T s s' out ins ms c)
  have w: "waiting s' k = None" using tracks [of s i k] tx_timeout by (cases "waiting s' k") auto
  have "\<forall>m. Transmit m \<in> set out \<longrightarrow> idof m \<noteq> k"
    using sends_tracked [of s _ i] w tx_timeout.hyps(3) tx_timeout.prems(1) by fastforce
  moreover have "\<forall>m \<in> set ms. idof m \<noteq> k" using tx_timeout.IH tx_timeout.prems w ok_step [of s i] tx_timeout.hyps by simp
  ultimately show ?case by (auto split: tx_out.splits)
qed

end

section \<open>The two transmitters are resenders\<close>

definition hat_timeout :: "hat_input \<Rightarrow> uint64 option" where
  "hat_timeout i = (case i of HatTimeout k \<Rightarrow> Some k | _ \<Rightarrow> None)"

definition hat_waiting :: "hat_state \<Rightarrow> uint64 \<Rightarrow> NewHallAssignments option" where
  "hat_waiting st k = map_option snd (find (\<lambda>(n, msg). nha_MessageID msg = k) (activeAssignments st))"

definition hat_fresh :: "hat_input \<Rightarrow> uint64 set" where
  "hat_fresh i = (case i of HatNew a rnd \<Rightarrow> {fst (GenerateMessageID NEW_HALL_ASSIGNMENT rnd)} | _ \<Rightarrow> {})"

definition hat_ok :: "hat_state \<Rightarrow> bool" where
  "hat_ok st \<longleftrightarrow> valid_map (activeAssignments st) \<and> (\<forall>(n, msg) \<in> set (activeAssignments st). nha_NodeID msg = n)"

lemma hat_waiting_iff: "hat_waiting st k \<noteq> None \<longleftrightarrow> (\<exists>(n, msg) \<in> set (activeAssignments st). nha_MessageID msg = k)"
  by (auto simp: hat_waiting_def find_None_iff split: prod.splits)

lemma find_SomeD: "find P xs = Some x \<Longrightarrow> P x \<and> x \<in> set xs"
  by (metis find_Some_iff nth_mem)

lemma hat_waiting_id: "hat_waiting st k = Some m \<Longrightarrow> nha_MessageID m = k"
  by (auto simp: hat_waiting_def dest: find_SomeD)

lemma set_update_subset: "set (AList.update k v m) \<subseteq> insert (k, v) (set m)"
  by (induction m) auto

lemma set_delete_subset: "set (AList.delete k m) \<subseteq> set m"
  by (auto simp: AList.delete_eq)

lemma in_update: "(k, v) \<in> set (AList.update k v m)"
  by (induction m) auto

interpretation hat: resender HallAssignmentsTransmitter_step hat_timeout hat_waiting hat_fresh nha_MessageID hat_ok
proof unfold_locales
  fix s :: hat_state and i :: hat_input and k :: uint64 and m
  assume ok: "hat_ok s"
  show "hat_ok (fst (HallAssignmentsTransmitter_step s i))"
    using ok set_update_subset set_delete_subset gomap.valid_store gomap.valid_remove
    by (cases i) (fastforce simp: hat_ok_def Let_def split: option.splits)+
  show "HallAssignmentsTransmitter_step s i =
      (s, case hat_waiting s k of None \<Rightarrow> [] | Some m \<Rightarrow> [Transmit m, After500ms k])" if "hat_timeout i = Some k"
    using that by (cases i) (auto simp: hat_timeout_def hat_waiting_def dest: find_SomeD split: option.splits)
  show "hat_waiting s k \<noteq> None \<or> k \<in> hat_fresh i \<and> After500ms k \<in> set (snd (HallAssignmentsTransmitter_step s i))"
    if "hat_waiting (fst (HallAssignmentsTransmitter_step s i)) k \<noteq> None"
    using that set_update_subset set_delete_subset unfolding hat_waiting_iff
    by (cases i) (fastforce simp: hat_fresh_def Let_def split: option.splits if_splits)+
  show "hat_waiting (fst (HallAssignmentsTransmitter_step s i)) (nha_MessageID m) \<noteq> None"
    if "Transmit m \<in> set (snd (HallAssignmentsTransmitter_step s i))"
    using that in_update unfolding hat_waiting_iff
    by (cases i) (fastforce simp: Let_def dest: find_SomeD split: option.splits if_splits)+
qed

definition hac_timeout :: "hac_input \<Rightarrow> uint64 option" where
  "hac_timeout i = (case i of HacTimeout k \<Rightarrow> Some k | _ \<Rightarrow> None)"

definition hac_waiting :: "hac_state \<Rightarrow> uint64 \<Rightarrow> HallAssignmentComplete option" where
  "hac_waiting st k = map_of (completedActiveAssignments st) k"

definition hac_fresh :: "hac_input \<Rightarrow> uint64 set" where
  "hac_fresh i = (case i of HacNew a rnd \<Rightarrow> {fst (GenerateMessageID HALL_ASSIGNMENT_COMPLETE rnd)} | _ \<Rightarrow> {})"

definition hac_ok :: "hac_state \<Rightarrow> bool" where
  "hac_ok st \<longleftrightarrow> valid_map (completedActiveAssignments st) \<and>
     (\<forall>(k, msg) \<in> set (completedActiveAssignments st). hac_MessageID msg = k)"

lemma find_key: "find (\<lambda>(j, v). j = k) m = map_option (\<lambda>v. (k, v)) (map_of m k)"
  by (induction m) auto

interpretation hac: resender HallAssignmentCompleteTransmitter_step hac_timeout hac_waiting hac_fresh hac_MessageID hac_ok
proof unfold_locales
  fix s :: hac_state and i :: hac_input and k :: uint64 and m
  assume ok: "hac_ok s"
  have idk: "hac_MessageID v = j" if "map_of (completedActiveAssignments s) j = Some v" for j v
    using ok map_of_SomeD [OF that] by (auto simp: hac_ok_def)
  show "hac_ok (fst (HallAssignmentCompleteTransmitter_step s i))"
    using ok set_update_subset set_delete_subset gomap.valid_store gomap.valid_remove
    by (cases i) (fastforce simp: hac_ok_def Let_def split: option.splits)+
  show "HallAssignmentCompleteTransmitter_step s i =
      (s, case hac_waiting s k of None \<Rightarrow> [] | Some m \<Rightarrow> [Transmit m, After500ms k])" if "hac_timeout i = Some k"
    using that idk by (cases i) (auto simp: hac_timeout_def hac_waiting_def find_key split: option.splits)
  show "hac_waiting s k \<noteq> None \<or> k \<in> hac_fresh i \<and> After500ms k \<in> set (snd (HallAssignmentCompleteTransmitter_step s i))"
    if "hac_waiting (fst (HallAssignmentCompleteTransmitter_step s i)) k \<noteq> None"
    using that ok
    by (cases i) (auto simp: hac_fresh_def hac_waiting_def hac_ok_def Let_def map_laws find_key split: option.splits if_splits)
  show "hac_waiting (fst (HallAssignmentCompleteTransmitter_step s i)) (hac_MessageID m) \<noteq> None"
    if "Transmit m \<in> set (snd (HallAssignmentCompleteTransmitter_step s i))"
    using that idk
    by (cases i) (auto simp: hac_waiting_def Let_def map_laws find_key split: option.splits if_splits)
qed

section \<open>Properties\<close>

lemma hat_ok_init: "hat_ok hat_init" and hac_ok_init: "hac_ok hac_init"
  by (simp_all add: hat_ok_def hat_init_def hac_ok_def hac_init_def)

lemma hat_waiting_init: "hat_waiting hat_init k = None" and hac_waiting_init: "hac_waiting hac_init k = None"
  by (simp_all add: hat_waiting_def hat_init_def hac_waiting_def hac_init_def)

lemma hat_run_inv:
  assumes "tx_run HallAssignmentsTransmitter_step hat_timeout (hat_init, {#}) ins ms (st, T)"
  shows "hat_ok st" "hat_waiting st k \<noteq> None \<Longrightarrow> k \<in># T"
  using hat.timer_outstanding [OF assms] hat_ok_init hat_waiting_init by auto

lemma hac_run_inv:
  assumes "tx_run HallAssignmentCompleteTransmitter_step hac_timeout (hac_init, {#}) ins ms (st, T)"
  shows "hac_ok st" "hac_waiting st k \<noteq> None \<Longrightarrow> k \<in># T"
  using hac.timer_outstanding [OF assms] hac_ok_init hac_waiting_init by auto

text \<open>The only active assignment with its identifier.\<close>

definition sole_id :: "hat_state \<Rightarrow> int \<Rightarrow> NewHallAssignments \<Rightarrow> bool" where
  "sole_id st n msg \<longleftrightarrow> map_of (activeAssignments st) n = Some msg \<and>
     (\<forall>n' msg'. map_of (activeAssignments st) n' = Some msg' \<longrightarrow> nha_MessageID msg' = nha_MessageID msg \<longrightarrow> n' = n)"

lemma sole_waiting:
  assumes "hat_ok st" "sole_id st n msg"
  shows "hat_waiting st (nha_MessageID msg) = Some msg"
proof -
  have v: "valid_map (activeAssignments st)" using assms(1) by (simp add: hat_ok_def)
  have "(n, msg) \<in> set (activeAssignments st)" using assms(2) in_map_iff [OF v] by (simp add: sole_id_def)
  then obtain m where m: "hat_waiting st (nha_MessageID msg) = Some m"
    using hat_waiting_iff [of st "nha_MessageID msg"] by fastforce
  then obtain n' where "find (\<lambda>(n, m). nha_MessageID m = nha_MessageID msg) (activeAssignments st) = Some (n', m)"
    by (auto simp: hat_waiting_def)
  from find_SomeD [OF this] have "nha_MessageID m = nha_MessageID msg" "map_of (activeAssignments st) n' = Some m"
    using in_map_iff [OF v] by simp_all
  with assms(2) m show ?thesis by (auto simp: sole_id_def)
qed

lemma sole_settled:
  assumes "hat_ok st" "sole_id st n msg"
  shows "hat_waiting (fst (HallAssignmentsTransmitter_step st (HatAck \<lparr>ack_MessageID = nha_MessageID msg, ack_NodeID = n\<rparr>)))
           (nha_MessageID msg) = None"
proof (rule ccontr)
  let ?st = "st\<lparr>activeAssignments := AList.delete n (activeAssignments st)\<rparr>"
  have v: "valid_map (activeAssignments st)" using assms(1) by (simp add: hat_ok_def)
  have s: "fst (HallAssignmentsTransmitter_step st (HatAck \<lparr>ack_MessageID = nha_MessageID msg, ack_NodeID = n\<rparr>)) = ?st"
    using assms(2) by (simp add: sole_id_def)
  assume "\<not> ?thesis"
  then obtain n' m where m: "(n', m) \<in> set (AList.delete n (activeAssignments st))" "nha_MessageID m = nha_MessageID msg"
    unfolding s using hat_waiting_iff [of ?st] by fastforce
  have "map_of (AList.delete n (activeAssignments st)) n' = Some m"
    using m(1) in_map_iff [OF gomap.valid_remove [OF v]] by simp
  then have "n' \<noteq> n" "map_of (activeAssignments st) n' = Some m"
    using gomap.lookup_remove [OF v, of n n'] by (simp_all split: if_splits)
  with m(2) assms(2) show False unfolding sole_id_def by blast
qed

text \<open>Whatever has happened, a hall assignment that has not been acknowledged has a timer
  outstanding, and when that timer ends the assignment is transmitted again and the timer renewed.\<close>

theorem assignment_retried:
  assumes "tx_run HallAssignmentsTransmitter_step hat_timeout (hat_init, {#}) ins ms (st, T)" "sole_id st n msg"
  shows "nha_MessageID msg \<in># T \<and> nha_NodeID msg = n \<and>
    HallAssignmentsTransmitter_step st (HatTimeout (nha_MessageID msg)) =
      (st, [Transmit msg, After500ms (nha_MessageID msg)])"
proof -
  note ok = hat_run_inv(1) [OF assms(1)]
  note w = sole_waiting [OF ok assms(2)]
  have "nha_NodeID msg = n" using ok assms(2) by (auto simp: hat_ok_def sole_id_def dest!: map_of_SomeD)
  with hat_run_inv(2) [OF assms(1), of "nha_MessageID msg"] w hat.resends [OF ok, of "HatTimeout (nha_MessageID msg)"]
  show ?thesis by (simp add: hat_timeout_def)
qed

text \<open>Once the receiver has acknowledged a hall assignment, the transmitter never sends a message
  with its identifier again, whatever timers, acknowledgements and new assignments follow, until
  the same identifier is drawn again.\<close>

theorem assignment_silent_after_ack:
  assumes "tx_run HallAssignmentsTransmitter_step hat_timeout (hat_init, {#}) ins ms (st, T)" "sole_id st n msg"
    and "HallAssignmentsTransmitter_step st (HatAck \<lparr>ack_MessageID = nha_MessageID msg, ack_NodeID = n\<rparr>) = (st', out)"
    and "tx_run HallAssignmentsTransmitter_step hat_timeout (st', T) later sent c"
    and "\<forall>i \<in> set later. nha_MessageID msg \<notin> hat_fresh i"
  shows "out = [] \<and> (\<forall>m \<in> set sent. nha_MessageID m \<noteq> nha_MessageID msg)"
proof -
  note ok = hat_run_inv(1) [OF assms(1)]
  have st': "st' = fst (HallAssignmentsTransmitter_step st (HatAck \<lparr>ack_MessageID = nha_MessageID msg, ack_NodeID = n\<rparr>))"
    using assms(3) by (metis fst_conv)
  have "hat_ok st'" unfolding st' by (rule hat.ok_step [OF ok])
  moreover have "hat_waiting st' (nha_MessageID msg) = None" unfolding st' by (rule sole_settled [OF ok assms(2)])
  moreover have "out = []" using assms(2,3) by (auto simp: sole_id_def)
  ultimately show ?thesis using hat.settled_silent [OF assms(4)] assms(5) by simp
qed

lemma tx_plainI:
  "timeout i = None \<Longrightarrow> tx_run step timeout (fst (step s i), T + timers_of (snd (step s i))) ins ms c \<Longrightarrow>
   tx_run step timeout (s, T) (i # ins) ([m. Transmit m \<leftarrow> snd (step s i)] @ ms) c"
  by (rule tx_plain) auto

definition assignment_to_2 :: NewHallAssignments where
  "assignment_to_2 = \<lparr>nha_NodeID = 2, nha_HallAssignment = zero_mat NUM_FLOORS 2, nha_MessageID = 7\<rparr>"

lemma hat_example:
  "tx_run HallAssignmentsTransmitter_step hat_timeout (hat_init, {#}) [HatEnable True, HatNew assignment_to_2 7]
     [assignment_to_2] (\<lparr>activeAssignments = [(2, assignment_to_2)], hat_enable = True\<rparr>, {#7#})"
  "sole_id \<lparr>activeAssignments = [(2, assignment_to_2)], hat_enable = True\<rparr> 2 assignment_to_2"
proof -
  have "tx_run HallAssignmentsTransmitter_step hat_timeout (\<lparr>activeAssignments = [], hat_enable = True\<rparr>, {#}) [HatNew assignment_to_2 7]
     [assignment_to_2] (\<lparr>activeAssignments = [(2, assignment_to_2)], hat_enable = True\<rparr>, {#7#})"
    using tx_plainI [of hat_timeout "HatNew assignment_to_2 7" HallAssignmentsTransmitter_step
        "\<lparr>activeAssignments = [], hat_enable = True\<rparr>" "{#}" "[]" "[]"
        "(\<lparr>activeAssignments = [(2, assignment_to_2)], hat_enable = True\<rparr>, {#7#})"]
    by (simp add: hat_timeout_def Let_def GenerateMessageID_def assignment_to_2_def tx_nil)
  then show "tx_run HallAssignmentsTransmitter_step hat_timeout (hat_init, {#}) [HatEnable True, HatNew assignment_to_2 7]
     [assignment_to_2] (\<lparr>activeAssignments = [(2, assignment_to_2)], hat_enable = True\<rparr>, {#7#})"
    using tx_plainI [of hat_timeout "HatEnable True" HallAssignmentsTransmitter_step hat_init "{#}"
        "[HatNew assignment_to_2 7]" "[assignment_to_2]"
        "(\<lparr>activeAssignments = [(2, assignment_to_2)], hat_enable = True\<rparr>, {#7#})"]
    by (simp add: hat_timeout_def hat_init_def)
qed (simp add: sole_id_def)

theorem assignment_retried_witness:
  "HallAssignmentsTransmitter_step \<lparr>activeAssignments = [(2, assignment_to_2)], hat_enable = True\<rparr> (HatTimeout 7) =
     (\<lparr>activeAssignments = [(2, assignment_to_2)], hat_enable = True\<rparr>, [Transmit assignment_to_2, After500ms 7])"
  using assignment_retried [OF hat_example] by (simp add: assignment_to_2_def)

theorem assignment_silent_after_ack_witness:
  "tx_run HallAssignmentsTransmitter_step hat_timeout (\<lparr>activeAssignments = [], hat_enable = True\<rparr>, {#7#})
     [HatTimeout 7, HatNew assignment_to_2 9] [assignment_to_2\<lparr>nha_MessageID := 9\<rparr>]
     (\<lparr>activeAssignments = [(2, assignment_to_2\<lparr>nha_MessageID := 9\<rparr>)], hat_enable = True\<rparr>, {#9#}) \<and>
   list_all (\<lambda>m. nha_MessageID m \<noteq> 7) [assignment_to_2\<lparr>nha_MessageID := 9\<rparr>]"
proof -
  let ?off = "\<lparr>activeAssignments = [], hat_enable = True\<rparr>"
    and ?m = "assignment_to_2\<lparr>nha_MessageID := 9\<rparr>"
    and ?c = "(\<lparr>activeAssignments = [(2, assignment_to_2\<lparr>nha_MessageID := 9\<rparr>)], hat_enable = True\<rparr>, {#9#})"
  have "tx_run HallAssignmentsTransmitter_step hat_timeout (?off, {#}) [HatNew assignment_to_2 9] [?m] ?c"
    using tx_plainI [of hat_timeout "HatNew assignment_to_2 9" HallAssignmentsTransmitter_step ?off "{#}" "[]" "[]" ?c]
    by (simp add: hat_timeout_def Let_def GenerateMessageID_def assignment_to_2_def tx_nil)
  then have run: "tx_run HallAssignmentsTransmitter_step hat_timeout (?off, {#7#}) [HatTimeout 7, HatNew assignment_to_2 9] [?m] ?c"
    using tx_timeout [of hat_timeout "HatTimeout 7" 7 "{#7#}" HallAssignmentsTransmitter_step ?off ?off "[]"
        "[HatNew assignment_to_2 9]" "[?m]" ?c] by (simp add: hat_timeout_def)
  have "HallAssignmentsTransmitter_step \<lparr>activeAssignments = [(2, assignment_to_2)], hat_enable = True\<rparr>
      (HatAck \<lparr>ack_MessageID = nha_MessageID assignment_to_2, ack_NodeID = 2\<rparr>) = (?off, [])"
    by simp
  from assignment_silent_after_ack [OF hat_example this run]
  show ?thesis using run by (simp add: hat_fresh_def GenerateMessageID_def assignment_to_2_def)
qed

text \<open>A completed hall order is transmitted again at every timeout until its acknowledgement
  arrives, and never after that until its identifier is drawn again.\<close>

theorem complete_retried_until_ack:
  assumes "tx_run HallAssignmentCompleteTransmitter_step hac_timeout (hac_init, {#}) ins ms (st, T)"
    and "map_of (completedActiveAssignments st) k = Some msg"
  shows "k \<in># T \<and> hac_MessageID msg = k \<and>
    HallAssignmentCompleteTransmitter_step st (HacTimeout k) = (st, [Transmit msg, After500ms k]) \<and>
    (\<forall>later sent c n. tx_run HallAssignmentCompleteTransmitter_step hac_timeout
        (fst (HallAssignmentCompleteTransmitter_step st (HacAck \<lparr>ack_MessageID = k, ack_NodeID = n\<rparr>)), T) later sent c \<longrightarrow>
      (\<forall>i \<in> set later. k \<notin> hac_fresh i) \<longrightarrow> (\<forall>m \<in> set sent. hac_MessageID m \<noteq> k))"
proof -
  note ok = hac_run_inv(1) [OF assms(1)]
  have w: "hac_waiting st k = Some msg" using assms(2) by (simp add: hac_waiting_def)
  have idk: "hac_MessageID msg = k" using ok map_of_SomeD [OF assms(2)] by (auto simp: hac_ok_def)
  have settled: "hac_waiting (fst (HallAssignmentCompleteTransmitter_step st (HacAck \<lparr>ack_MessageID = k, ack_NodeID = n\<rparr>))) k = None" for n
    using ok by (simp add: hac_waiting_def hac_ok_def map_laws)
  have "\<forall>m \<in> set sent. hac_MessageID m \<noteq> k"
    if "tx_run HallAssignmentCompleteTransmitter_step hac_timeout
        (fst (HallAssignmentCompleteTransmitter_step st (HacAck \<lparr>ack_MessageID = k, ack_NodeID = n\<rparr>)), T) later sent c"
      "\<forall>i \<in> set later. k \<notin> hac_fresh i" for later sent c n
    by (rule hac.settled_silent [OF that(1) _ _ that(2)]) (simp_all only: fst_conv hac.ok_step [OF ok] settled)
  with hac_run_inv(2) [OF assms(1), of k] w idk hac.resends [OF ok, of "HacTimeout k" k]
  show ?thesis by (simp add: hac_timeout_def)
qed

definition complete_msg :: HallAssignmentComplete where
  "complete_msg = \<lparr>hac_Floor = 1, hac_HallButton = ButtonHallUp, hac_MessageID = fst (GenerateMessageID HALL_ASSIGNMENT_COMPLETE 5)\<rparr>"

theorem complete_retried_until_ack_witness:
  "HallAssignmentCompleteTransmitter_step
     \<lparr>completedActiveAssignments = [(hac_MessageID complete_msg, complete_msg)], hac_enable = False\<rparr> (HacTimeout (hac_MessageID complete_msg)) =
     (\<lparr>completedActiveAssignments = [(hac_MessageID complete_msg, complete_msg)], hac_enable = False\<rparr>,
      [Transmit complete_msg, After500ms (hac_MessageID complete_msg)])"
proof -
  let ?st = "\<lparr>completedActiveAssignments = [(hac_MessageID complete_msg, complete_msg)], hac_enable = False\<rparr>"
  have "tx_run HallAssignmentCompleteTransmitter_step hac_timeout (hac_init, {#}) [HacNew complete_msg 5]
      [complete_msg] (?st, {#hac_MessageID complete_msg#})"
    using tx_plainI [of hac_timeout "HacNew complete_msg 5" HallAssignmentCompleteTransmitter_step hac_init "{#}" "[]" "[]"
        "(?st, {#hac_MessageID complete_msg#})"]
    by (simp add: hac_timeout_def hac_init_def Let_def complete_msg_def tx_nil)
  from complete_retried_until_ack [OF this, of "hac_MessageID complete_msg" complete_msg] show ?thesis by simp
qed

end
