(* ===== verification/State_Server.thy ===== *)
theory State_Server
  imports Messages
begin

text \<open>
  \<open>NodeElevStateServer\<close> of Network/messagehandler/receivers.go: the goroutine that remembers
  the state of every other elevator and watches the connection. One step per case of its
  \<open>select\<close>; the outputs are the sends on \<open>networkEventTx\<close> and \<open>elevStateUpdateTx\<close> in order.

  \<open>connectionTimeoutTimer\<close> is a Go ticker: a \<open>Reset\<close> sets its next tick, and after a tick the
  next one follows a period later. \<open>peerTimeoutTicker\<close> is, despite its name, made with
  \<open>time.NewTimer\<close>: it fires once per \<open>Reset\<close>. Both are the instant of the next tick, if any.
  Commands are the strings the nodes send.
\<close>

section \<open>State, messages and operations\<close>

datatype NetworkEvent = NodeConnectDisconnect | NodeHasLostConnection

record ElevStateUpdate =
  NodeElevStatesMap :: "(int, ElevatorState) gomap"
  OnlyActiveNodes :: bool

record srv =
  nodeIsConnected :: bool
  connTick :: "Time option"
  peerTick :: "Time option"
  lastSeen :: "(int, Time) gomap"
  knownNodes :: "(int, ElevatorState) gomap"
  lastActiveNodes :: "(int, ElevatorState) gomap"

datatype srv_input =
    PeerTimeout
  | ConnectionTimeout
  | ElevStateRx NodeElevState
  | CommandRx string

datatype srv_output =
    NetworkEventTx NetworkEvent
  | ElevStateUpdateTx ElevStateUpdate

definition PEER_POLL_INTERVAL :: Duration where
  "PEER_POLL_INTERVAL = 30 * Millisecond"

definition srv_init :: srv where
  "srv_init = \<lparr>nodeIsConnected = False, connTick = None, peerTick = None,
               lastSeen = [], knownNodes = [], lastActiveNodes = []\<rparr>"

definition makeActiveElevStatesUpdateMessage :: "(int, ElevatorState) gomap \<Rightarrow> ElevStateUpdate" where
  "makeActiveElevStatesUpdateMessage elevStates = \<lparr>NodeElevStatesMap = elevStates, OnlyActiveNodes = True\<rparr>"

definition makeAllElevStatesUpdateMessage :: "(int, ElevatorState) gomap \<Rightarrow> ElevStateUpdate" where
  "makeAllElevStatesUpdateMessage elevStates = \<lparr>NodeElevStatesMap = elevStates, OnlyActiveNodes = False\<rparr>"

text \<open>A lookup of a missing key yields the zero value.\<close>

definition state_of :: "(int, ElevatorState) gomap \<Rightarrow> int \<Rightarrow> ElevatorState" where
  "state_of m nid = (case map_of m nid of None \<Rightarrow> zero_ElevatorState | Some s \<Rightarrow> s)"

fun findActiveNodes_loop :: "Time \<Rightarrow> (int, ElevatorState) gomap \<Rightarrow> (int, Time) gomap \<Rightarrow>
    (int, ElevatorState) gomap \<Rightarrow> (int, ElevatorState) gomap" where
  "findActiveNodes_loop now known [] activeNodes = activeNodes"
| "findActiveNodes_loop now known ((nid, t) # seen) activeNodes =
     findActiveNodes_loop now known seen
       (if Since now t < NODE_CONNECTION_TIMEOUT then AList.update nid (state_of known nid) activeNodes else activeNodes)"

definition findActiveNodes :: "Time \<Rightarrow> (int, ElevatorState) gomap \<Rightarrow> (int, Time) gomap \<Rightarrow> (int, ElevatorState) gomap" where
  "findActiveNodes now known seen = findActiveNodes_loop now known seen []"

fun NodeElevStateServer_step :: "int \<Rightarrow> Time \<Rightarrow> srv \<Rightarrow> srv_input \<Rightarrow> srv \<times> srv_output list" where
  "NodeElevStateServer_step myID now s PeerTimeout =
     (let s = s\<lparr>peerTick := None\<rparr>;
          activeNodes = findActiveNodes now (knownNodes s) (lastSeen s)
      in (s\<lparr>lastActiveNodes := activeNodes\<rparr>,
          if length (lastActiveNodes s) \<noteq> length activeNodes then [NetworkEventTx NodeConnectDisconnect] else []))"
| "NodeElevStateServer_step myID now s ConnectionTimeout =
     (s\<lparr>connTick := map_option (\<lambda>t. Add t NODE_CONNECTION_TIMEOUT) (connTick s),
        peerTick := None, nodeIsConnected := False, lastActiveNodes := []\<rparr>,
      [NetworkEventTx NodeHasLostConnection])"
| "NodeElevStateServer_step myID now s (ElevStateRx elevState) =
     (let nid = nes_NodeID elevState
      in if nid \<noteq> myID then
           let s = (if nodeIsConnected s then s\<lparr>connTick := Some (Add now NODE_CONNECTION_TIMEOUT)\<rparr> else s)
           in (s\<lparr>knownNodes := AList.update nid (nes_ElevState elevState) (knownNodes s),
                 lastSeen := AList.update nid now (lastSeen s)\<rparr>, [])
         else (s, []))"
| "NodeElevStateServer_step myID now s (CommandRx command) =
     (if command = ''getActiveElevStates'' then
        (s, [ElevStateUpdateTx (makeActiveElevStatesUpdateMessage (findActiveNodes now (knownNodes s) (lastSeen s)))])
      else if command = ''getAllElevStates'' then
        (s, [ElevStateUpdateTx (makeAllElevStatesUpdateMessage (knownNodes s))])
      else if command = ''startConnectionTimeoutDetection'' then
        (s\<lparr>connTick := Some (Add now NODE_CONNECTION_TIMEOUT), peerTick := Some (Add now PEER_POLL_INTERVAL),
           nodeIsConnected := True\<rparr>, [])
      else (s, []))"

section \<open>Runs\<close>

text \<open>A timer case can be taken once its instant has come.\<close>

definition srv_enabled :: "Time \<Rightarrow> srv \<Rightarrow> srv_input \<Rightarrow> bool" where
  "srv_enabled now s i = (case i of
     PeerTimeout \<Rightarrow> (case peerTick s of None \<Rightarrow> False | Some t \<Rightarrow> t \<le> now)
   | ConnectionTimeout \<Rightarrow> (case connTick s of None \<Rightarrow> False | Some t \<Rightarrow> t \<le> now)
   | _ \<Rightarrow> True)"

text \<open>A run over timed inputs: the clock does not go back, timer inputs are enabled.\<close>

inductive srv_run :: "int \<Rightarrow> Time \<Rightarrow> srv \<Rightarrow> (Time \<times> srv_input) list \<Rightarrow> Time \<Rightarrow> srv \<Rightarrow> bool" for myID :: int where
  srv_nil: "srv_run myID c s [] c s"
| srv_cons: "c \<le> now \<Longrightarrow> srv_enabled now s i \<Longrightarrow> NodeElevStateServer_step myID now s i = (s', out) \<Longrightarrow>
    srv_run myID now s' ins c' s'' \<Longrightarrow> srv_run myID c s ((now, i) # ins) c' s''"

inductive_cases srv_runE: "srv_run myID c s ((now, i) # ins) c' s''"

section \<open>Active nodes\<close>

lemma active_loop_lookup:
  assumes "valid_map seen" "valid_map act"
  shows "valid_map (findActiveNodes_loop now known seen act)"
    and "map_of (findActiveNodes_loop now known seen act) nid =
      (case map_of seen nid of
         Some t \<Rightarrow> if Since now t < NODE_CONNECTION_TIMEOUT then Some (state_of known nid) else map_of act nid
       | None \<Rightarrow> map_of act nid)"
proof -
  have "valid_map (findActiveNodes_loop now known seen act) \<and>
    map_of (findActiveNodes_loop now known seen act) nid =
      (case map_of seen nid of
         Some t \<Rightarrow> if Since now t < NODE_CONNECTION_TIMEOUT then Some (state_of known nid) else map_of act nid
       | None \<Rightarrow> map_of act nid)"
    using assms
  proof (induction seen arbitrary: act)
    case Nil
    then show ?case by simp
  next
    case (Cons p seen)
    obtain n t where p: "p = (n, t)" by fastforce
    have v: "valid_map seen" "map_of seen n = None"
      using Cons.prems(1) by (auto simp: valid_map_def p map_of_eq_None_iff)
    show ?case
      using Cons.IH [OF v(1), of "if Since now t < NODE_CONNECTION_TIMEOUT then AList.update n (state_of known n) act else act"]
        Cons.prems(2) v(2) by (auto simp: p map_laws split: option.splits)
  qed
  then show "valid_map (findActiveNodes_loop now known seen act)"
    and "map_of (findActiveNodes_loop now known seen act) nid =
      (case map_of seen nid of
         Some t \<Rightarrow> if Since now t < NODE_CONNECTION_TIMEOUT then Some (state_of known nid) else map_of act nid
       | None \<Rightarrow> map_of act nid)" by blast+
qed

lemma findActiveNodes_lookup:
  "valid_map seen \<Longrightarrow> map_of (findActiveNodes now known seen) nid =
     (case map_of seen nid of
        Some t \<Rightarrow> if Since now t < NODE_CONNECTION_TIMEOUT then Some (state_of known nid) else None
      | None \<Rightarrow> None)"
  by (simp add: findActiveNodes_def active_loop_lookup split: option.splits)

lemma findActiveNodes_empty:
  assumes "valid_map seen" "\<And>nid t. map_of seen nid = Some t \<Longrightarrow> NODE_CONNECTION_TIMEOUT \<le> Since now t"
  shows "findActiveNodes now known seen = []"
proof -
  have "map_of (findActiveNodes now known seen) nid = None" for nid
    using assms(2) [of nid] by (force simp: findActiveNodes_lookup [OF assms(1)] split: option.splits)
  then have "map_of (findActiveNodes now known seen) = Map.empty" by blast
  then show ?thesis by simp
qed

section \<open>The invariant of a run\<close>

text \<open>
  Seen nodes are known; nothing was seen in the future; while connected, the next tick of the
  connection timer is at least a timeout after every message seen.
\<close>

definition srv_inv :: "int \<Rightarrow> Time \<Rightarrow> srv \<Rightarrow> bool" where
  "srv_inv myID c s \<longleftrightarrow>
     valid_map (lastSeen s) \<and> valid_map (knownNodes s) \<and>
     map_keys (lastSeen s) = map_keys (knownNodes s) \<and> myID \<notin> map_keys (knownNodes s) \<and>
     (\<forall>nid t. map_of (lastSeen s) nid = Some t \<longrightarrow> t \<le> c) \<and>
     (nodeIsConnected s \<longrightarrow> (\<exists>d. connTick s = Some d \<and>
        (\<forall>nid t. map_of (lastSeen s) nid = Some t \<longrightarrow> nanos t + NODE_CONNECTION_TIMEOUT \<le> nanos d)))"

lemma srv_inv_init: "srv_inv myID c srv_init"
  by (simp add: srv_inv_def srv_init_def map_keys_def)

lemma srv_inv_step:
  assumes inv: "srv_inv myID c s" and c: "c \<le> now"
  shows "srv_inv myID now (fst (NodeElevStateServer_step myID now s i))"
proof -
  have past: "t \<le> now" if "map_of (lastSeen s) nid = Some t" for nid t
    using that inv c by (auto simp: srv_inv_def intro: order_trans)
  then have now: "nanos t + NODE_CONNECTION_TIMEOUT \<le> nanos (Add now NODE_CONNECTION_TIMEOUT)"
    if "map_of (lastSeen s) nid = Some t" for nid t
    using that by (fastforce simp: Add_def less_eq_Time_def)
  have self: "nanos now + NODE_CONNECTION_TIMEOUT \<le> nanos (Add now NODE_CONNECTION_TIMEOUT)" by (simp add: Add_def)
  show ?thesis
  proof (cases i)
    case PeerTimeout
    with inv past show ?thesis by (auto simp: srv_inv_def Let_def)
  next
    case ConnectionTimeout
    with inv past show ?thesis by (auto simp: srv_inv_def)
  next
    case (ElevStateRx m)
    with inv past now self show ?thesis
      by (auto simp: srv_inv_def Let_def map_laws)
  next
    case (CommandRx cmd)
    with inv past now show ?thesis by (auto simp: srv_inv_def)
  qed
qed

lemma srv_inv_run: "srv_run myID c s ins c' s' \<Longrightarrow> srv_inv myID c s \<Longrightarrow> srv_inv myID c' s'"
proof (induction rule: srv_run.induct)
  case (srv_nil c s)
  then show ?case by simp
next
  case (srv_cons c now s i s' out ins c' s'')
  with srv_inv_step [of myID c s now i] show ?case by simp
qed

lemma timeout_nobody_active:
  assumes inv: "srv_inv myID c s" and conn: "nodeIsConnected s"
    and en: "srv_enabled now s ConnectionTimeout"
  shows "findActiveNodes now (knownNodes s) (lastSeen s) = []"
proof (rule findActiveNodes_empty)
  show "valid_map (lastSeen s)" using inv by (simp add: srv_inv_def)
  fix nid t assume t: "map_of (lastSeen s) nid = Some t"
  from inv conn obtain d where d: "connTick s = Some d" "nanos t + NODE_CONNECTION_TIMEOUT \<le> nanos d"
    using t by (auto simp: srv_inv_def)
  with en have "nanos d \<le> nanos now" by (simp add: srv_enabled_def less_eq_Time_def)
  with d have "\<not> nanos now - nanos t < NODE_CONNECTION_TIMEOUT" by simp
  then have "\<not> Since now t < NODE_CONNECTION_TIMEOUT"
    unfolding Since_def by (subst Sub_less_iff) (simp_all add: durations)
  then show "NODE_CONNECTION_TIMEOUT \<le> Since now t" by simp
qed

section \<open>The peer timer fires once per start\<close>

definition is_start :: "Time \<times> srv_input \<Rightarrow> bool" where
  "is_start ti \<longleftrightarrow> snd ti = CommandRx ''startConnectionTimeoutDetection''"

definition is_peer :: "Time \<times> srv_input \<Rightarrow> bool" where
  "is_peer ti \<longleftrightarrow> snd ti = PeerTimeout"

lemma peer_tick_step:
  assumes "srv_enabled now s i" "NodeElevStateServer_step myID now s i = (s', out)"
  shows "(if is_peer (now, i) then 1 else 0) + (if peerTick s' \<noteq> None then 1 else 0)
         \<le> (if is_start (now, i) then 1 else 0) + (if peerTick s \<noteq> None then (1::nat) else 0)"
proof (cases i)
  case (ElevStateRx m)
  then show ?thesis using assms(2) by (auto simp: is_peer_def is_start_def Let_def split: if_splits)
qed (use assms in \<open>auto simp: is_peer_def is_start_def srv_enabled_def Let_def split: option.splits if_splits\<close>)

lemma peer_fires_bound:
  assumes "srv_run myID c s ins c' s'"
  shows "length (filter is_peer ins) + (if peerTick s' \<noteq> None then 1 else 0)
         \<le> length (filter is_start ins) + (if peerTick s \<noteq> None then 1 else 0)"
  using assms
proof (induction rule: srv_run.induct)
  case (srv_nil c s)
  then show ?case by simp
next
  case (srv_cons c now s i s' out ins c' s'')
  from peer_tick_step [OF srv_cons.hyps(2,3)] srv_cons.IH show ?case by (auto split: if_splits)
qed

section \<open>Properties\<close>

lemma srv_runI:
  "c \<le> now \<Longrightarrow> srv_enabled now s i \<Longrightarrow> srv_run myID now (fst (NodeElevStateServer_step myID now s i)) ins c' s'' \<Longrightarrow>
   srv_run myID c s ((now, i) # ins) c' s''"
  by (rule srv_cons [where s' = "fst (NodeElevStateServer_step myID now s i)"
        and out = "snd (NodeElevStateServer_step myID now s i)"]) simp_all

text \<open>The server reports a lost connection, while it detects timeouts, only when no other node has
  been heard for the whole timeout, so at that instant no node counts as active.\<close>

theorem lost_connection_when_alone:
  assumes "srv_run myID c srv_init ins c' s" "nodeIsConnected s" "c' \<le> now" "srv_enabled now s ConnectionTimeout"
  shows "snd (NodeElevStateServer_step myID now s ConnectionTimeout) = [NetworkEventTx NodeHasLostConnection] \<and>
    findActiveNodes now (knownNodes s) (lastSeen s) = [] \<and>
    (\<forall>nid t. map_of (lastSeen s) nid = Some t \<longrightarrow> NODE_CONNECTION_TIMEOUT \<le> nanos now - nanos t)"
proof -
  have inv: "srv_inv myID c' s" by (rule srv_inv_run [OF assms(1) srv_inv_init])
  have "NODE_CONNECTION_TIMEOUT \<le> nanos now - nanos t" if "map_of (lastSeen s) nid = Some t" for nid t
  proof -
    from inv assms(2) that obtain d where "connTick s = Some d" "nanos t + NODE_CONNECTION_TIMEOUT \<le> nanos d"
      by (auto simp: srv_inv_def)
    with assms(4) show ?thesis by (simp add: srv_enabled_def less_eq_Time_def)
  qed
  with timeout_nobody_active [OF inv assms(2,4)] show ?thesis by simp
qed

definition state_from :: "int \<Rightarrow> srv_input" where
  "state_from nid = ElevStateRx \<lparr>nes_NodeID = nid, nes_ElevState = zero_ElevatorState\<rparr>"

definition heard_once :: srv where
  "heard_once = \<lparr>nodeIsConnected = True, connTick = Some (Instant 2500000000), peerTick = Some (Instant 30000000),
     lastSeen = [(2, Instant 500000000)], knownNodes = [(2, zero_ElevatorState)], lastActiveNodes = []\<rparr>"

lemma heard_once_run:
  "srv_run 1 0 srv_init [(0, CommandRx ''startConnectionTimeoutDetection''), (Instant 500000000, state_from 2)]
     (Instant 500000000) heard_once"
proof -
  have "srv_run 1 (Instant 500000000) heard_once [] (Instant 500000000) heard_once" by (rule srv_nil)
  then show ?thesis
    by (intro srv_runI) (simp_all add: srv_enabled_def state_from_def srv_init_def heard_once_def less_eq_Time_def
        zero_Time_def Add_def durations PEER_POLL_INTERVAL_def Let_def)
qed

theorem lost_connection_when_alone_witness:
  "findActiveNodes (Instant 2500000000) (knownNodes heard_once) (lastSeen heard_once) = [] \<and>
   map_of (lastSeen heard_once) 2 = Some (Instant 500000000)"
  using lost_connection_when_alone [OF heard_once_run, of "Instant 2500000000"]
  by (simp add: heard_once_def srv_enabled_def less_eq_Time_def)

text \<open>The states node \<open>nid\<close> sent, with the instants they were received at, read off the inputs.\<close>

fun states_from :: "int \<Rightarrow> (Time \<times> srv_input) list \<Rightarrow> (Time \<times> ElevatorState) list" where
  "states_from nid [] = []"
| "states_from nid ((t, ElevStateRx m) # ins) =
     (if nes_NodeID m = nid then [(t, nes_ElevState m)] else []) @ states_from nid ins"
| "states_from nid ((t, _) # ins) = states_from nid ins"

text \<open>What the server remembers of another node is the last of them.\<close>

lemma remembers_step:
  assumes "NodeElevStateServer_step myID now s i = (s', out)" "nid \<noteq> myID"
  shows "map_of (knownNodes s') nid =
      (if states_from nid [(now, i)] = [] then map_of (knownNodes s) nid else Some (snd (last (states_from nid [(now, i)]))))"
    and "map_of (lastSeen s') nid =
      (if states_from nid [(now, i)] = [] then map_of (lastSeen s) nid else Some (fst (last (states_from nid [(now, i)]))))"
  using assms by (cases i; auto simp: Let_def update_conv' split: if_splits)+

lemma states_from_cons: "states_from nid (p # ins) = states_from nid [p] @ states_from nid ins"
  by (cases p; cases "snd p") simp_all

lemma remembers_run:
  assumes "srv_run myID c s ins c' s'" "nid \<noteq> myID"
  shows "map_of (knownNodes s') nid =
      (if states_from nid ins = [] then map_of (knownNodes s) nid else Some (snd (last (states_from nid ins))))"
    and "map_of (lastSeen s') nid =
      (if states_from nid ins = [] then map_of (lastSeen s) nid else Some (fst (last (states_from nid ins))))"
  using assms(1)
proof (induction rule: srv_run.induct)
  case (srv_cons c now s i s' out ins c' s'')
  note step = remembers_step [OF srv_cons.hyps(3) assms(2)] and IH = srv_cons.IH
  {
    case 1
    show ?case using step(1) IH(1) by (simp add: states_from_cons [of nid _ ins])
  next
    case 2
    show ?case using step(2) IH(2) by (simp add: states_from_cons [of nid _ ins])
  }
qed simp_all

lemma remembers_init:
  assumes "srv_run myID c srv_init ins c' s"
  shows "map_of (knownNodes s) nid = Some st \<longleftrightarrow>
      nid \<noteq> myID \<and> (\<exists>t. states_from nid ins \<noteq> [] \<and> last (states_from nid ins) = (t, st))"
    and "map_of (lastSeen s) nid = Some t \<longleftrightarrow>
      nid \<noteq> myID \<and> (\<exists>st. states_from nid ins \<noteq> [] \<and> last (states_from nid ins) = (t, st))"
proof -
  have inv: "srv_inv myID c' s" by (rule srv_inv_run [OF assms srv_inv_init])
  then have "map_of (knownNodes s) myID = None" "map_of (lastSeen s) myID = None"
    using gomap.keys_lookup [of myID "lastSeen s"] gomap.keys_lookup [of myID "knownNodes s"] by (auto simp: srv_inv_def)
  with remembers_run [OF assms, of nid]
  show "map_of (knownNodes s) nid = Some st \<longleftrightarrow>
      nid \<noteq> myID \<and> (\<exists>t. states_from nid ins \<noteq> [] \<and> last (states_from nid ins) = (t, st))"
    and "map_of (lastSeen s) nid = Some t \<longleftrightarrow>
      nid \<noteq> myID \<and> (\<exists>st. states_from nid ins \<noteq> [] \<and> last (states_from nid ins) = (t, st))"
    by (cases "nid = myID"; cases "last (states_from nid ins)"; auto simp: srv_init_def)+
qed

text \<open>C32: Asked for the active nodes, the server answers with exactly the other nodes of which it has received
  a message within the connection timeout, each with the state of the last message received from
  it, whatever else it has received and whichever of its timers have fired; asked for all nodes, it
  answers with exactly the other nodes it has ever received a message of, again with the last state.\<close>

theorem active_states_exact:
  assumes "srv_run myID c srv_init ins c' s" "c' \<le> now"
  shows "\<exists>active all.
    NodeElevStateServer_step myID now s (CommandRx ''getActiveElevStates'') =
      (s, [ElevStateUpdateTx \<lparr>NodeElevStatesMap = active, OnlyActiveNodes = True\<rparr>]) \<and>
    NodeElevStateServer_step myID now s (CommandRx ''getAllElevStates'') =
      (s, [ElevStateUpdateTx \<lparr>NodeElevStatesMap = all, OnlyActiveNodes = False\<rparr>]) \<and>
    (\<forall>nid st. map_of active nid = Some st \<longleftrightarrow> nid \<noteq> myID \<and>
       (\<exists>t. states_from nid ins \<noteq> [] \<and> last (states_from nid ins) = (t, st) \<and> Since now t < NODE_CONNECTION_TIMEOUT)) \<and>
    (\<forall>nid st. map_of all nid = Some st \<longleftrightarrow> nid \<noteq> myID \<and>
       (\<exists>t. states_from nid ins \<noteq> [] \<and> last (states_from nid ins) = (t, st)))"
proof -
  have v: "valid_map (lastSeen s)" using srv_inv_run [OF assms(1) srv_inv_init] by (simp add: srv_inv_def)
  note r = remembers_init [OF assms(1)]
  let ?m = "findActiveNodes now (knownNodes s) (lastSeen s)"
  have "map_of ?m nid = Some st \<longleftrightarrow> nid \<noteq> myID \<and>
      (\<exists>t. states_from nid ins \<noteq> [] \<and> last (states_from nid ins) = (t, st) \<and> Since now t < NODE_CONNECTION_TIMEOUT)" for nid st
  proof (cases "map_of (lastSeen s) nid")
    case None
    with r(2) [of nid] show ?thesis by (auto simp: findActiveNodes_lookup [OF v])
  next
    case (Some t)
    with r(2) [of nid t] obtain st' where st': "nid \<noteq> myID" "states_from nid ins \<noteq> []" "last (states_from nid ins) = (t, st')" by auto
    with r(1) [of nid st'] have "map_of (knownNodes s) nid = Some st'" by auto
    with Some st' show ?thesis by (auto simp: findActiveNodes_lookup [OF v] state_of_def)
  qed
  with r(1) show ?thesis
    by (intro exI [of _ ?m] exI [of _ "knownNodes s"])
      (auto simp: makeActiveElevStatesUpdateMessage_def makeAllElevStatesUpdateMessage_def)
qed

text \<open>Node 2 sends two states, the second with a cab call; node 1, whose server it is, hears itself; node 3 is heard too early.\<close>

definition later_state :: ElevatorState where
  "later_state = zero_ElevatorState\<lparr>es_CabRequests := [False, True, False, False]\<rparr>"

definition three_senders :: "(Time \<times> srv_input) list" where
  "three_senders = [(0, state_from 3), (Instant 500000000, state_from 2), (Instant 700000000, state_from 1),
     (Instant 900000000, ElevStateRx \<lparr>nes_NodeID = 2, nes_ElevState = later_state\<rparr>)]"

lemma three_senders_run: "\<exists>s. srv_run 1 0 srv_init three_senders (Instant 900000000) s"
proof -
  let ?s = "srv_init\<lparr>knownNodes := [(3, zero_ElevatorState), (2, later_state)], lastSeen := [(3, 0), (2, Instant 900000000)]\<rparr>"
  have "srv_run 1 (Instant 900000000) ?s [] (Instant 900000000) ?s" by (rule srv_nil)
  then have "srv_run 1 0 srv_init three_senders (Instant 900000000) ?s" unfolding three_senders_def
    by (intro srv_runI) (simp_all add: srv_enabled_def state_from_def srv_init_def less_eq_Time_def zero_Time_def Let_def)
  then show ?thesis by blast
qed

theorem active_states_exact_witness:
  "\<exists>s m. NodeElevStateServer_step 1 (Instant 2100000000) s (CommandRx ''getActiveElevStates'') =
      (s, [ElevStateUpdateTx \<lparr>NodeElevStatesMap = m, OnlyActiveNodes = True\<rparr>]) \<and>
    map_of m 1 = None \<and> map_of m 2 = Some later_state \<and> map_of m 3 = None"
proof -
  obtain s where s: "srv_run 1 0 srv_init three_senders (Instant 900000000) s" using three_senders_run by blast
  have from_2: "last (states_from 2 three_senders) = (Instant 900000000, later_state)" "states_from 2 three_senders \<noteq> []"
    and from_3: "states_from 3 three_senders = [(0, zero_ElevatorState)]"
    by (simp_all add: three_senders_def state_from_def)
  have "Instant 900000000 \<le> Instant 2100000000" by (simp add: less_eq_Time_def)
  from active_states_exact [OF s this] obtain m where
    m: "NodeElevStateServer_step 1 (Instant 2100000000) s (CommandRx ''getActiveElevStates'') =
      (s, [ElevStateUpdateTx \<lparr>NodeElevStatesMap = m, OnlyActiveNodes = True\<rparr>])"
    "\<And>nid st. map_of m nid = Some st \<longleftrightarrow> nid \<noteq> 1 \<and> (\<exists>t. states_from nid three_senders \<noteq> [] \<and>
       last (states_from nid three_senders) = (t, st) \<and> Since (Instant 2100000000) t < NODE_CONNECTION_TIMEOUT)" by blast
  have "map_of m 2 = Some later_state" using m(2) [of 2] from_2 by (simp add: Since_def Sub_def durations)
  moreover have "map_of m 1 = None" using m(2) [of 1] by (cases "map_of m 1") auto
  moreover have "map_of m 3 = None" using m(2) [of 3] from_3
    by (cases "map_of m 3") (auto simp: Since_def Sub_def durations zero_Time_def)
  ultimately show ?thesis using m(1) by blast
qed

text \<open>The check for nodes that come and go runs at most once for every start of the detection: its
  timer fires once per start and is not rearmed by the check.\<close>

theorem peer_check_once_per_start:
  assumes "srv_run myID c srv_init ins c' s"
  shows "length (filter is_peer ins) \<le> length (filter is_start ins)"
  using peer_fires_bound [OF assms] by (simp add: srv_init_def)

theorem peer_check_once_per_start_witness:
  "\<exists>c' s. srv_run 1 0 srv_init [(0, CommandRx ''startConnectionTimeoutDetection''), (Instant 30000000, PeerTimeout)] c' s \<and>
     length (filter is_peer [(0, CommandRx ''startConnectionTimeoutDetection''), (Instant 30000000, PeerTimeout)]) \<le> 1"
proof -
  let ?ins = "[(0, CommandRx ''startConnectionTimeoutDetection''), (Instant 30000000, PeerTimeout)]"
  let ?s = "\<lparr>nodeIsConnected = True, connTick = Some (Instant 2000000000), peerTick = None,
     lastSeen = [], knownNodes = [], lastActiveNodes = []\<rparr>"
  have "srv_run 1 (Instant 30000000) ?s [] (Instant 30000000) ?s" by (rule srv_nil)
  then have run: "srv_run 1 0 srv_init ?ins (Instant 30000000) ?s"
    by (intro srv_runI) (simp_all add: srv_enabled_def srv_init_def less_eq_Time_def zero_Time_def Add_def
        durations PEER_POLL_INTERVAL_def Let_def findActiveNodes_def)
  from peer_check_once_per_start [OF this] run show ?thesis by (auto simp: is_start_def)
qed

end
