(* ===== verification/HRA.thy ===== *)
theory HRA
  imports Messages Elev_Requests
begin

text \<open>
  The call of the hall request assigner, costFNS/hallRequestAssigner/hallRequestAssigner.go.
  The assigner itself is an executable built from a submodule that is not in the repository:
  it is the parameter \<open>run_hra\<close>, from the executable's path and the input to the decoded
  output, \<open>None\<close> when encoding, running or decoding fails (the code then returns a nil map).
  The operating system is \<open>runtime.GOOS\<close>; the panic on an unsupported one is \<open>None\<close>.
\<close>

section \<open>Data\<close>

record HRAElevState =
  hra_Behavior :: string
  hra_Floor :: int
  hra_Direction :: string
  hra_CabRequests :: "bool list"

record HRAInput =
  hra_HallRequests :: hall_matrix
  hra_States :: "(string, HRAElevState) gomap"

type_synonym hra_runner = "string \<Rightarrow> HRAInput \<Rightarrow> (string, hall_matrix) gomap option"

section \<open>Operations\<close>

definition ToLower :: "string \<Rightarrow> string" where
  "ToLower s = map (\<lambda>c. if 65 \<le> (of_char c :: nat) \<and> (of_char c :: nat) \<le> 90 then char_of ((of_char c :: nat) + 32) else c) s"

definition hra_state :: "ElevatorState \<Rightarrow> HRAElevState" where
  "hra_state nodeState =
     \<lparr>hra_Behavior = behavior_String (es_Behavior nodeState),
      hra_Floor = es_Floor nodeState,
      hra_Direction = ToLower (direction_String (es_Direction nodeState)),
      hra_CabRequests = es_CabRequests nodeState\<rparr>"

text \<open>The loop that fills the input map, and the one that reads the output map.\<close>

fun hra_input_loop :: "(int, ElevatorState) gomap \<Rightarrow> (string, HRAElevState) gomap \<Rightarrow> (string, HRAElevState) gomap" where
  "hra_input_loop [] acc = acc"
| "hra_input_loop ((nid, nodeState) # rest) acc =
     hra_input_loop rest (AList.update (show_int nid) (hra_state nodeState) acc)"

fun hra_output_loop :: "(string, hall_matrix) gomap \<Rightarrow> (int, hall_matrix) gomap \<Rightarrow> (int, hall_matrix) gomap" where
  "hra_output_loop [] acc = acc"
| "hra_output_loop ((key, output) # rest) acc =
     hra_output_loop rest (AList.update (fst (Atoi key)) output acc)"

definition hra_executable :: "string \<Rightarrow> string option" where
  "hra_executable goos =
     (if goos = ''linux'' then Some ''hall_request_assigner''
      else if goos = ''windows'' then Some ''hall_request_assigner.exe''
      else None)"

definition HRAalgorithm :: "string \<Rightarrow> hra_runner \<Rightarrow> (int, ElevatorState) gomap \<Rightarrow> hall_matrix \<Rightarrow> (int, hall_matrix) gomap option" where
  "HRAalgorithm goos run_hra allElevStates hallRequests = do {
     let input = \<lparr>hra_HallRequests = hallRequests, hra_States = hra_input_loop allElevStates []\<rparr>;
     exe \<leftarrow> hra_executable goos;
     Some (case run_hra (''costFNS/hallRequestAssigner/'' @ exe) input of
             None \<Rightarrow> []
           | Some ret \<Rightarrow> hra_output_loop ret [])
   }"

section \<open>Keys survive the trip through strings\<close>

definition int64 :: "int \<Rightarrow> bool" where
  "int64 n \<longleftrightarrow> MIN_INT \<le> n \<and> n \<le> MAX_INT"

lemma Atoi_key: "int64 n \<Longrightarrow> fst (Atoi (show_int n)) = n"
  by (simp add: int64_def Atoi_show_int)

lemma show_int_eq_iff: "int64 m \<Longrightarrow> int64 n \<Longrightarrow> show_int m = show_int n \<longleftrightarrow> m = n"
  using show_int_inj by (auto simp: int64_def)

lemma input_loop_lookup:
  assumes "valid_map m" "\<forall>n \<in> map_keys m. int64 n" "int64 nid"
  shows "map_of (hra_input_loop m acc) (show_int nid) =
    (case map_of m nid of Some st \<Rightarrow> Some (hra_state st) | None \<Rightarrow> map_of acc (show_int nid))"
  using assms(1,2)
proof (induction m arbitrary: acc)
  case Nil
  then show ?case by simp
next
  case (Cons p m)
  obtain n st where p: "p = (n, st)" by fastforce
  have v: "valid_map m" "\<forall>n \<in> map_keys m. int64 n" "map_of m n = None" "int64 n"
    using Cons.prems by (auto simp: valid_map_def map_keys_def p map_of_eq_None_iff)
  show ?case
    using Cons.IH [OF v(1,2)] v(3,4) assms(3)
    by (auto simp: p map_laws show_int_eq_iff split: option.splits)
qed

lemma output_loop_lookup:
  assumes "valid_map m" "map_keys m \<subseteq> show_int ` {n. int64 n}" "int64 nid"
  shows "map_of (hra_output_loop m acc) nid =
    (case map_of m (show_int nid) of Some h \<Rightarrow> Some h | None \<Rightarrow> map_of acc nid)"
  using assms(1,2)
proof (induction m arbitrary: acc)
  case Nil
  then show ?case by simp
next
  case (Cons p m)
  obtain k h where p: "p = (k, h)" by fastforce
  with Cons.prems(2) obtain n where k: "k = show_int n" "int64 n" by (auto simp: map_keys_def)
  have v: "valid_map m" "map_keys m \<subseteq> show_int ` {n. int64 n}" "map_of m k = None"
    using Cons.prems by (auto simp: valid_map_def map_keys_def p map_of_eq_None_iff)
  show ?case
    using Cons.IH [OF v(1,2)] v(3) k assms(3)
    by (auto simp: p map_laws Atoi_key show_int_eq_iff split: option.splits)
qed

lemma direction_lower: "valid_dir d \<Longrightarrow> ToLower (direction_String d) = direction_String d"
  by (auto simp: valid_dir_def direction_String_def ToLower_def)

section \<open>Properties\<close>

text \<open>C33: The assignment a node gets is the one the assigner computed for it: the assigner sees every
  elevator's state under the decimal text of its identifier, and its answer for that text is filed
  under the identifier again, for all 64-bit identifiers, negative ones included.\<close>

theorem assignments_reach_their_node:
  assumes "valid_map states" "map_keys states \<subseteq> {n. int64 n}"
    and run: "run_hra ''costFNS/hallRequestAssigner/hall_request_assigner''
        \<lparr>hra_HallRequests = hallRequests, hra_States = hra_input_loop states []\<rparr> = Some answer"
    and "valid_map answer" "map_keys answer \<subseteq> show_int ` {n. int64 n}"
  shows "\<exists>m. HRAalgorithm ''linux'' run_hra states hallRequests = Some m \<and>
    (\<forall>n. int64 n \<longrightarrow> map_of m n = map_of answer (show_int n)) \<and>
    (\<forall>n. int64 n \<longrightarrow> map_of (hra_input_loop states []) (show_int n) = map_option hra_state (map_of states n))"
proof (intro exI conjI)
  show "HRAalgorithm ''linux'' run_hra states hallRequests = Some (hra_output_loop answer [])"
    using run by (simp add: HRAalgorithm_def hra_executable_def)
  show "\<forall>n. int64 n \<longrightarrow> map_of (hra_output_loop answer []) n = map_of answer (show_int n)"
    using output_loop_lookup [OF assms(4,5), of _ "[]"] by (simp split: option.splits)
  show "\<forall>n. int64 n \<longrightarrow> map_of (hra_input_loop states []) (show_int n) = map_option hra_state (map_of states n)"
  proof (intro allI impI)
    fix n assume "int64 n"
    with input_loop_lookup [OF assms(1), of n "[]"] assms(2)
    show "map_of (hra_input_loop states []) (show_int n) = map_option hra_state (map_of states n)"
      by (cases "map_of states n") auto
  qed
qed

text \<open>An assigner that gives every request to every elevator.\<close>

definition everything_to_all :: hra_runner where
  "everything_to_all exe input = Some (map (\<lambda>(k, _). (k, hra_HallRequests input)) (hra_States input))"

theorem assignments_reach_their_node_witness:
  "\<exists>m. HRAalgorithm ''linux'' everything_to_all [(1, zero_ElevatorState), (-12, zero_ElevatorState)] (zero_mat 4 2) = Some m \<and>
     map_of m (-12) = Some (zero_mat 4 2) \<and> map_of m 1 = Some (zero_mat 4 2) \<and> map_of m 3 = None"
proof -
  let ?g = "zero_mat 4 2 :: hall_matrix"
  let ?states = "[(1 :: int, zero_ElevatorState), (-12, zero_ElevatorState)]"
  have ints: "int64 1" "int64 (-12)" "int64 3" by (simp_all add: int64_def)
  have texts: "show_int (-12) \<noteq> show_int 1" "show_int 3 \<noteq> show_int 1" "show_int 3 \<noteq> show_int (-12)"
    using ints by (simp_all add: show_int_eq_iff)
  have input: "hra_input_loop ?states [] = [(show_int 1, hra_state zero_ElevatorState), (show_int (-12), hra_state zero_ElevatorState)]"
    using texts by simp
  let ?answer = "[(show_int 1, ?g), (show_int (-12), ?g)]"
  have run: "everything_to_all ''costFNS/hallRequestAssigner/hall_request_assigner''
      \<lparr>hra_HallRequests = ?g, hra_States = hra_input_loop ?states []\<rparr> = Some ?answer"
    by (simp add: everything_to_all_def input del: hra_input_loop.simps)
  have "valid_map ?states" "map_keys ?states \<subseteq> {n. int64 n}" "valid_map ?answer" "map_keys ?answer \<subseteq> show_int ` {n. int64 n}"
    using texts ints by (auto simp: valid_map_def map_keys_def)
  from assignments_reach_their_node [of ?states everything_to_all ?g ?answer, OF this(1,2) run this(3,4)] ints texts show ?thesis by auto
qed

lemma output_loop_valid: "valid_map acc \<Longrightarrow> valid_map (hra_output_loop out acc)"
  by (induction out acc rule: hra_output_loop.induct) (auto simp: map_laws)

lemma HRAalgorithm_valid: "HRAalgorithm goos run_hra states g = Some m \<Longrightarrow> valid_map m"
  by (auto simp: HRAalgorithm_def output_loop_valid split: Option.bind_splits option.splits)

end
