(* ===== verification/Node_Data.thy ===== *)
theory Node_Data
  imports Single_Elevator State_Server HRA
begin

text \<open>
  What the four node programs share (node/node.go and the helpers of node/slave.go and
  node/disconnected.go): the node's data, one constructor per channel it receives from or
  sends on, and the messages it builds. A program handles one input per step; its outputs are
  its sends in order. \<open>Leave st\<close> is the \<open>break ForLoop\<close> with \<open>nextNodeState = st\<close>.
\<close>

section \<open>Node data and channels\<close>

datatype nodestate = Inactive | Disconnected | Master | Slave

record NodeData =
  ID :: int
  State :: nodestate
  GlobalHallRequests :: hall_matrix
  TOLC :: Time

datatype node_in =
    ElevatorEventRx ElevatorEvent
  | MyElevStatesRx ElevatorState
  | NetworkEventRx NetworkEvent
  | HallAssignmentsRx NewHallAssignments
  | GlobalHallRequestRx GlobalHallRequest
  | CabRequestInfoRx CabRequestInfo
  | ConnectionReqRx ConnectionReq
  | NodeElevStateUpdateRx ElevStateUpdate
  | NewHallReqRx NewHallRequest
  | HallAssignmentCompleteRx HallAssignmentComplete
  | MasterConnectionTimeout
  | ConnectionRequestTick
  | DecisionTimeout

datatype node_out =
    AckTx Ack
  | NodeElevStatesTx NodeElevState
  | HallAssignmentTx NewHallAssignments
  | CabRequestInfoTx CabRequestInfo
  | GlobalHallRequestTx GlobalHallRequest
  | ConnectionReqTx ConnectionReq
  | commandToServerTx string
  | NewHallReqTx NewHallRequest
  | ElevLightAndAssignmentUpdateTx LightAndAssignmentUpdate
  | HallAssignmentCompleteTx HallAssignmentComplete
  | GlobalHallReqTransmitEnableTx bool
  | HallRequestAssignerTransmitEnableTx bool
  | HallAssignmentCompleteTransmitEnableTx bool

datatype verdict = Stay | Leave nodestate

text \<open>The data part of \<open>MakeNode\<close>; the goroutines it starts are the component theories.\<close>

definition MakeNode :: "int \<Rightarrow> NodeData" where
  "MakeNode nid = \<lparr>ID = nid, State = Inactive, GlobalHallRequests = zero_mat NUM_FLOORS 2, TOLC = 0\<rparr>"

definition wf_node :: "NodeData \<Rightarrow> bool" where
  "wf_node n \<longleftrightarrow> wf_mat NUM_FLOORS 2 (GlobalHallRequests n)"

lemma wf_MakeNode: "wf_node (MakeNode nid)"
  using wf_mat_zero [of NUM_FLOORS 2] by (simp add: wf_node_def MakeNode_def)

section \<open>Messages to the elevator\<close>

definition makeHallAssignmentAndLightMessage :: "hall_matrix \<Rightarrow> hall_matrix \<Rightarrow> LightAndAssignmentUpdate" where
  "makeHallAssignmentAndLightMessage hallAssignments globalHallReq =
     zero_update\<lparr>HallAssignments := hallAssignments, LightStates := globalHallReq, OrderType := HallOrder\<rparr>"

definition makeLightMessage :: "hall_matrix \<Rightarrow> LightAndAssignmentUpdate" where
  "makeLightMessage hallReq = zero_update\<lparr>LightStates := hallReq, OrderType := LightUpdate\<rparr>"

definition makeCabOrderMessage :: "bool list \<Rightarrow> LightAndAssignmentUpdate" where
  "makeCabOrderMessage cabRequests =
     \<lparr>OrderType = CabOrder, HallAssignments = zero_mat NUM_FLOORS 2,
      CabAssignments = cabRequests, LightStates = zero_mat NUM_FLOORS 2\<rparr>"

section \<open>Comparing hall requests\<close>

text \<open>Both loops return early: \<open>list_all\<close> and \<open>list_ex\<close> over the floors.\<close>

definition canAcceptHallAssignments :: "hall_matrix \<Rightarrow> hall_matrix \<Rightarrow> bool" where
  "canAcceptHallAssignments newHallAssignments globalHallReq =
     list_all (\<lambda>floor.
       \<not> (mat_at newHallAssignments floor ButtonHallDown \<and> \<not> mat_at globalHallReq floor ButtonHallDown) \<and>
       \<not> (mat_at newHallAssignments floor ButtonHallUp \<and> \<not> mat_at globalHallReq floor ButtonHallUp)) floors"

definition hasChanged :: "hall_matrix \<Rightarrow> hall_matrix \<Rightarrow> bool" where
  "hasChanged newGlobalHallReq oldGlobalHallReq =
     list_ex (\<lambda>floor.
       mat_at oldGlobalHallReq floor ButtonHallDown \<noteq> mat_at newGlobalHallReq floor ButtonHallDown \<or>
       mat_at oldGlobalHallReq floor ButtonHallUp \<noteq> mat_at newGlobalHallReq floor ButtonHallUp) floors"

lemma hall_button_cases: "0 \<le> b \<Longrightarrow> b < 2 \<Longrightarrow> b = ButtonHallUp \<or> b = ButtonHallDown"
  for b :: int by auto

lemma canAccept_iff:
  "canAcceptHallAssignments a g \<longleftrightarrow>
     (\<forall>f b. in_floors f \<longrightarrow> (b = ButtonHallUp \<or> b = ButtonHallDown) \<longrightarrow> mat_at a f b \<longrightarrow> mat_at g f b)"
  by (auto simp: canAcceptHallAssignments_def list_all_iff in_floors_def)

lemma hasChanged_iff:
  assumes "wf_mat NUM_FLOORS 2 a" "wf_mat NUM_FLOORS 2 b"
  shows "hasChanged a b \<longleftrightarrow> a \<noteq> b"
proof
  show "hasChanged a b \<Longrightarrow> a \<noteq> b" by (auto simp: hasChanged_def list_ex_iff)
next
  assume "a \<noteq> b"
  with wf_mat_eqI [OF assms] obtain i j where
    ij: "0 \<le> i" "i < NUM_FLOORS" "0 \<le> j" "j < 2" "mat_at a i j \<noteq> mat_at b i j" by blast
  from hall_button_cases [OF ij(3,4)] ij show "hasChanged a b"
    by (auto simp: hasChanged_def list_ex_iff intro!: bexI [of _ i])
qed

end
