(* ===== verification/Node_Programs.thy ===== *)
theory Node_Programs
  imports Node_Data
begin

text \<open>
  The programs of an inactive, a disconnected and a slave node: node/inactive.go,
  node/disconnected.go and node/slave.go. Each has its local variables as a record, its entry
  code, one step per case of its \<open>select\<close> and its exit code. \<open>None\<close> is the panic of an index
  outside \<open>GlobalHallRequests\<close>.
\<close>

section \<open>Inactive\<close>

fun InactiveProgram_step :: "NodeData \<Rightarrow> node_in \<Rightarrow> verdict" where
  "InactiveProgram_step node (ElevatorEventRx elevMsg) =
     (if \<not> DoorIsStuck elevMsg \<and> EventType elevMsg = DoorStuckEvent then Leave Disconnected else Stay)"
| "InactiveProgram_step node _ = Stay"

section \<open>Disconnected\<close>

record disconnected =
  myConnReq :: ConnectionReq
  incomingConnRequests :: "(int, ConnectionReq) gomap"

definition DisconnectedProgram_entry :: "NodeData \<Rightarrow> uint64 \<Rightarrow> disconnected" where
  "DisconnectedProgram_entry node rnd =
     \<lparr>myConnReq = \<lparr>cr_TOLC = TOLC node, cr_NodeID = ID node,
                   cr_MessageID = fst (GenerateMessageID CONNECTION_REQ rnd)\<rparr>,
      incomingConnRequests = []\<rparr>"

text \<open>The two loops return false at the first request that speaks against.\<close>

definition ShouldBeMaster :: "int \<Rightarrow> Time \<Rightarrow> (int, ConnectionReq) gomap \<Rightarrow> bool" where
  "ShouldBeMaster myID tolc connectionRequests =
     (if IsZero tolc then
        list_all (\<lambda>(nid, connReq). \<not> (nid > myID \<or> \<not> IsZero (cr_TOLC connReq))) connectionRequests
      else
        list_all (\<lambda>(nid, connReq). \<not> Before tolc (cr_TOLC connReq)) connectionRequests)"

fun DisconnectedProgram_step :: "NodeData \<Rightarrow> disconnected \<Rightarrow> node_in \<Rightarrow>
    (NodeData \<times> disconnected \<times> node_out list \<times> verdict) option" where
  "DisconnectedProgram_step node d ConnectionRequestTick =
     Some (node, d, [ConnectionReqTx (myConnReq d)], Stay)"
| "DisconnectedProgram_step node d (ConnectionReqRx incomingConnReq) =
     (if ID node \<noteq> cr_NodeID incomingConnReq
      then Some (node, d\<lparr>incomingConnRequests :=
             AList.update (cr_NodeID incomingConnReq) incomingConnReq (incomingConnRequests d)\<rparr>, [], Stay)
      else Some (node, d, [], Stay))"
| "DisconnectedProgram_step node d DecisionTimeout =
     (if length (incomingConnRequests d) \<noteq> 0 \<and> ShouldBeMaster (ID node) (TOLC node) (incomingConnRequests d)
      then Some (node, d, [], Leave Master)
      else Some (node, d, [], Stay))"
| "DisconnectedProgram_step node d (ElevatorEventRx elevMsg) =
     (case EventType elevMsg of
        DoorStuckEvent \<Rightarrow> Some (node, d, [], if DoorIsStuck elevMsg then Leave Inactive else Stay)
      | HallButtonEvent \<Rightarrow> Some (node, d, [], Stay)
      | LocalHallAssignmentCompleteEvent \<Rightarrow>
          if be_Button (ee_ButtonEvent elevMsg) \<noteq> ButtonCab then do {
            g \<leftarrow> mat_set (GlobalHallRequests node) (be_Floor (ee_ButtonEvent elevMsg)) (be_Button (ee_ButtonEvent elevMsg)) False;
            Some (node\<lparr>GlobalHallRequests := g\<rparr>, d, [ElevLightAndAssignmentUpdateTx (makeLightMessage g)], Stay)
          }
          else Some (node, d, [], Stay))"
| "DisconnectedProgram_step node d (CabRequestInfoRx info) =
     Some (node, d,
           if ID node = cri_ReceiverNodeID info \<and> IsZero (TOLC node)
           then [ElevLightAndAssignmentUpdateTx (makeCabOrderMessage (cri_CabRequest info))] else [],
           Leave Slave)"
| "DisconnectedProgram_step node d _ = Some (node, d, [], Stay)"

section \<open>Slave\<close>

text \<open>The master timer is a one-shot timer, armed by every global hall request received.\<close>

record slave =
  lastHallAssignmentMessageID :: uint64
  masterTimerArmed :: bool

definition SlaveProgram_entry :: "slave \<times> node_out list" where
  "SlaveProgram_entry =
     (\<lparr>lastHallAssignmentMessageID = 0, masterTimerArmed = False\<rparr>,
      [HallAssignmentCompleteTransmitEnableTx True, commandToServerTx ''startConnectionTimeoutDetection''])"

definition SlaveProgram_exit :: "node_out list" where
  "SlaveProgram_exit = [HallAssignmentCompleteTransmitEnableTx False]"

fun SlaveProgram_step :: "Time \<Rightarrow> NodeData \<Rightarrow> slave \<Rightarrow> node_in \<Rightarrow> NodeData \<times> slave \<times> node_out list \<times> verdict" where
  "SlaveProgram_step now node l (ElevatorEventRx elevMsg) =
     (case EventType elevMsg of
        DoorStuckEvent \<Rightarrow> (node, l, [], if DoorIsStuck elevMsg then Leave Inactive else Stay)
      | HallButtonEvent \<Rightarrow>
          (node, l, [NewHallReqTx \<lparr>nhr_Floor = be_Floor (ee_ButtonEvent elevMsg),
                                  nhr_HallButton = be_Button (ee_ButtonEvent elevMsg)\<rparr>], Stay)
      | LocalHallAssignmentCompleteEvent \<Rightarrow>
          (node, l,
           if be_Button (ee_ButtonEvent elevMsg) \<noteq> ButtonCab
           then [HallAssignmentCompleteTx \<lparr>hac_Floor = be_Floor (ee_ButtonEvent elevMsg),
                   hac_HallButton = be_Button (ee_ButtonEvent elevMsg), hac_MessageID = 0\<rparr>] else [],
           Stay))"
| "SlaveProgram_step now node l (MyElevStatesRx myElevStates) =
     (node, l, [NodeElevStatesTx \<lparr>nes_NodeID = ID node, nes_ElevState = myElevStates\<rparr>], Stay)"
| "SlaveProgram_step now node l (NetworkEventRx networkEvent) =
     (node, l, [], if networkEvent = NodeHasLostConnection then Leave Disconnected else Stay)"
| "SlaveProgram_step now node l (HallAssignmentsRx newHA) =
     (if nha_NodeID newHA \<noteq> ID node \<or>
         \<not> canAcceptHallAssignments (nha_HallAssignment newHA) (GlobalHallRequests node)
      then (node, l, [], Stay)
      else
        let ack = AckTx \<lparr>ack_MessageID = nha_MessageID newHA, ack_NodeID = ID node\<rparr>
        in if lastHallAssignmentMessageID l \<noteq> nha_MessageID newHA
           then (node, l\<lparr>lastHallAssignmentMessageID := nha_MessageID newHA\<rparr>,
                 [ack, ElevLightAndAssignmentUpdateTx
                    (makeHallAssignmentAndLightMessage (nha_HallAssignment newHA) (GlobalHallRequests node))],
                 Stay)
           else (node, l, [ack], Stay))"
| "SlaveProgram_step now node l (GlobalHallRequestRx newGlobalHallReq) =
     (let node = node\<lparr>TOLC := now\<rparr>;
          l' = l\<lparr>masterTimerArmed := True\<rparr>
      in if hasChanged (ghr_HallRequests newGlobalHallReq) (GlobalHallRequests node)
         then (node\<lparr>GlobalHallRequests := ghr_HallRequests newGlobalHallReq\<rparr>, l',
               [ElevLightAndAssignmentUpdateTx (makeLightMessage (ghr_HallRequests newGlobalHallReq))], Stay)
         else (node, l', [], Stay))"
| "SlaveProgram_step now node l MasterConnectionTimeout =
     (node, l\<lparr>masterTimerArmed := False\<rparr>, [], Leave Disconnected)"
| "SlaveProgram_step now node l _ = (node, l, [], Stay)"

section \<open>Election\<close>

lemma list_all_map_of:
  "valid_map m \<Longrightarrow> list_all (\<lambda>(k, v). P k v) m \<longleftrightarrow> (\<forall>k v. map_of m k = Some v \<longrightarrow> P k v)"
  by (simp add: list_all_iff Ball_def in_map_iff)

lemma ShouldBeMaster_iff:
  assumes "valid_map reqs"
  shows "ShouldBeMaster myID tolc reqs \<longleftrightarrow>
    (if tolc = 0 then \<forall>nid r. map_of reqs nid = Some r \<longrightarrow> nid \<le> myID \<and> cr_TOLC r = 0
     else \<forall>nid r. map_of reqs nid = Some r \<longrightarrow> cr_TOLC r \<le> tolc)"
  by (simp add: ShouldBeMaster_def list_all_map_of [OF assms] IsZero_def Before_def not_less)

text \<open>The rank a node competes with: its time of last contact, then its identifier if it has none.\<close>

lemma no_two_masters:
  assumes v: "valid_map ra" "valid_map rb" and ne: "a \<noteq> b"
    and sees: "map_of ra b = Some qb" "cr_TOLC qb = tb" "map_of rb a = Some qa" "cr_TOLC qa = ta"
    and both: "ShouldBeMaster a ta ra" "ShouldBeMaster b tb rb"
  shows "ta = tb \<and> ta \<noteq> 0"
proof -
  have a: "if ta = 0 then b \<le> a \<and> tb = 0 else tb \<le> ta"
    using both(1) sees(1,2) unfolding ShouldBeMaster_iff [OF v(1)] by (auto split: if_splits)
  have b: "if tb = 0 then a \<le> b \<and> ta = 0 else ta \<le> tb"
    using both(2) sees(3,4) unfolding ShouldBeMaster_iff [OF v(2)] by (auto split: if_splits)
  show ?thesis
  proof (cases "ta = 0")
    case True
    with a b ne show ?thesis by simp
  next
    case False
    with a b show ?thesis by (cases "tb = 0") auto
  qed
qed

section \<open>Slave steps\<close>

lemma slave_wf:
  assumes "wf_node node" "\<And>g. i = GlobalHallRequestRx g \<Longrightarrow> wf_mat NUM_FLOORS 2 (ghr_HallRequests g)"
  shows "wf_node (fst (SlaveProgram_step now node l i))"
  using assms by (cases i) (auto simp: wf_node_def Let_def split: ElevatorEventType.splits)

lemma slave_leaves:
  "snd (snd (snd (SlaveProgram_step now node l i))) = Leave st \<Longrightarrow> st = Inactive \<or> st = Disconnected"
  by (cases i) (auto simp: Let_def split: ElevatorEventType.splits if_splits)

lemma disconnected_leaves:
  "DisconnectedProgram_step node d i = Some (node', d', out, Leave st) \<Longrightarrow> st \<in> {Inactive, Master, Slave}"
  by (cases i) (auto split: ElevatorEventType.splits if_splits Option.bind_splits)

lemma inactive_leaves: "InactiveProgram_step node i = Leave st \<Longrightarrow> st = Disconnected"
  by (cases i) (auto split: if_splits)

section \<open>Properties\<close>

text \<open>
  A group of disconnected nodes that have all heard each other: each node's incoming requests
  are exactly the other members', with their times of last contact.
\<close>

definition heard_each_other :: "int set \<Rightarrow> (int \<Rightarrow> NodeData) \<Rightarrow> (int \<Rightarrow> disconnected) \<Rightarrow> bool" where
  "heard_each_other grp node d \<longleftrightarrow>
     (\<forall>i \<in> grp. ID (node i) = i \<and> 0 \<le> TOLC (node i) \<and> valid_map (incomingConnRequests (d i)) \<and>
        map_keys (incomingConnRequests (d i)) = grp - {i} \<and>
        (\<forall>j r. map_of (incomingConnRequests (d i)) j = Some r \<longrightarrow> cr_TOLC r = TOLC (node j)))"

definition becomes_master :: "NodeData \<Rightarrow> disconnected \<Rightarrow> bool" where
  "becomes_master node d \<longleftrightarrow> DisconnectedProgram_step node d DecisionTimeout = Some (node, d, [], Leave Master)"

lemma becomes_master_iff:
  assumes "heard_each_other grp node d" "i \<in> grp" "grp \<noteq> {i}"
  shows "becomes_master (node i) (d i) \<longleftrightarrow>
    (if TOLC (node i) = 0 then \<forall>j \<in> grp. j \<le> i \<and> TOLC (node j) = 0
     else \<forall>j \<in> grp. TOLC (node j) \<le> TOLC (node i))"
proof -
  let ?reqs = "incomingConnRequests (d i)"
  have v: "valid_map ?reqs" "map_keys ?reqs = grp - {i}" "ID (node i) = i"
    and c: "\<And>j r. map_of ?reqs j = Some r \<Longrightarrow> cr_TOLC r = TOLC (node j)"
    using assms(1,2) by (auto simp: heard_each_other_def)
  have ne: "?reqs \<noteq> []" using v(2) assms(2,3) by (auto simp: map_keys_def)
  have ex: "(\<forall>j r. map_of ?reqs j = Some r \<longrightarrow> P j (cr_TOLC r)) \<longleftrightarrow> (\<forall>j \<in> grp - {i}. P j (TOLC (node j)))" for P
  proof -
    have "map_of ?reqs j \<noteq> None \<longleftrightarrow> j \<in> grp - {i}" for j using v(2) gomap.keys_lookup [of j ?reqs] by simp
    with c show ?thesis by (metis option.exhaust option.distinct(1))
  qed
  have "becomes_master (node i) (d i) \<longleftrightarrow> ShouldBeMaster i (TOLC (node i)) ?reqs"
    using ne v(3) by (simp add: becomes_master_def)
  also have "\<dots> \<longleftrightarrow> (if TOLC (node i) = 0 then \<forall>j \<in> grp - {i}. j \<le> i \<and> TOLC (node j) = 0
      else \<forall>j \<in> grp - {i}. TOLC (node j) \<le> TOLC (node i))"
    unfolding ShouldBeMaster_iff [OF v(1)] using ex [of "\<lambda>j t. j \<le> i \<and> t = 0"] ex [of "\<lambda>j t. t \<le> TOLC (node i)"] by simp
  finally show ?thesis by auto
qed

text \<open>C22: Election: among at least two disconnected nodes that have heard each other, exactly one decides to
  become master, provided no two of them have the same time of last contact other than zero, the
  time of a node that never had contact. The proviso is needed: theorem
  \<open>tied_contact_two_masters\<close> has a group with such a tie and two masters.\<close>

theorem exactly_one_master:
  assumes "heard_each_other grp node d" "finite grp" "2 \<le> card grp"
    and "\<forall>i \<in> grp. \<forall>j \<in> grp. TOLC (node i) = TOLC (node j) \<longrightarrow> i = j \<or> TOLC (node i) = 0"
  shows "\<exists>!i. i \<in> grp \<and> becomes_master (node i) (d i)"
proof -
  have ne: "grp \<noteq> {i}" "grp \<noteq> {}" for i using assms(3) by auto
  note iff = becomes_master_iff [OF assms(1) _ ne(1)]
  have pos: "0 \<le> TOLC (node i)" if "i \<in> grp" for i using assms(1) that by (simp add: heard_each_other_def)
  let ?best = "\<lambda>i. i \<in> grp \<and> (\<forall>j \<in> grp. TOLC (node j) \<le> TOLC (node i))"
  have "\<exists>i. ?best i"
  proof -
    have "Max ((\<lambda>i. TOLC (node i)) ` grp) \<in> (\<lambda>i. TOLC (node i)) ` grp"
      using assms(2) ne(2) by (intro Max_in) auto
    then obtain i where "i \<in> grp" "TOLC (node i) = Max ((\<lambda>i. TOLC (node i)) ` grp)" by auto
    with assms(2) show ?thesis by (intro exI [of _ i]) auto
  qed
  then obtain m where m: "m \<in> grp" "\<And>j. j \<in> grp \<Longrightarrow> TOLC (node j) \<le> TOLC (node m)" by blast
  show ?thesis
  proof (cases "TOLC (node m) = 0")
    case True
    with m(2) pos have z: "TOLC (node j) = 0" if "j \<in> grp" for j using that by (metis antisym)
    show ?thesis
    proof (rule ex1I [of _ "Max grp"])
      show "Max grp \<in> grp \<and> becomes_master (node (Max grp)) (d (Max grp))"
        using iff [of "Max grp"] z assms(2) ne(2) Max_in [OF assms(2)] by simp
      show "i = Max grp" if "i \<in> grp \<and> becomes_master (node i) (d i)" for i
        using iff [of i] that z assms(2) by (intro antisym) (auto intro: Max.boundedI)
    qed
  next
    case False
    show ?thesis
    proof (rule ex1I [of _ m])
      show "m \<in> grp \<and> becomes_master (node m) (d m)" using iff [of m] m False by simp
      show "i = m" if i: "i \<in> grp \<and> becomes_master (node i) (d i)" for i
      proof (cases "TOLC (node i) = 0")
        case True
        with i iff [of i] m(1) False show ?thesis by auto
      next
        case nz: False
        with i iff [of i] m have "TOLC (node i) = TOLC (node m)" by (auto intro: antisym)
        with assms(4) i m(1) nz show ?thesis by blast
      qed
    qed
  qed
qed

definition fresh_node :: "int \<Rightarrow> NodeData" where
  "fresh_node i = MakeNode i"

definition heard_other :: "int \<Rightarrow> disconnected" where
  "heard_other i = (DisconnectedProgram_entry (MakeNode i) 0)
     \<lparr>incomingConnRequests := [(3 - i, myConnReq (DisconnectedProgram_entry (MakeNode (3 - i)) 0))]\<rparr>"

theorem exactly_one_master_witness:
  "\<exists>!i. i \<in> {1, 2} \<and> becomes_master (fresh_node i) (heard_other i)"
proof (rule exactly_one_master)
  show "heard_each_other {1, 2} fresh_node heard_other"
    by (auto simp: heard_each_other_def fresh_node_def MakeNode_def heard_other_def DisconnectedProgram_entry_def
        map_keys_def valid_map_def)
qed (auto simp: fresh_node_def MakeNode_def)

text \<open>Two nodes that last had contact at the same instant both become master: the comparison of
  the times of last contact has no tie break.\<close>

theorem tied_contact_two_masters:
  assumes "heard_each_other {a, b} node d" "a \<noteq> b" "TOLC (node a) = TOLC (node b)" "TOLC (node a) \<noteq> 0"
  shows "becomes_master (node a) (d a) \<and> becomes_master (node b) (d b)"
  using becomes_master_iff [OF assms(1), of a] becomes_master_iff [OF assms(1), of b] assms(2-4) by auto

definition met_node :: "int \<Rightarrow> NodeData" where
  "met_node i = (MakeNode i)\<lparr>TOLC := Instant 5\<rparr>"

definition met_other :: "int \<Rightarrow> disconnected" where
  "met_other i = (DisconnectedProgram_entry (met_node i) 0)
     \<lparr>incomingConnRequests := [(3 - i, myConnReq (DisconnectedProgram_entry (met_node (3 - i)) 0))]\<rparr>"

theorem tied_contact_two_masters_witness:
  "becomes_master (met_node 1) (met_other 1) \<and> becomes_master (met_node 2) (met_other 2)"
proof (rule tied_contact_two_masters)
  show "heard_each_other {1, 2} met_node met_other"
    by (auto simp: heard_each_other_def met_node_def MakeNode_def met_other_def DisconnectedProgram_entry_def
        map_keys_def valid_map_def zero_Time_def less_eq_Time_def)
qed (simp_all add: met_node_def zero_Time_def)

end
