(* ===== verification/Master_Node.thy ===== *)
theory Master_Node
  imports Node_Data
begin

text \<open>
  The program of a master node, node/master.go: the ring buffer of message identifiers, the
  functions that process hall requests and completions, the computation of the hall
  assignments, and \<open>MasterProgram\<close> as its entry code, one step per case of its \<open>select\<close>, and
  its exit code. \<open>None\<close> is a panic. The operating system \<open>goos\<close> and the hall request assigner
  \<open>run_hra\<close> are parameters, as in theory HRA.
\<close>

section \<open>The buffer of message identifiers\<close>

abbreviation (input) bufferSize :: int where "bufferSize \<equiv> 5"

record MessageIDBuffer =
  messageIDs :: "uint64 list"
  buf_size :: int
  buf_index :: int

definition makeNewMessageIDBuffer :: "int \<Rightarrow> MessageIDBuffer" where
  "makeNewMessageIDBuffer bsize =
     \<lparr>messageIDs = replicate (nat bufferSize) 0, buf_size = bsize, buf_index = 0\<rparr>"

definition MessageIDBuffer_Add :: "MessageIDBuffer \<Rightarrow> uint64 \<Rightarrow> MessageIDBuffer option" where
  "MessageIDBuffer_Add buf nid = do {
     let index = (if buf_index buf = buf_size buf - 1 then 0 else buf_index buf);
     ids \<leftarrow> arr_set (messageIDs buf) index nid;
     Some (buf\<lparr>messageIDs := ids, buf_index := index + 1\<rparr>)
   }"

fun contains_loop :: "uint64 list \<Rightarrow> uint64 \<Rightarrow> int list \<Rightarrow> bool option" where
  "contains_loop ids nid [] = Some False"
| "contains_loop ids nid (i # rest) = do {
     x \<leftarrow> arr_get ids i;
     if x = nid then Some True else contains_loop ids nid rest
   }"

definition MessageIDBuffer_Contains :: "MessageIDBuffer \<Rightarrow> uint64 \<Rightarrow> bool option" where
  "MessageIDBuffer_Contains buf nid = contains_loop (messageIDs buf) nid [0 .. buf_size buf - 1]"

section \<open>Hall requests\<close>

definition ProcessHAComplete :: "hall_matrix \<Rightarrow> MessageIDBuffer \<Rightarrow> HallAssignmentComplete \<Rightarrow>
    (hall_matrix \<times> MessageIDBuffer \<times> bool) option" where
  "ProcessHAComplete globalHallRequests buffer ha = do {
     known \<leftarrow> MessageIDBuffer_Contains buffer (hac_MessageID ha);
     if \<not> known then do {
       g \<leftarrow> (if hac_HallButton ha \<noteq> ButtonCab
            then mat_set globalHallRequests (hac_Floor ha) (hac_HallButton ha) False
            else Some globalHallRequests);
       buffer' \<leftarrow> MessageIDBuffer_Add buffer (hac_MessageID ha);
       Some (g, buffer', True)
     }
     else Some (globalHallRequests, buffer, False)
   }"

definition ProcessNewHallRequest :: "hall_matrix \<Rightarrow> NewHallRequest \<Rightarrow> (hall_matrix \<times> bool) option" where
  "ProcessNewHallRequest globalHallRequests newHallReq =
     (if nhr_HallButton newHallReq = ButtonCab then Some (globalHallRequests, False)
      else do {
        g \<leftarrow> mat_set globalHallRequests (nhr_Floor newHallReq) (nhr_HallButton newHallReq) True;
        Some (g, True)
      })"

section \<open>Hall assignments\<close>

record HallAssignmentResult =
  MyAssignment :: LightAndAssignmentUpdate
  OtherAssignments :: "(int, NewHallAssignments) gomap"
  GlobalHallRequestMsg :: GlobalHallRequest
  CabRequestsMsgs :: "(int, CabRequestInfo) gomap"

definition zero_result :: HallAssignmentResult where
  "zero_result = \<lparr>MyAssignment = zero_update, OtherAssignments = [],
     GlobalHallRequestMsg = \<lparr>ghr_HallRequests = zero_mat NUM_FLOORS 2\<rparr>, CabRequestsMsgs = []\<rparr>"

lemma zero_result_simps [simp]:
  "MyAssignment zero_result = zero_update" "OtherAssignments zero_result = []"
  "GlobalHallRequestMsg zero_result = \<lparr>ghr_HallRequests = zero_mat NUM_FLOORS 2\<rparr>" "CabRequestsMsgs zero_result = []"
  by (simp_all add: zero_result_def)

fun assignments_loop :: "int \<Rightarrow> hall_matrix \<Rightarrow> (int, hall_matrix) gomap \<Rightarrow> HallAssignmentResult \<Rightarrow> HallAssignmentResult" where
  "assignments_loop myNodeID globalHallRequests [] result = result"
| "assignments_loop myNodeID globalHallRequests ((nid, hallRequests) # rest) result =
     assignments_loop myNodeID globalHallRequests rest
       (if nid = myNodeID
        then result\<lparr>MyAssignment := makeHallAssignmentAndLightMessage hallRequests globalHallRequests\<rparr>
        else result\<lparr>OtherAssignments :=
               AList.update nid \<lparr>nha_NodeID = nid, nha_HallAssignment = hallRequests, nha_MessageID = 0\<rparr>
                 (OtherAssignments result)\<rparr>)"

fun cab_requests_loop :: "(int, ElevatorState) gomap \<Rightarrow> (int, ConnectionReq) gomap \<Rightarrow>
    (int, CabRequestInfo) gomap \<Rightarrow> (int, CabRequestInfo) gomap" where
  "cab_requests_loop states [] acc = acc"
| "cab_requests_loop states ((nid, connReq) # rest) acc =
     cab_requests_loop states rest
       (AList.update nid
          (case map_of states nid of
             Some st \<Rightarrow> \<lparr>cri_CabRequest = es_CabRequests st, cri_ReceiverNodeID = nid\<rparr>
           | None \<Rightarrow> \<lparr>cri_CabRequest = replicate (nat NUM_FLOORS) False, cri_ReceiverNodeID = nid\<rparr>) acc)"

definition ComputeHallAssignments :: "string \<Rightarrow> hra_runner \<Rightarrow> bool \<Rightarrow> ElevStateUpdate \<Rightarrow> NodeElevState \<Rightarrow>
    hall_matrix \<Rightarrow> (int, ConnectionReq) gomap \<Rightarrow> (HallAssignmentResult \<times> bool) option" where
  "ComputeHallAssignments goos run_hra shouldDistribute update myState globalHallRequests connReqs = do {
     (result, shouldDistribute) \<leftarrow>
       (if shouldDistribute \<and> OnlyActiveNodes update then do {
          let states = AList.update (nes_NodeID myState) (nes_ElevState myState) (NodeElevStatesMap update);
          hraOutput \<leftarrow> HRAalgorithm goos run_hra states globalHallRequests;
          let result = assignments_loop (nes_NodeID myState) globalHallRequests hraOutput zero_result;
          Some (result\<lparr>GlobalHallRequestMsg := \<lparr>ghr_HallRequests = globalHallRequests\<rparr>\<rparr>, False)
        }
        else Some (zero_result, shouldDistribute));
     Some (if \<not> OnlyActiveNodes update
           then result\<lparr>CabRequestsMsgs := cab_requests_loop (NodeElevStatesMap update) connReqs []\<rparr>
           else result,
           shouldDistribute)
   }"

section \<open>The program\<close>

record master =
  myElevState :: NodeElevState
  lastStateRequest :: Time
  shouldDistributeHallRequests :: bool
  activeConnReq :: "(int, ConnectionReq) gomap"
  recentHACompleteBuffer :: MessageIDBuffer

definition any_request :: "hall_matrix \<Rightarrow> bool" where
  "any_request g = list_ex (\<lambda>(floor, btn). mat_at g floor btn) (grid hall_buttons)"

definition MasterProgram_entry :: "NodeData \<Rightarrow> master \<times> node_out list" where
  "MasterProgram_entry node =
     (\<lparr>myElevState = \<lparr>nes_NodeID = 0, nes_ElevState = zero_ElevatorState\<rparr>,
       lastStateRequest = 0,
       shouldDistributeHallRequests = any_request (GlobalHallRequests node),
       activeConnReq = [],
       recentHACompleteBuffer = makeNewMessageIDBuffer bufferSize\<rparr>,
      (if any_request (GlobalHallRequests node) then [commandToServerTx ''getActiveElevStates''] else []) @
      [GlobalHallRequestTx \<lparr>ghr_HallRequests = GlobalHallRequests node\<rparr>,
       ElevLightAndAssignmentUpdateTx (makeLightMessage (GlobalHallRequests node)),
       GlobalHallReqTransmitEnableTx True,
       HallRequestAssignerTransmitEnableTx True,
       commandToServerTx ''startConnectionTimeoutDetection''])"

definition MasterProgram_exit :: "Time \<Rightarrow> NodeData \<Rightarrow> NodeData \<times> node_out list" where
  "MasterProgram_exit now node =
     (node\<lparr>TOLC := now\<rparr>,
      [GlobalHallReqTransmitEnableTx False,
       HallRequestAssignerTransmitEnableTx False,
       commandToServerTx ''stopConnectionTimeoutDetection''])"

text \<open>The sends that publish the global hall requests to the other nodes and the own panel.\<close>

definition publish :: "NodeData \<Rightarrow> node_out list" where
  "publish node = [GlobalHallRequestTx \<lparr>ghr_HallRequests = GlobalHallRequests node\<rparr>,
                   ElevLightAndAssignmentUpdateTx (makeLightMessage (GlobalHallRequests node))]"

text \<open>The throttled request for the active nodes' states.\<close>

definition state_request :: "Time \<Rightarrow> master \<Rightarrow> bool \<Rightarrow> master \<times> node_out list" where
  "state_request now l wanted =
     (if wanted \<and> STATE_REQUEST_INTERVAL < Since now (lastStateRequest l)
      then (l\<lparr>lastStateRequest := now\<rparr>, [commandToServerTx ''getActiveElevStates''])
      else (l, []))"

text \<open>The rest of the elevator-event case, after its \<open>switch\<close>.\<close>

definition master_after_event :: "Time \<Rightarrow> NodeData \<Rightarrow> master \<Rightarrow> NodeData \<times> master \<times> node_out list \<times> verdict" where
  "master_after_event now node l =
     (let (l', cmds) = state_request now l (shouldDistributeHallRequests l)
      in (node, l', cmds @ publish node, Stay))"

definition set_hall :: "NodeData \<Rightarrow> ButtonEvent \<Rightarrow> bool \<Rightarrow> NodeData option" where
  "set_hall node ev v = do {
     g \<leftarrow> mat_set (GlobalHallRequests node) (be_Floor ev) (be_Button ev) v;
     Some (node\<lparr>GlobalHallRequests := g\<rparr>)
   }"

fun MasterProgram_step :: "string \<Rightarrow> hra_runner \<Rightarrow> Time \<Rightarrow> NodeData \<Rightarrow> master \<Rightarrow> node_in \<Rightarrow>
    (NodeData \<times> master \<times> node_out list \<times> verdict) option" where
  "MasterProgram_step goos run_hra now node l (ElevatorEventRx elevMsg) =
     (case EventType elevMsg of
        DoorStuckEvent \<Rightarrow> Some (node, l, [], if DoorIsStuck elevMsg then Leave Inactive else Stay)
      | HallButtonEvent \<Rightarrow>
          if be_Button (ee_ButtonEvent elevMsg) \<noteq> ButtonCab then do {
            node' \<leftarrow> set_hall node (ee_ButtonEvent elevMsg) True;
            Some (master_after_event now node' (l\<lparr>shouldDistributeHallRequests := True\<rparr>))
          }
          else Some (master_after_event now node l)
      | LocalHallAssignmentCompleteEvent \<Rightarrow>
          if be_Button (ee_ButtonEvent elevMsg) \<noteq> ButtonCab then do {
            node' \<leftarrow> set_hall node (ee_ButtonEvent elevMsg) False;
            Some (master_after_event now node' l)
          }
          else Some (master_after_event now node l))"
| "MasterProgram_step goos run_hra now node l (MyElevStatesRx myStates) =
     (let st = \<lparr>nes_NodeID = ID node, nes_ElevState = myStates\<rparr>
      in Some (node, l\<lparr>myElevState := st\<rparr>, [NodeElevStatesTx st], Stay))"
| "MasterProgram_step goos run_hra now node l (NewHallReqRx newHallReq) = do {
     (updatedState, shouldDistribute) \<leftarrow> ProcessNewHallRequest (GlobalHallRequests node) newHallReq;
     let l = l\<lparr>shouldDistributeHallRequests := shouldDistribute\<rparr>;
     if \<not> shouldDistribute then Some (node, l, [], Stay)
     else
       let node' = node\<lparr>GlobalHallRequests := updatedState\<rparr>;
           (l', cmds) = state_request now l True
       in Some (node', l', publish node' @ cmds, Stay)
   }"
| "MasterProgram_step goos run_hra now node l (NodeElevStateUpdateRx elevStatesUpdate) = do {
     (result, newShouldDistribute) \<leftarrow>
       ComputeHallAssignments goos run_hra (shouldDistributeHallRequests l) elevStatesUpdate
         (myElevState l) (GlobalHallRequests node) (activeConnReq l);
     Some (node,
           l\<lparr>shouldDistributeHallRequests := newShouldDistribute,
             activeConnReq := fold (\<lambda>(_, info). AList.delete (cri_ReceiverNodeID info)) (CabRequestsMsgs result) (activeConnReq l)\<rparr>,
           [ElevLightAndAssignmentUpdateTx (MyAssignment result)] @
           map (\<lambda>(_, assignment). HallAssignmentTx assignment) (OtherAssignments result) @
           [GlobalHallRequestTx (GlobalHallRequestMsg result),
            ElevLightAndAssignmentUpdateTx (makeLightMessage (GlobalHallRequests node))] @
           map (\<lambda>(_, info). CabRequestInfoTx info) (CabRequestsMsgs result),
           Stay)
   }"
| "MasterProgram_step goos run_hra now node l (ConnectionReqRx connReq) =
     (if cr_NodeID connReq \<noteq> ID node
      then Some (node, l\<lparr>activeConnReq := AList.update (cr_NodeID connReq) connReq (activeConnReq l)\<rparr>,
                 [commandToServerTx ''getAllElevStates''], Stay)
      else Some (node, l, [], Stay))"
| "MasterProgram_step goos run_hra now node l (HallAssignmentCompleteRx HA) = do {
     (g, buffer, updateNeeded) \<leftarrow> ProcessHAComplete (GlobalHallRequests node) (recentHACompleteBuffer l) HA;
     let node' = node\<lparr>GlobalHallRequests := g\<rparr>;
     Some (node', l\<lparr>recentHACompleteBuffer := buffer\<rparr>,
           (if updateNeeded then publish node' else []) @
           [AckTx \<lparr>ack_MessageID = hac_MessageID HA, ack_NodeID = ID node\<rparr>],
           Stay)
   }"
| "MasterProgram_step goos run_hra now node l (NetworkEventRx networkEvent) =
     (case networkEvent of
        NodeHasLostConnection \<Rightarrow> Some (node, l, [], Leave Disconnected)
      | NodeConnectDisconnect \<Rightarrow>
          Some (node, l\<lparr>shouldDistributeHallRequests := True\<rparr>, [commandToServerTx ''getActiveElevStates''], Stay))"
| "MasterProgram_step goos run_hra now node l _ = Some (node, l, [], Stay)"

section \<open>What the ring buffer remembers\<close>

text \<open>
  The slot before \<open>index\<close> was written last. \<open>Add\<close> wraps one slot early, so the last slot keeps
  its initial 0 and the buffer holds the last \<open>bufferSize - 1\<close> identifiers.
\<close>

definition buf_ok :: "MessageIDBuffer \<Rightarrow> bool" where
  "buf_ok buf \<longleftrightarrow> length (messageIDs buf) = 5 \<and> buf_size buf = bufferSize \<and>
     0 \<le> buf_index buf \<and> buf_index buf \<le> 4 \<and> messageIDs buf ! 4 = 0"

definition recent_ids :: "MessageIDBuffer \<Rightarrow> uint64 list" where
  "recent_ids buf = map (\<lambda>k. messageIDs buf ! nat ((buf_index buf - 1 - k) mod 4)) [0, 1, 2, 3]"

lemma buf_ok_new: "buf_ok (makeNewMessageIDBuffer bufferSize)"
  by (simp add: buf_ok_def makeNewMessageIDBuffer_def)

lemma recent_new: "recent_ids (makeNewMessageIDBuffer bufferSize) = replicate 4 0"
  by (simp add: recent_ids_def makeNewMessageIDBuffer_def numeral_nat)

lemma buf_cases:
  assumes "buf_ok buf"
  obtains a b c d where "messageIDs buf = [a, b, c, d, 0]" "buf_size buf = 5"
    "buf_index buf = 0 \<or> buf_index buf = 1 \<or> buf_index buf = 2 \<or> buf_index buf = 3 \<or> buf_index buf = 4"
proof -
  from assms have "length (messageIDs buf) = Suc (Suc (Suc (Suc (Suc 0))))" by (simp add: buf_ok_def)
  then obtain a b c d e where ids: "messageIDs buf = [a, b, c, d, e]"
    by (auto simp: length_Suc_conv)
  with assms have "e = 0" by (simp add: buf_ok_def)
  moreover have "buf_index buf = 0 \<or> buf_index buf = 1 \<or> buf_index buf = 2 \<or> buf_index buf = 3 \<or> buf_index buf = 4"
    using assms by (auto simp: buf_ok_def)
  ultimately show ?thesis using that ids assms by (simp add: buf_ok_def)
qed

lemma add_recent:
  assumes "buf_ok buf"
  shows "\<exists>buf'. MessageIDBuffer_Add buf nid = Some buf' \<and> buf_ok buf' \<and>
    recent_ids buf' = take 4 (nid # recent_ids buf)"
  using assms
  by (rule buf_cases) (auto simp: MessageIDBuffer_Add_def buf_ok_def recent_ids_def arr_set_def numeral_nat)

lemma contains_recent:
  assumes "buf_ok buf"
  shows "MessageIDBuffer_Contains buf nid = Some (nid = 0 \<or> nid \<in> set (recent_ids buf))"
proof -
  have range: "[0 .. 4] = [0, 1, 2, 3, 4 :: int]" by (simp add: upto.simps)
  from assms show ?thesis
    by (rule buf_cases)
      (auto simp: MessageIDBuffer_Contains_def range recent_ids_def arr_get_def numeral_nat)
qed

text \<open>What a handler relies on: an identifier just added is contained, and no access panics.\<close>

locale id_window =
  fixes ok :: "'b \<Rightarrow> bool"
    and add :: "'b \<Rightarrow> 'i \<Rightarrow> 'b option"
    and contains :: "'b \<Rightarrow> 'i \<Rightarrow> bool option"
  assumes add_ok: "ok b \<Longrightarrow> \<exists>b'. add b i = Some b' \<and> ok b' \<and> contains b' i = Some True"
    and contains_ok: "ok b \<Longrightarrow> contains b i \<noteq> None"
begin

definition note_id :: "'b \<Rightarrow> 'i \<Rightarrow> 'b option" where
  "note_id b i = do { known \<leftarrow> contains b i; if known then Some b else add b i }"

lemma note_id_total: "ok b \<Longrightarrow> \<exists>b'. note_id b i = Some b' \<and> ok b' \<and> contains b' i = Some True"
  using add_ok [of b i] contains_ok [of b i] by (auto simp: note_id_def)

lemma note_id_twice: "ok b \<Longrightarrow> note_id b i = Some b' \<Longrightarrow> note_id b' i = Some b'"
  using note_id_total [of b i] by (auto simp: note_id_def)

end

interpretation ids: id_window buf_ok MessageIDBuffer_Add MessageIDBuffer_Contains
proof unfold_locales
  fix b i assume b: "buf_ok b"
  then show "MessageIDBuffer_Contains b i \<noteq> None" by (simp add: contains_recent)
  from add_recent [OF b, of i] obtain b' where
    "MessageIDBuffer_Add b i = Some b'" "buf_ok b'" "recent_ids b' = take 4 (i # recent_ids b)" by blast
  then show "\<exists>b'. MessageIDBuffer_Add b i = Some b' \<and> buf_ok b' \<and> MessageIDBuffer_Contains b' i = Some True"
    by (simp add: contains_recent)
qed

lemma recent_after_adds:
  assumes "buf_ok buf"
  shows "\<exists>buf'. fold_opt (\<lambda>nid b. MessageIDBuffer_Add b nid) nids buf = Some buf' \<and> buf_ok buf' \<and>
    recent_ids buf' = take 4 (rev nids @ recent_ids buf)"
  using assms
proof (induction nids arbitrary: buf)
  case Nil
  then show ?case by (simp add: recent_ids_def)
next
  case (Cons nid nids)
  from add_recent [OF Cons.prems, of nid] obtain b1 where
    b1: "MessageIDBuffer_Add buf nid = Some b1" "buf_ok b1" "recent_ids b1 = take 4 (nid # recent_ids buf)" by blast
  have "take (4 - length nids) (nid # take 3 (recent_ids buf)) = take (4 - length nids) (nid # recent_ids buf)"
    by (cases "4 - length nids") (auto simp: min_def)
  with Cons.IH [OF b1(2)] b1 show ?case by auto
qed

section \<open>Completions and new requests\<close>

lemma complete_process:
  assumes wf: "wf_mat NUM_FLOORS 2 g" and b: "buf_ok buf"
    and ha: "hac_HallButton ha = ButtonCab \<or> in_floors (hac_Floor ha) \<and> 0 \<le> hac_HallButton ha \<and> hac_HallButton ha < 2"
  shows "\<exists>g' buf' new. ProcessHAComplete g buf ha = Some (g', buf', new) \<and> wf_mat NUM_FLOORS 2 g' \<and> buf_ok buf' \<and>
    MessageIDBuffer_Contains buf' (hac_MessageID ha) = Some True \<and>
    new = (hac_MessageID ha \<noteq> 0 \<and> hac_MessageID ha \<notin> set (recent_ids buf)) \<and>
    g' = (if new \<and> hac_HallButton ha \<noteq> ButtonCab then mat_put g (hac_Floor ha) (hac_HallButton ha) False else g)"
proof -
  from ids.add_ok [OF b, of "hac_MessageID ha"] obtain b1 where
    b1: "MessageIDBuffer_Add buf (hac_MessageID ha) = Some b1" "buf_ok b1"
      "MessageIDBuffer_Contains b1 (hac_MessageID ha) = Some True" by blast
  show ?thesis
    using wf b ha b1 mat_set_inrange [OF wf, of "hac_Floor ha" "hac_HallButton ha" False]
    by (auto simp: ProcessHAComplete_def contains_recent in_floors_def wf_intros)
qed

lemma new_request_process:
  assumes "wf_mat NUM_FLOORS 2 g" "in_floors f" "b = ButtonHallUp \<or> b = ButtonHallDown"
  shows "ProcessNewHallRequest g \<lparr>nhr_Floor = f, nhr_HallButton = b\<rparr> = Some (mat_put g f b True, True)"
  using assms mat_set_inrange [OF assms(1), of f b True]
  by (auto simp: ProcessNewHallRequest_def in_floors_def)

section \<open>What the assignments are\<close>

lemma assignments_lookup:
  assumes "valid_map out"
  shows "MyAssignment (assignments_loop me g out r) =
      (case map_of out me of Some h \<Rightarrow> makeHallAssignmentAndLightMessage h g | None \<Rightarrow> MyAssignment r) \<and>
    map_of (OtherAssignments (assignments_loop me g out r)) nid =
      (if nid = me then map_of (OtherAssignments r) nid
       else case map_of out nid of
         Some h \<Rightarrow> Some \<lparr>nha_NodeID = nid, nha_HallAssignment = h, nha_MessageID = 0\<rparr>
       | None \<Rightarrow> map_of (OtherAssignments r) nid)"
  using assms
proof (induction out arbitrary: r)
  case Nil
  then show ?case by simp
next
  case (Cons p out)
  obtain n h where p: "p = (n, h)" by fastforce
  have v: "valid_map out" "map_of out n = None"
    using Cons.prems by (auto simp: valid_map_def p map_of_eq_None_iff)
  let ?r = "if n = me then r\<lparr>MyAssignment := makeHallAssignmentAndLightMessage h g\<rparr>
    else r\<lparr>OtherAssignments := AList.update n \<lparr>nha_NodeID = n, nha_HallAssignment = h, nha_MessageID = 0\<rparr> (OtherAssignments r)\<rparr>"
  show ?case
    using Cons.IH [OF v(1), of ?r] v(2) by (auto simp: p map_laws split: option.splits)
qed

lemma assignments_frame:
  "CabRequestsMsgs (assignments_loop me g out r) = CabRequestsMsgs r"
  "valid_map (OtherAssignments r) \<Longrightarrow> valid_map (OtherAssignments (assignments_loop me g out r))"
  by (induction me g out r rule: assignments_loop.induct) (auto simp: map_laws)

lemma cab_requests_lookup:
  assumes "valid_map reqs"
  shows "map_of (cab_requests_loop states reqs acc) nid =
    (case map_of reqs nid of
       None \<Rightarrow> map_of acc nid
     | Some _ \<Rightarrow> Some \<lparr>cri_CabRequest = (case map_of states nid of Some st \<Rightarrow> es_CabRequests st
                                       | None \<Rightarrow> replicate (nat NUM_FLOORS) False),
                     cri_ReceiverNodeID = nid\<rparr>)"
  using assms
proof (induction reqs arbitrary: acc)
  case Nil
  then show ?case by simp
next
  case (Cons p reqs)
  obtain n q where p: "p = (n, q)" by fastforce
  have v: "valid_map reqs" "map_of reqs n = None"
    using Cons.prems by (auto simp: valid_map_def p map_of_eq_None_iff)
  show ?case using Cons.IH [OF v(1)] v(2) by (auto simp: p map_laws split: option.splits)
qed

lemma cab_requests_valid: "valid_map acc \<Longrightarrow> valid_map (cab_requests_loop states reqs acc)"
  by (induction states reqs acc rule: cab_requests_loop.induct) (auto simp: map_laws)

section \<open>Steps of the master\<close>

definition master_inv :: "NodeData \<Rightarrow> master \<Rightarrow> bool" where
  "master_inv node l \<longleftrightarrow> wf_node node \<and> buf_ok (recentHACompleteBuffer l) \<and> valid_map (activeConnReq l)"

text \<open>The floors and buttons that other nodes and the own elevator report are on the panel.\<close>

definition hall_call_ok :: "int \<Rightarrow> ButtonType \<Rightarrow> bool" where
  "hall_call_ok f b \<longleftrightarrow> b = ButtonCab \<or> in_floors f \<and> 0 \<le> b \<and> b < 2"

definition wf_node_in :: "node_in \<Rightarrow> bool" where
  "wf_node_in i = (case i of
     ElevatorEventRx e \<Rightarrow> hall_call_ok (be_Floor (ee_ButtonEvent e)) (be_Button (ee_ButtonEvent e))
   | NewHallReqRx r \<Rightarrow> hall_call_ok (nhr_Floor r) (nhr_HallButton r)
   | HallAssignmentCompleteRx ha \<Rightarrow> hall_call_ok (hac_Floor ha) (hac_HallButton ha)
   | GlobalHallRequestRx g \<Rightarrow> wf_mat NUM_FLOORS 2 (ghr_HallRequests g)
   | NodeElevStateUpdateRx u \<Rightarrow> valid_map (NodeElevStatesMap u)
   | _ \<Rightarrow> True)"

lemma master_inv_entry: "wf_node node \<Longrightarrow> master_inv node (fst (MasterProgram_entry node))"
  by (simp add: master_inv_def MasterProgram_entry_def buf_ok_new)

lemma set_hall_ok:
  assumes "wf_node node" "hall_call_ok (be_Floor ev) (be_Button ev)" "be_Button ev \<noteq> ButtonCab"
  shows "set_hall node ev v =
      Some (node\<lparr>GlobalHallRequests := mat_put (GlobalHallRequests node) (be_Floor ev) (be_Button ev) v\<rparr>) \<and>
    wf_node (node\<lparr>GlobalHallRequests := mat_put (GlobalHallRequests node) (be_Floor ev) (be_Button ev) v\<rparr>)"
  using assms mat_set_inrange [of NUM_FLOORS 2 "GlobalHallRequests node" "be_Floor ev" "be_Button ev" v]
  by (auto simp: set_hall_def wf_node_def hall_call_ok_def in_floors_def wf_intros)

lemma valid_fold_delete:
  "valid_map m \<Longrightarrow> valid_map (fold (\<lambda>(_, info). AList.delete (cri_ReceiverNodeID info)) xs m)"
  by (induction xs arbitrary: m) (auto simp: map_laws)

lemma compute_total:
  assumes "hra_executable goos \<noteq> None"
  shows "ComputeHallAssignments goos run_hra sd u st g reqs \<noteq> None"
  using assms by (auto simp: ComputeHallAssignments_def HRAalgorithm_def Let_def)

lemma master_step_ok:
  assumes inv: "master_inv node l" and os: "hra_executable goos \<noteq> None" and i: "wf_node_in i"
  shows "\<exists>node' l' out v. MasterProgram_step goos run_hra now node l i = Some (node', l', out, v) \<and>
    master_inv node' l' \<and> ID node' = ID node \<and> v \<in> {Stay, Leave Inactive, Leave Disconnected}"
proof (cases i)
  case (ElevatorEventRx e)
  let ?ev = "ee_ButtonEvent e"
  have after: "\<exists>node' l' out v. Some (master_after_event now n k) = Some (node', l', out, v) \<and>
      master_inv node' l' \<and> ID node' = ID n \<and> v \<in> {Stay, Leave Inactive, Leave Disconnected}"
    if "master_inv n k" for n k
    using that by (auto simp: master_after_event_def state_request_def Let_def master_inv_def)
  have wf: "wf_node node" using inv by (simp add: master_inv_def)
  show ?thesis
  proof (cases "EventType e = DoorStuckEvent \<or> be_Button ?ev = ButtonCab")
    case True
    with inv after [OF inv] show ?thesis by (auto simp: ElevatorEventRx split: ElevatorEventType.splits)
  next
    case False
    with i have call: "hall_call_ok (be_Floor ?ev) (be_Button ?ev)" "be_Button ?ev \<noteq> ButtonCab"
      by (simp_all add: wf_node_in_def ElevatorEventRx)
    note sh = set_hall_ok [OF wf call]
    have inv': "master_inv (node\<lparr>GlobalHallRequests := mat_put (GlobalHallRequests node) (be_Floor ?ev) (be_Button ?ev) v\<rparr>) k"
      if "recentHACompleteBuffer k = recentHACompleteBuffer l" "activeConnReq k = activeConnReq l" for v k
      using inv sh [of v] that by (simp add: master_inv_def)
    from False call(2) sh after [OF inv'] show ?thesis
      by (auto simp: ElevatorEventRx split: ElevatorEventType.splits)
  qed
next
  case (NewHallReqRx r)
  have wf: "wf_mat NUM_FLOORS 2 (GlobalHallRequests node)" using inv by (simp add: master_inv_def wf_node_def)
  with inv i show ?thesis
    using mat_set_inrange [OF wf, of "nhr_Floor r" "nhr_HallButton r" True]
    by (auto simp: NewHallReqRx wf_node_in_def hall_call_ok_def in_floors_def ProcessNewHallRequest_def
        state_request_def Let_def master_inv_def wf_node_def wf_intros)
next
  case (NodeElevStateUpdateRx u)
  from compute_total [OF os] obtain res sd where
    c: "ComputeHallAssignments goos run_hra (shouldDistributeHallRequests l) u (myElevState l)
          (GlobalHallRequests node) (activeConnReq l) = Some (res, sd)" by fastforce
  have "master_inv node (l\<lparr>shouldDistributeHallRequests := sd,
      activeConnReq := fold (\<lambda>(_, info). AList.delete (cri_ReceiverNodeID info)) (CabRequestsMsgs res) (activeConnReq l)\<rparr>)"
    using inv by (simp add: master_inv_def valid_fold_delete)
  with c show ?thesis by (simp add: NodeElevStateUpdateRx)
next
  case (HallAssignmentCompleteRx ha)
  have "wf_mat NUM_FLOORS 2 (GlobalHallRequests node)" "buf_ok (recentHACompleteBuffer l)"
    using inv by (simp_all add: master_inv_def wf_node_def)
  from complete_process [OF this] i obtain g buf new where
    "ProcessHAComplete (GlobalHallRequests node) (recentHACompleteBuffer l) ha = Some (g, buf, new)"
    "wf_mat NUM_FLOORS 2 g" "buf_ok buf"
    by (fastforce simp: HallAssignmentCompleteRx wf_node_in_def hall_call_ok_def)
  with inv show ?thesis by (simp add: HallAssignmentCompleteRx master_inv_def wf_node_def Let_def)
next
  case (NetworkEventRx e)
  with inv show ?thesis by (cases e) (simp_all add: master_inv_def)
next
  case (ConnectionReqRx q)
  with inv show ?thesis by (auto simp: master_inv_def map_laws)
qed (use inv in \<open>simp_all add: master_inv_def Let_def\<close>)

section \<open>Later copies of a completion\<close>

text \<open>A run of the program while it stays master.\<close>

fun master_run :: "string \<Rightarrow> hra_runner \<Rightarrow> NodeData \<Rightarrow> master \<Rightarrow> (Time \<times> node_in) list \<Rightarrow> (NodeData \<times> master) option" where
  "master_run goos run_hra node l [] = Some (node, l)"
| "master_run goos run_hra node l ((now, i) # ins) = do {
     (node', l', out, v) \<leftarrow> MasterProgram_step goos run_hra now node l i;
     if v = Stay then master_run goos run_hra node' l' ins else None
   }"

text \<open>A completion with another identifier.\<close>

definition completes_other :: "uint64 \<Rightarrow> Time \<times> node_in \<Rightarrow> bool" where
  "completes_other nid ti = (case snd ti of HallAssignmentCompleteRx ha \<Rightarrow> hac_MessageID ha \<noteq> nid | _ \<Rightarrow> False)"

lemma complete_window:
  assumes "ProcessHAComplete g buf ha = Some (g', buf', new)" "buf_ok buf" "nid \<in> set (take n (recent_ids buf))"
    and "n + (if hac_MessageID ha \<noteq> nid then 1 else 0) \<le> 4"
  shows "buf_ok buf' \<and> nid \<in> set (take (n + (if hac_MessageID ha \<noteq> nid then 1 else 0)) (recent_ids buf'))"
proof (cases "hac_MessageID ha = 0 \<or> hac_MessageID ha \<in> set (recent_ids buf)")
  case True
  with assms(1,2) have "buf' = buf" by (auto simp: ProcessHAComplete_def contains_recent)
  moreover have "set (take n (recent_ids buf)) \<subseteq> set (take (n + 1) (recent_ids buf))" by (rule set_take_subset_set_take) simp
  ultimately show ?thesis using assms(2,3) by auto
next
  case False
  with assms(3) have ne: "hac_MessageID ha \<noteq> nid" by (auto dest: in_set_takeD)
  from add_recent [OF assms(2), of "hac_MessageID ha"] obtain b where
    b: "MessageIDBuffer_Add buf (hac_MessageID ha) = Some b" "buf_ok b" "recent_ids b = take 4 (hac_MessageID ha # recent_ids buf)" by blast
  from assms(1,2) False b(1) have "buf' = b"
    by (auto simp: ProcessHAComplete_def contains_recent split: Option.bind_splits if_splits)
  moreover have "nid \<in> set (take (Suc n) (recent_ids b))" using assms(3,4) ne by (simp add: b(3) min_def)
  ultimately show ?thesis using b(2) ne by simp
qed

lemma window_step:
  assumes "MasterProgram_step goos run_hra now node l i = Some (node', l', out, v)" "buf_ok (recentHACompleteBuffer l)"
    "nid \<in> set (take n (recent_ids (recentHACompleteBuffer l)))" "n + (if completes_other nid (now, i) then 1 else 0) \<le> 4"
  shows "ID node' = ID node \<and> buf_ok (recentHACompleteBuffer l') \<and>
    nid \<in> set (take (n + (if completes_other nid (now, i) then 1 else 0)) (recent_ids (recentHACompleteBuffer l')))"
proof (cases i)
  case (HallAssignmentCompleteRx ha)
  with assms(1) obtain g buf new where
    p: "ProcessHAComplete (GlobalHallRequests node) (recentHACompleteBuffer l) ha = Some (g, buf, new)"
      "recentHACompleteBuffer l' = buf" "ID node' = ID node" by (auto simp: Let_def split: Option.bind_splits)
  from complete_window [OF p(1) assms(2,3)] assms(4) p(2,3) show ?thesis by (simp add: completes_other_def HallAssignmentCompleteRx)
next
  case (ElevatorEventRx e)
  with assms show ?thesis
    by (auto simp: completes_other_def master_after_event_def state_request_def set_hall_def Let_def
        split: ElevatorEventType.splits if_splits Option.bind_splits)
qed (use assms in \<open>auto simp: completes_other_def state_request_def Let_def
    split: Option.bind_splits if_splits NetworkEvent.splits\<close>)

lemma window_run:
  assumes "master_run goos run_hra node l ins = Some (node', l')" "buf_ok (recentHACompleteBuffer l)"
    "nid \<in> set (take n (recent_ids (recentHACompleteBuffer l)))" "n + length (filter (completes_other nid) ins) \<le> 4"
  shows "ID node' = ID node \<and> buf_ok (recentHACompleteBuffer l') \<and> nid \<in> set (recent_ids (recentHACompleteBuffer l'))"
  using assms
proof (induction ins arbitrary: node l n)
  case Nil
  then show ?case by (auto dest: in_set_takeD)
next
  case (Cons ti ins)
  obtain now i where ti: "ti = (now, i)" by fastforce
  with Cons.prems(1) obtain n1 l1 out v where
    s: "MasterProgram_step goos run_hra now node l i = Some (n1, l1, out, v)" "master_run goos run_hra n1 l1 ins = Some (node', l')"
    by (auto split: Option.bind_splits if_splits)
  have "n + (if completes_other nid (now, i) then 1 else 0) \<le> 4" using Cons.prems(4) ti by (auto split: if_splits)
  note step = window_step [OF s(1) Cons.prems(2,3) this]
  have "n + (if completes_other nid (now, i) then 1 else 0) + length (filter (completes_other nid) ins) \<le> 4"
    using Cons.prems(4) ti by (auto split: if_splits)
  from Cons.IH [OF s(2) _ _ this] step show ?case by simp
qed

text \<open>A completion is the newest entry of the buffer after it was processed, and a later copy is only acknowledged.\<close>

lemma added_first:
  assumes "ProcessHAComplete g buf ha = Some (g', buf', True)" "buf_ok buf"
  shows "buf_ok buf' \<and> hac_MessageID ha \<in> set (take 1 (recent_ids buf'))"
  using assms add_recent [OF assms(2), of "hac_MessageID ha"]
  by (auto simp: ProcessHAComplete_def split: Option.bind_splits if_splits)

lemma copy_ignored:
  assumes "master_run goos run_hra node l ins = Some (node', l')" "buf_ok (recentHACompleteBuffer l)"
    "hac_MessageID ha \<in> set (take 1 (recent_ids (recentHACompleteBuffer l)))"
    "length (filter (completes_other (hac_MessageID ha)) ins) \<le> 3"
  shows "MasterProgram_step goos run_hra t node' l' (HallAssignmentCompleteRx ha) =
    Some (node', l', [AckTx \<lparr>ack_MessageID = hac_MessageID ha, ack_NodeID = ID node\<rparr>], Stay)"
proof -
  from window_run [OF assms(1-3)] assms(4) have "ID node' = ID node" "buf_ok (recentHACompleteBuffer l')"
    "hac_MessageID ha \<in> set (recent_ids (recentHACompleteBuffer l'))" by auto
  then show ?thesis by (simp add: ProcessHAComplete_def contains_recent Let_def)
qed

section \<open>Properties\<close>

text \<open>However many identifiers have been added to the buffer, it contains exactly the last four of
  them and 0: one fewer than its size, because it wraps one slot early.\<close>

theorem buffer_remembers_last_four:
  "\<exists>buf. fold_opt (\<lambda>nid b. MessageIDBuffer_Add b nid) nids (makeNewMessageIDBuffer bufferSize) = Some buf \<and>
     MessageIDBuffer_Contains buf x = Some (x = 0 \<or> x \<in> set (take 4 (rev nids)))"
proof -
  from recent_after_adds [OF buf_ok_new, of nids] obtain buf where
    b: "fold_opt (\<lambda>nid b. MessageIDBuffer_Add b nid) nids (makeNewMessageIDBuffer bufferSize) = Some buf" "buf_ok buf"
      "recent_ids buf = take 4 (rev nids @ replicate 4 0)" by (auto simp: recent_new)
  then have "set (recent_ids buf) \<subseteq> insert 0 (set (take 4 (rev nids)))"
    by (auto dest: in_set_takeD)
  moreover have "set (take 4 (rev nids)) \<subseteq> set (recent_ids buf)" using b(3) by auto
  ultimately have "x = 0 \<or> x \<in> set (recent_ids buf) \<longleftrightarrow> x = 0 \<or> x \<in> set (take 4 (rev nids))" by auto
  with b(1) contains_recent [OF b(2), of x] show ?thesis by simp
qed

text \<open>A completion clears its hall call once: a message with an identifier not among the last ones
  clears exactly the call it names, any other clears nothing, nothing panics, and delivering the
  same message again right after changes nothing.\<close>

theorem completion_processed_once:
  assumes "wf_mat NUM_FLOORS 2 g" "buf_ok buf" "hall_call_ok (hac_Floor ha) (hac_HallButton ha)"
  shows "\<exists>g' buf' fresh. ProcessHAComplete g buf ha = Some (g', buf', fresh) \<and>
    fresh = (hac_MessageID ha \<noteq> 0 \<and> hac_MessageID ha \<notin> set (recent_ids buf)) \<and>
    g' = (if fresh \<and> hac_HallButton ha \<noteq> ButtonCab then mat_put g (hac_Floor ha) (hac_HallButton ha) False else g) \<and>
    ProcessHAComplete g' buf' ha = Some (g', buf', False)"
proof -
  from complete_process [OF assms(1,2), of ha] assms(3) obtain g' buf' fresh where
    p: "ProcessHAComplete g buf ha = Some (g', buf', fresh)" "MessageIDBuffer_Contains buf' (hac_MessageID ha) = Some True"
      "fresh = (hac_MessageID ha \<noteq> 0 \<and> hac_MessageID ha \<notin> set (recent_ids buf))"
      "g' = (if fresh \<and> hac_HallButton ha \<noteq> ButtonCab then mat_put g (hac_Floor ha) (hac_HallButton ha) False else g)"
    by (fastforce simp: hall_call_ok_def)
  have "ProcessHAComplete x buf' ha = Some (x, buf', False)" for x
    by (simp add: ProcessHAComplete_def p(2))
  with p(1,3,4) show ?thesis by blast
qed

definition all_calls :: hall_matrix where
  "all_calls = replicate 4 [True, True]"

lemma all_calls_wf: "wf_mat NUM_FLOORS 2 all_calls"
  by (simp add: all_calls_def wf_mat_def)

definition served_up_at_2 :: HallAssignmentComplete where
  "served_up_at_2 = \<lparr>hac_Floor = 2, hac_HallButton = ButtonHallUp, hac_MessageID = 77\<rparr>"

theorem completion_processed_once_witness:
  "\<exists>buf'. ProcessHAComplete all_calls (makeNewMessageIDBuffer bufferSize) served_up_at_2 =
     Some (mat_put all_calls 2 ButtonHallUp False, buf', True)"
  using completion_processed_once [OF all_calls_wf buf_ok_new, of served_up_at_2]
  by (auto simp: served_up_at_2_def hall_call_ok_def in_floors_def recent_new)

text \<open>C23: When the master has calls to distribute and learns the active nodes' states, every other node
  the assigner named gets exactly its assignment, the master's own elevator gets its own with the
  current lights, the global hall requests are published unchanged, and the distribution is done.\<close>

theorem assignments_sent:
  assumes "OnlyActiveNodes u" "shouldDistributeHallRequests l"
    and hra: "HRAalgorithm goos run_hra
       (AList.update (nes_NodeID (myElevState l)) (nes_ElevState (myElevState l)) (NodeElevStatesMap u))
       (GlobalHallRequests node) = Some assigned"
  shows "\<exists>l' out. MasterProgram_step goos run_hra now node l (NodeElevStateUpdateRx u) = Some (node, l', out, Stay) \<and>
    \<not> shouldDistributeHallRequests l' \<and> activeConnReq l' = activeConnReq l \<and>
    hd out = ElevLightAndAssignmentUpdateTx
      (case map_of assigned (nes_NodeID (myElevState l)) of
         Some h \<Rightarrow> makeHallAssignmentAndLightMessage h (GlobalHallRequests node) | None \<Rightarrow> zero_update) \<and>
    (\<forall>a. HallAssignmentTx a \<in> set out \<longleftrightarrow>
       nha_MessageID a = 0 \<and> nha_NodeID a \<noteq> nes_NodeID (myElevState l) \<and>
       map_of assigned (nha_NodeID a) = Some (nha_HallAssignment a)) \<and>
    (\<forall>r. GlobalHallRequestTx r \<in> set out \<longleftrightarrow> r = \<lparr>ghr_HallRequests = GlobalHallRequests node\<rparr>)"
proof -
  let ?me = "nes_NodeID (myElevState l)" and ?g = "GlobalHallRequests node"
  let ?r = "assignments_loop ?me ?g assigned zero_result"
  let ?res = "?r\<lparr>GlobalHallRequestMsg := \<lparr>ghr_HallRequests = ?g\<rparr>\<rparr>"
  have c: "ComputeHallAssignments goos run_hra True u (myElevState l) ?g (activeConnReq l) = Some (?res, False)"
    using assms(1) hra by (simp add: ComputeHallAssignments_def)
  have cab: "CabRequestsMsgs ?res = []" by (simp add: assignments_frame)
  note v = HRAalgorithm_valid [OF hra]
  have vo: "valid_map (OtherAssignments ?r)"
    by (rule assignments_frame(2)) simp
  have mine: "MyAssignment ?r = (case map_of assigned ?me of
         Some h \<Rightarrow> makeHallAssignmentAndLightMessage h ?g | None \<Rightarrow> zero_update)"
    using assignments_lookup [OF v, of ?me ?g zero_result] by (simp cong: option.case_cong)
  have others: "(n, a) \<in> set (OtherAssignments ?r) \<longleftrightarrow> n \<noteq> ?me \<and> (\<exists>h. map_of assigned n = Some h \<and>
      a = \<lparr>nha_NodeID = n, nha_HallAssignment = h, nha_MessageID = 0\<rparr>)" for n a
    using assignments_lookup [OF v, of ?me ?g zero_result n] in_map_iff [OF vo, of n a]
    by (auto split: option.splits if_splits)
  have sent: "(\<exists>n. (n, a) \<in> set (OtherAssignments ?r)) \<longleftrightarrow> nha_MessageID a = 0 \<and> nha_NodeID a \<noteq> ?me \<and>
       map_of assigned (nha_NodeID a) = Some (nha_HallAssignment a)" for a
    unfolding others by (cases a) auto
  let ?out = "[ElevLightAndAssignmentUpdateTx (MyAssignment ?r)] @
     map (\<lambda>(_, a). HallAssignmentTx a) (OtherAssignments ?r) @
     [GlobalHallRequestTx \<lparr>ghr_HallRequests = ?g\<rparr>, ElevLightAndAssignmentUpdateTx (makeLightMessage ?g)]"
  have "MasterProgram_step goos run_hra now node l (NodeElevStateUpdateRx u) =
      Some (node, l\<lparr>shouldDistributeHallRequests := False\<rparr>, ?out, Stay)"
    using assms(2) c cab by simp
  moreover have "HallAssignmentTx a \<in> set ?out \<longleftrightarrow> (\<exists>n. (n, a) \<in> set (OtherAssignments ?r))" for a
    by (auto intro: rev_image_eqI)
  moreover have "GlobalHallRequestTx r \<in> set ?out \<longleftrightarrow> r = \<lparr>ghr_HallRequests = ?g\<rparr>" for r by auto
  ultimately show ?thesis using mine sent by (intro exI [of _ "l\<lparr>shouldDistributeHallRequests := False\<rparr>"] exI [of _ ?out]) simp
qed

text \<open>A master that has seen its own elevator and has every call to distribute, and a report of one
  other active node.\<close>

definition busy_node :: NodeData where
  "busy_node = (MakeNode 1)\<lparr>GlobalHallRequests := all_calls\<rparr>"

definition busy_master :: master where
  "busy_master = (fst (MasterProgram_entry busy_node))
     \<lparr>myElevState := \<lparr>nes_NodeID = 1, nes_ElevState = zero_ElevatorState\<rparr>, shouldDistributeHallRequests := True\<rparr>"

definition node_2_active :: ElevStateUpdate where
  "node_2_active = makeActiveElevStatesUpdateMessage [(2, zero_ElevatorState)]"

lemma int64_small: "int64 1" "int64 2"
  by (simp_all add: int64_def)

lemma two_nodes_assigned:
  "HRAalgorithm ''linux'' everything_to_all [(2, zero_ElevatorState), (1, zero_ElevatorState)] g = Some [(2, g), (1, g)]"
  using int64_small by (simp add: HRAalgorithm_def hra_executable_def everything_to_all_def Let_def show_int_eq_iff Atoi_key)

theorem assignments_sent_witness:
  "\<exists>l' out. MasterProgram_step ''linux'' everything_to_all 0 busy_node busy_master (NodeElevStateUpdateRx node_2_active) =
      Some (busy_node, l', out, Stay) \<and>
    HallAssignmentTx \<lparr>nha_NodeID = 2, nha_HallAssignment = all_calls, nha_MessageID = 0\<rparr> \<in> set out"
proof -
  have hra: "HRAalgorithm ''linux'' everything_to_all
     (AList.update (nes_NodeID (myElevState busy_master)) (nes_ElevState (myElevState busy_master)) (NodeElevStatesMap node_2_active))
     (GlobalHallRequests busy_node) = Some [(2, all_calls), (1, all_calls)]"
    by (simp add: busy_master_def node_2_active_def makeActiveElevStatesUpdateMessage_def two_nodes_assigned busy_node_def)
  have "OnlyActiveNodes node_2_active" "shouldDistributeHallRequests busy_master"
    by (simp_all add: node_2_active_def makeActiveElevStatesUpdateMessage_def busy_master_def)
  from assignments_sent [OF this hra, of 0] show ?thesis
    by (fastforce simp: busy_master_def simp del: MasterProgram_step.simps)
qed

text \<open>Told of all known nodes, the master answers every connection request it has collected with
  the cab calls it knows of that node, or none if it knows nothing of it, and forgets the requests.\<close>

theorem cab_calls_restored:
  assumes "valid_map (activeConnReq l)" "\<not> OnlyActiveNodes u"
  shows "\<exists>l' out. MasterProgram_step goos run_hra now node l (NodeElevStateUpdateRx u) = Some (node, l', out, Stay) \<and>
    activeConnReq l' = [] \<and>
    (\<forall>info. CabRequestInfoTx info \<in> set out \<longleftrightarrow>
       map_of (activeConnReq l) (cri_ReceiverNodeID info) \<noteq> None \<and>
       cri_CabRequest info = (case map_of (NodeElevStatesMap u) (cri_ReceiverNodeID info) of
         Some st \<Rightarrow> es_CabRequests st | None \<Rightarrow> replicate (nat NUM_FLOORS) False))"
proof -
  let ?cabs = "cab_requests_loop (NodeElevStatesMap u) (activeConnReq l) []"
  have c: "ComputeHallAssignments goos run_hra (shouldDistributeHallRequests l) u (myElevState l)
      (GlobalHallRequests node) (activeConnReq l) =
      Some (zero_result\<lparr>CabRequestsMsgs := ?cabs\<rparr>, shouldDistributeHallRequests l)"
    using assms(2) by (simp add: ComputeHallAssignments_def)
  have v: "valid_map ?cabs" by (rule cab_requests_valid) simp
  have look: "map_of ?cabs n = map_option (\<lambda>_. \<lparr>cri_CabRequest = (case map_of (NodeElevStatesMap u) n of
         Some st \<Rightarrow> es_CabRequests st | None \<Rightarrow> replicate (nat NUM_FLOORS) False), cri_ReceiverNodeID = n\<rparr>)
       (map_of (activeConnReq l) n)" for n
    using cab_requests_lookup [OF assms(1), of "NodeElevStatesMap u" "[]" n] by (simp split: option.splits)
  have info: "(\<exists>n. (n, info) \<in> set ?cabs) \<longleftrightarrow>
       map_of (activeConnReq l) (cri_ReceiverNodeID info) \<noteq> None \<and>
       cri_CabRequest info = (case map_of (NodeElevStatesMap u) (cri_ReceiverNodeID info) of
         Some st \<Rightarrow> es_CabRequests st | None \<Rightarrow> replicate (nat NUM_FLOORS) False)" for info
    unfolding in_map_iff [OF v] look by (cases info) auto
  have gone: "fold (\<lambda>(_, info). AList.delete (cri_ReceiverNodeID info)) ?cabs (activeConnReq l) = []"
  proof -
    have "map_of (fold (\<lambda>(_, info). AList.delete (cri_ReceiverNodeID info)) cs m) n =
        (if n \<in> (\<lambda>(_, info). cri_ReceiverNodeID info) ` set cs then None else map_of m n)"
      if "valid_map m" for cs :: "(int, CabRequestInfo) gomap" and m :: "(int, ConnectionReq) gomap" and n
      using that by (induction cs arbitrary: m) (auto simp: gomap.lookup_remove gomap.valid_remove)
    from this [OF assms(1), of ?cabs]
    have f: "map_of (fold (\<lambda>(_, info). AList.delete (cri_ReceiverNodeID info)) ?cabs (activeConnReq l)) n =
        (if n \<in> (\<lambda>(_, info). cri_ReceiverNodeID info) ` set ?cabs then None else map_of (activeConnReq l) n)" for n .
    have "map_of (fold (\<lambda>(_, info). AList.delete (cri_ReceiverNodeID info)) ?cabs (activeConnReq l)) n = None" for n
    proof (cases "map_of (activeConnReq l) n")
      case (Some q)
      then obtain i where i: "map_of ?cabs n = Some i" "cri_ReceiverNodeID i = n" using look [of n] by auto
      then have "(n, i) \<in> set ?cabs" using in_map_iff [OF v] by blast
      with i(2) have "n \<in> (\<lambda>(_, info). cri_ReceiverNodeID info) ` set ?cabs" by (force intro: image_eqI)
      then show ?thesis unfolding f by simp
    qed (simp add: f)
    then have "map_of (fold (\<lambda>(_, info). AList.delete (cri_ReceiverNodeID info)) ?cabs (activeConnReq l)) = Map.empty" by blast
    then show ?thesis by simp
  qed
  let ?out = "[ElevLightAndAssignmentUpdateTx zero_update,
     GlobalHallRequestTx \<lparr>ghr_HallRequests = zero_mat NUM_FLOORS 2\<rparr>,
     ElevLightAndAssignmentUpdateTx (makeLightMessage (GlobalHallRequests node))] @
     map (\<lambda>(_, info). CabRequestInfoTx info) ?cabs"
  have "MasterProgram_step goos run_hra now node l (NodeElevStateUpdateRx u) =
      Some (node, l\<lparr>activeConnReq := []\<rparr>, ?out, Stay)"
    using c gone by simp
  moreover have "CabRequestInfoTx i \<in> set ?out \<longleftrightarrow> (\<exists>n. (n, i) \<in> set ?cabs)" for i
    by (auto intro: rev_image_eqI)
  ultimately show ?thesis using info by (intro exI [of _ "l\<lparr>activeConnReq := []\<rparr>"] exI [of _ ?out]) simp
qed

definition asked_master :: master where
  "asked_master = busy_master\<lparr>activeConnReq :=
     [(2, \<lparr>cr_TOLC = 0, cr_NodeID = 2, cr_MessageID = 5\<rparr>), (3, \<lparr>cr_TOLC = 0, cr_NodeID = 3, cr_MessageID = 6\<rparr>)]\<rparr>"

definition node_2_known :: ElevStateUpdate where
  "node_2_known = makeAllElevStatesUpdateMessage
     [(2, zero_ElevatorState\<lparr>es_CabRequests := [True, False, False, True]\<rparr>)]"

theorem cab_calls_restored_witness:
  "\<exists>l' out. MasterProgram_step ''linux'' everything_to_all 0 busy_node asked_master (NodeElevStateUpdateRx node_2_known) =
      Some (busy_node, l', out, Stay) \<and>
    CabRequestInfoTx \<lparr>cri_CabRequest = [True, False, False, True], cri_ReceiverNodeID = 2\<rparr> \<in> set out \<and>
    CabRequestInfoTx \<lparr>cri_CabRequest = replicate (nat NUM_FLOORS) False, cri_ReceiverNodeID = 3\<rparr> \<in> set out"
proof -
  have "valid_map (activeConnReq asked_master)" "\<not> OnlyActiveNodes node_2_known"
    by (simp_all add: asked_master_def valid_map_def node_2_known_def makeAllElevStatesUpdateMessage_def)
  from cab_calls_restored [OF this, of "''linux''" everything_to_all 0 busy_node] show ?thesis
    by (fastforce simp: asked_master_def node_2_known_def makeAllElevStatesUpdateMessage_def simp del: MasterProgram_step.simps)
qed

text \<open>A hall call that reaches the master within the state request interval of its last request is
  recorded and published, but the master asks nobody for states, so nothing it sends will lead to
  the call being assigned; the same call later asks for the active nodes.\<close>

theorem throttled_call_not_distributed:
  assumes "wf_mat NUM_FLOORS 2 (GlobalHallRequests node)" "in_floors f" "b = ButtonHallUp \<or> b = ButtonHallDown"
  defines "node' \<equiv> node\<lparr>GlobalHallRequests := mat_put (GlobalHallRequests node) f b True\<rparr>"
  shows "MasterProgram_step goos run_hra now node l (NewHallReqRx \<lparr>nhr_Floor = f, nhr_HallButton = b\<rparr>) =
    (if Since now (lastStateRequest l) \<le> STATE_REQUEST_INTERVAL
     then Some (node', l\<lparr>shouldDistributeHallRequests := True\<rparr>, publish node', Stay)
     else Some (node', l\<lparr>shouldDistributeHallRequests := True, lastStateRequest := now\<rparr>,
                publish node' @ [commandToServerTx ''getActiveElevStates''], Stay))"
  using new_request_process [OF assms(1-3)]
  by (simp add: state_request_def node'_def not_le Let_def)

theorem throttled_call_not_distributed_witness:
  "\<exists>l' out. MasterProgram_step ''linux'' everything_to_all (Instant 50000000) busy_node (busy_master\<lparr>lastStateRequest := 0\<rparr>)
      (NewHallReqRx \<lparr>nhr_Floor = 1, nhr_HallButton = ButtonHallUp\<rparr>) =
      Some (busy_node\<lparr>GlobalHallRequests := mat_put all_calls 1 ButtonHallUp True\<rparr>, l', out, Stay) \<and>
    commandToServerTx ''getActiveElevStates'' \<notin> set out"
proof -
  have w: "wf_mat NUM_FLOORS 2 (GlobalHallRequests busy_node)" by (simp add: busy_node_def all_calls_wf)
  show ?thesis
    using throttled_call_not_distributed [OF w, of 1 ButtonHallUp "''linux''" everything_to_all "Instant 50000000" "busy_master\<lparr>lastStateRequest := 0\<rparr>"]
    by (simp add: in_floors_def Since_def Sub_def zero_Time_def durations publish_def busy_node_def del: MasterProgram_step.simps)
qed

text \<open>A hall request or completion whose floor or button is outside the panel makes the master
  panic: its handlers index the global hall requests with the message's values unchecked.\<close>

theorem bad_message_panics:
  assumes "master_inv node l" "\<not> (in_floors f \<and> 0 \<le> b \<and> b < 2)" "b \<noteq> ButtonCab"
    and "k \<noteq> 0" "k \<notin> set (recent_ids (recentHACompleteBuffer l))"
  shows "MasterProgram_step goos run_hra now node l (NewHallReqRx \<lparr>nhr_Floor = f, nhr_HallButton = b\<rparr>) = None \<and>
    MasterProgram_step goos run_hra now node l
      (HallAssignmentCompleteRx \<lparr>hac_Floor = f, hac_HallButton = b, hac_MessageID = k\<rparr>) = None"
proof -
  have wf: "wf_mat NUM_FLOORS 2 (GlobalHallRequests node)" and b: "buf_ok (recentHACompleteBuffer l)"
    using assms(1) by (simp_all add: master_inv_def wf_node_def)
  have "mat_set (GlobalHallRequests node) f b v = None" for v
    using mat_set_outrange [OF wf] assms(2) by (simp add: in_floors_def)
  then show ?thesis
    using assms(3-5) contains_recent [OF b] by (simp add: ProcessNewHallRequest_def ProcessHAComplete_def)
qed

theorem bad_message_panics_witness:
  "MasterProgram_step ''linux'' everything_to_all 0 busy_node (fst (MasterProgram_entry busy_node))
     (NewHallReqRx \<lparr>nhr_Floor = 4, nhr_HallButton = ButtonHallUp\<rparr>) = None"
proof -
  have "wf_node busy_node" by (simp add: wf_node_def busy_node_def all_calls_wf)
  from bad_message_panics [OF master_inv_entry [OF this], of 4 ButtonHallUp 9 "''linux''" everything_to_all 0]
  show ?thesis by (simp add: in_floors_def MasterProgram_entry_def recent_new del: MasterProgram_step.simps)
qed

end
