(* ===== verification/Node_Main.thy ===== *)
theory Node_Main
  imports Master_Node Node_Programs
begin

text \<open>
  The node's main loop, main.go: it runs the program of the current state until that returns
  the next state. A step of the loop is one step of the current program, followed, when the
  program leaves, by its exit code, the change of \<open>State\<close> and the entry code of the next.
\<close>

section \<open>The main loop\<close>

datatype program = InInactive | InDisconnected disconnected | InMaster master | InSlave slave

fun state_of_program :: "program \<Rightarrow> nodestate" where
  "state_of_program InInactive = Inactive"
| "state_of_program (InDisconnected d) = Disconnected"
| "state_of_program (InMaster l) = Master"
| "state_of_program (InSlave l) = Slave"

text \<open>\<open>rnd\<close> is the random part of the identifier a connection request gets.\<close>

fun program_entry :: "uint64 \<Rightarrow> NodeData \<Rightarrow> nodestate \<Rightarrow> program \<times> node_out list" where
  "program_entry rnd node Inactive = (InInactive, [])"
| "program_entry rnd node Disconnected = (InDisconnected (DisconnectedProgram_entry node rnd), [])"
| "program_entry rnd node Master = (let (l, out) = MasterProgram_entry node in (InMaster l, out))"
| "program_entry rnd node Slave = (let (l, out) = SlaveProgram_entry in (InSlave l, out))"

fun program_exit :: "Time \<Rightarrow> NodeData \<Rightarrow> program \<Rightarrow> NodeData \<times> node_out list" where
  "program_exit now node (InMaster l) = MasterProgram_exit now node"
| "program_exit now node (InSlave l) = (node, SlaveProgram_exit)"
| "program_exit now node _ = (node, [])"

fun program_step :: "string \<Rightarrow> hra_runner \<Rightarrow> Time \<Rightarrow> NodeData \<Rightarrow> program \<Rightarrow> node_in \<Rightarrow>
    (NodeData \<times> program \<times> node_out list \<times> verdict) option" where
  "program_step goos run_hra now node InInactive i = Some (node, InInactive, [], InactiveProgram_step node i)"
| "program_step goos run_hra now node (InDisconnected d) i = do {
     (node', d', out, v) \<leftarrow> DisconnectedProgram_step node d i;
     Some (node', InDisconnected d', out, v)
   }"
| "program_step goos run_hra now node (InMaster l) i = do {
     (node', l', out, v) \<leftarrow> MasterProgram_step goos run_hra now node l i;
     Some (node', InMaster l', out, v)
   }"
| "program_step goos run_hra now node (InSlave l) i =
     (let (node', l', out, v) = SlaveProgram_step now node l i in Some (node', InSlave l', out, v))"

definition main_step :: "string \<Rightarrow> hra_runner \<Rightarrow> Time \<Rightarrow> uint64 \<Rightarrow> NodeData \<times> program \<Rightarrow> node_in \<Rightarrow>
    ((NodeData \<times> program) \<times> node_out list) option" where
  "main_step goos run_hra now rnd s i = do {
     (node, p, out, v) \<leftarrow> program_step goos run_hra now (fst s) (snd s) i;
     Some (case v of
             Stay \<Rightarrow> ((node, p), out)
           | Leave st \<Rightarrow>
               let (node, bye) = program_exit now node p;
                   node = node\<lparr>State := st\<rparr>;
                   (p', hello) = program_entry rnd node st
               in ((node, p'), out @ bye @ hello))
   }"

definition main_init :: "int \<Rightarrow> NodeData \<times> program" where
  "main_init nid = ((MakeNode nid)\<lparr>State := Inactive\<rparr>, InInactive)"

text \<open>
  The command line without the program's name: the elevator's address, the two ports and the
  node's identifier; \<open>None\<close> is the panic when arguments are missing. The errors of \<open>Atoi\<close> are
  ignored, so a malformed number counts as 0.
\<close>

definition command_line :: "string list \<Rightarrow> (string \<times> int \<times> int \<times> int) option" where
  "command_line argsWithoutProg = do {
     port \<leftarrow> arr_get argsWithoutProg 0;
     bcastPort \<leftarrow> arr_get argsWithoutProg 1;
     receiverPort \<leftarrow> arr_get argsWithoutProg 2;
     nid \<leftarrow> arr_get argsWithoutProg 3;
     Some (''localhost:'' @ port, fst (Atoi bcastPort), fst (Atoi receiverPort), fst (Atoi nid))
   }"

lemma command_line_id:
  "int64 n \<Longrightarrow> command_line [port, b, r, show_int n] = Some (''localhost:'' @ port, fst (Atoi b), fst (Atoi r), n)"
  by (simp add: command_line_def arr_get_def numeral_nat Atoi_key)

text \<open>
  Every program receives from the ten channels; a timer case needs its timer: the ticker and
  the decision timer run while disconnected, the master timer once armed in the slave.
\<close>

fun receives :: "program \<Rightarrow> node_in \<Rightarrow> bool" where
  "receives (InDisconnected d) ConnectionRequestTick = True"
| "receives (InDisconnected d) DecisionTimeout = True"
| "receives (InSlave l) MasterConnectionTimeout = masterTimerArmed l"
| "receives p ConnectionRequestTick = False"
| "receives p DecisionTimeout = False"
| "receives p MasterConnectionTimeout = False"
| "receives p _ = True"

text \<open>Reachable states, with everything the node has sent, in order.\<close>

inductive main_run :: "string \<Rightarrow> hra_runner \<Rightarrow> int \<Rightarrow> node_out list \<Rightarrow> NodeData \<times> program \<Rightarrow> bool"
  for goos run_hra nid where
  main_start: "main_run goos run_hra nid [] (main_init nid)"
| main_next: "main_run goos run_hra nid sent s \<Longrightarrow> wf_node_in i \<Longrightarrow> receives (snd s) i \<Longrightarrow>
    main_step goos run_hra now rnd s i = Some (s', out) \<Longrightarrow> main_run goos run_hra nid (sent @ out) s'"

section \<open>The contract of a program\<close>

text \<open>
  A program handles every well-formed input without panic, keeps its invariant and the node's
  identifier, and leaves only to the states in \<open>nexts\<close>.
\<close>

locale node_program =
  fixes step :: "Time \<Rightarrow> NodeData \<Rightarrow> 'l \<Rightarrow> node_in \<Rightarrow> (NodeData \<times> 'l \<times> node_out list \<times> verdict) option"
    and ok :: "NodeData \<Rightarrow> 'l \<Rightarrow> bool"
    and nexts :: "nodestate set"
  assumes step_ok: "ok n l \<Longrightarrow> wf_node_in i \<Longrightarrow>
      \<exists>n' l' out v. step now n l i = Some (n', l', out, v) \<and> ok n' l' \<and> ID n' = ID n \<and>
        (v = Stay \<or> v \<in> Leave ` nexts)"
    and ok_wf: "ok n l \<Longrightarrow> wf_node n"
begin

lemma step_Some:
  assumes "ok n l" "wf_node_in i" "step now n l i = Some (n', l', out, v)"
  shows "ok n' l'" "ID n' = ID n" "v = Leave st \<Longrightarrow> st \<in> nexts" "wf_node n'"
  using step_ok [OF assms(1,2), of now] assms(3) ok_wf by auto

text \<open>The \<open>for\<close> loop around the \<open>select\<close>: it ends at the first input that leaves.\<close>

fun loop :: "NodeData \<Rightarrow> 'l \<Rightarrow> (Time \<times> node_in) list \<Rightarrow> (NodeData \<times> 'l \<times> nodestate option) option" where
  "loop n l [] = Some (n, l, None)"
| "loop n l ((now, i) # ins) = do {
     (n', l', out, v) \<leftarrow> step now n l i;
     case v of Stay \<Rightarrow> loop n' l' ins | Leave st \<Rightarrow> Some (n', l', Some st)
   }"

lemma loop_ok:
  assumes "ok n l" "list_all (\<lambda>(_, i). wf_node_in i) ins"
  shows "\<exists>n' l' r. loop n l ins = Some (n', l', r) \<and> ok n' l' \<and> ID n' = ID n \<and> (\<forall>st. r = Some st \<longrightarrow> st \<in> nexts)"
  using assms
proof (induction ins arbitrary: n l)
  case Nil
  then show ?case by simp
next
  case (Cons ti ins)
  obtain now i where ti: "ti = (now, i)" by fastforce
  with Cons.prems have i: "wf_node_in i" and rest: "list_all (\<lambda>(_, i). wf_node_in i) ins" by simp_all
  from step_ok [OF Cons.prems(1) i, of now] obtain n1 l1 out v where
    s: "step now n l i = Some (n1, l1, out, v)" "ok n1 l1" "ID n1 = ID n" "v = Stay \<or> v \<in> Leave ` nexts" by blast
  show ?case
  proof (cases v)
    case Stay
    with Cons.IH [OF s(2) rest] s(1,3) show ?thesis by (simp add: ti)
  next
    case (Leave st)
    with s show ?thesis by (auto simp: ti)
  qed
qed

end

definition disconnected_inv :: "NodeData \<Rightarrow> disconnected \<Rightarrow> bool" where
  "disconnected_inv node d \<longleftrightarrow> wf_node node \<and> valid_map (incomingConnRequests d) \<and>
     ID node \<notin> map_keys (incomingConnRequests d) \<and>
     cr_NodeID (myConnReq d) = ID node \<and> cr_TOLC (myConnReq d) = TOLC node"

lemma disconnected_inv_entry: "wf_node node \<Longrightarrow> disconnected_inv node (DisconnectedProgram_entry node rnd)"
  by (simp add: disconnected_inv_def DisconnectedProgram_entry_def map_keys_def)

lemma disconnected_step_ok:
  assumes inv: "disconnected_inv node d" and i: "wf_node_in i"
  shows "\<exists>node' d' out v. DisconnectedProgram_step node d i = Some (node', d', out, v) \<and>
    disconnected_inv node' d' \<and> ID node' = ID node \<and> (v = Stay \<or> v \<in> Leave ` {Inactive, Master, Slave})"
proof (cases i)
  case (ElevatorEventRx e)
  have wf: "wf_mat NUM_FLOORS 2 (GlobalHallRequests node)" using inv by (simp add: disconnected_inv_def wf_node_def)
  show ?thesis
    using inv i mat_set_inrange [OF wf, of "be_Floor (ee_ButtonEvent e)" "be_Button (ee_ButtonEvent e)" False]
    by (auto simp: ElevatorEventRx wf_node_in_def hall_call_ok_def in_floors_def disconnected_inv_def wf_node_def
        wf_intros split: ElevatorEventType.splits)
next
  case (ConnectionReqRx q)
  with inv show ?thesis by (auto simp: disconnected_inv_def map_laws)
qed (use inv in auto)

interpretation inactive: node_program "\<lambda>_ n (_::unit) i. Some (n, (), [], InactiveProgram_step n i)"
  "\<lambda>n _. wf_node n" "{Disconnected}"
proof unfold_locales
  fix n :: NodeData and l :: unit and i now
  assume "wf_node n" "wf_node_in i"
  moreover have "InactiveProgram_step n i = Stay \<or> InactiveProgram_step n i \<in> Leave ` {Disconnected}"
    by (cases i) auto
  ultimately show "\<exists>n' l' out v. Some (n, (), [], InactiveProgram_step n i) = Some (n', l', out, v) \<and>
      wf_node n' \<and> ID n' = ID n \<and> (v = Stay \<or> v \<in> Leave ` {Disconnected})" by auto
qed

interpretation disconnected: node_program "\<lambda>_. DisconnectedProgram_step" disconnected_inv "{Inactive, Master, Slave}"
proof unfold_locales
  fix n d i and now :: Time assume "disconnected_inv n d" "wf_node_in i"
  then show "\<exists>n' l' out v. DisconnectedProgram_step n d i = Some (n', l', out, v) \<and> disconnected_inv n' l' \<and>
      ID n' = ID n \<and> (v = Stay \<or> v \<in> Leave ` {Inactive, Master, Slave})" by (rule disconnected_step_ok)
qed (simp add: disconnected_inv_def)

interpretation slave: node_program "\<lambda>now n l i. Some (SlaveProgram_step now n l i)" "\<lambda>n _. wf_node n" "{Inactive, Disconnected}"
proof unfold_locales
  fix n l i now assume n: "wf_node n" and i: "wf_node_in i"
  obtain n' l' out v where s: "SlaveProgram_step now n l i = (n', l', out, v)" by (cases "SlaveProgram_step now n l i")
  have "\<And>g. i = GlobalHallRequestRx g \<Longrightarrow> wf_mat NUM_FLOORS 2 (ghr_HallRequests g)"
    using i by (simp add: wf_node_in_def)
  with slave_wf [OF n, of i now l] s have "wf_node n'" by simp
  moreover have "v = Stay \<or> v \<in> Leave ` {Inactive, Disconnected}"
    using slave_leaves [of now n l i] s by (cases v) auto
  moreover have "ID n' = ID n"
    using s by (cases i) (auto simp: Let_def split: ElevatorEventType.splits if_splits)
  ultimately show "\<exists>n' l' out v. Some (SlaveProgram_step now n l i) = Some (n', l', out, v) \<and> wf_node n' \<and>
      ID n' = ID n \<and> (v = Stay \<or> v \<in> Leave ` {Inactive, Disconnected})" using s by blast
qed

lemma master_program:
  assumes "hra_executable goos \<noteq> None"
  shows "node_program (MasterProgram_step goos run_hra) master_inv {Inactive, Disconnected}"
proof unfold_locales
  fix n l i now assume "master_inv n l" "wf_node_in i"
  from master_step_ok [OF this(1) assms this(2), of run_hra now]
  show "\<exists>n' l' out v. MasterProgram_step goos run_hra now n l i = Some (n', l', out, v) \<and> master_inv n' l' \<and>
      ID n' = ID n \<and> (v = Stay \<or> v \<in> Leave ` {Inactive, Disconnected})" by auto
qed (simp add: master_inv_def)

interpretation master: node_program "MasterProgram_step ''linux'' run_hra" master_inv "{Inactive, Disconnected}" for run_hra
  by (rule master_program) (simp add: hra_executable_def)

section \<open>The invariant of the main loop\<close>

fun program_ok :: "NodeData \<Rightarrow> program \<Rightarrow> bool" where
  "program_ok node InInactive = wf_node node"
| "program_ok node (InDisconnected d) = disconnected_inv node d"
| "program_ok node (InMaster l) = master_inv node l"
| "program_ok node (InSlave l) = wf_node node"

text \<open>The states each program leaves to.\<close>

fun next_states :: "nodestate \<Rightarrow> nodestate set" where
  "next_states Inactive = {Disconnected}"
| "next_states Disconnected = {Inactive, Master, Slave}"
| "next_states Master = {Inactive, Disconnected}"
| "next_states Slave = {Inactive, Disconnected}"

lemma program_ok_wf: "program_ok node p \<Longrightarrow> wf_node node"
  by (cases p) (auto simp: disconnected_inv_def master_inv_def)

lemma wf_node_State [simp]: "wf_node (node\<lparr>State := st\<rparr>) = wf_node node"
  "wf_node (node\<lparr>TOLC := t\<rparr>) = wf_node node"
  by (simp_all add: wf_node_def)

lemma program_entry_ok:
  assumes "wf_node node"
  shows "program_ok node (fst (program_entry rnd node st)) \<and> state_of_program (fst (program_entry rnd node st)) = st"
  using assms disconnected_inv_entry [OF assms] master_inv_entry [OF assms]
  by (cases st) (auto simp: split_beta)

lemma program_exit_ok: "wf_node node \<Longrightarrow> wf_node (fst (program_exit now node p)) \<and> ID (fst (program_exit now node p)) = ID node"
  by (cases p) (auto simp: MasterProgram_exit_def)

lemma program_step_ok:
  assumes ok: "program_ok node p" and i: "wf_node_in i" and os: "hra_executable goos \<noteq> None"
  shows "\<exists>node' p' out v. program_step goos run_hra now node p i = Some (node', p', out, v) \<and> program_ok node' p' \<and>
    ID node' = ID node \<and> state_of_program p' = state_of_program p \<and>
    (v = Stay \<or> v \<in> Leave ` next_states (state_of_program p))"
proof (cases p)
  case InInactive
  with inactive.step_ok [of node i] ok i show ?thesis by simp
next
  case (InDisconnected d)
  with disconnected.step_ok [of node d i] ok i show ?thesis by fastforce
next
  case (InMaster l)
  with node_program.step_ok [OF master_program [OF os, of run_hra], of node l i now] ok i show ?thesis by fastforce
next
  case (InSlave l)
  with slave.step_ok [of node i now l] ok i show ?thesis by fastforce
qed

definition main_ok :: "NodeData \<times> program \<Rightarrow> bool" where
  "main_ok s \<longleftrightarrow> State (fst s) = state_of_program (snd s) \<and> program_ok (fst s) (snd s)"

lemma main_ok_init: "main_ok (main_init nid)"
  by (simp add: main_ok_def main_init_def wf_MakeNode)

lemma program_step_State:
  "program_step goos run_hra now node p i = Some (node', p', out, v) \<Longrightarrow> State node' = State node"
proof (induction goos run_hra now node p i rule: program_step.induct)
  case (2 goos run_hra now node d i)
  then show ?case
    by (cases i) (auto split: Option.bind_splits ElevatorEventType.splits if_splits)
next
  case (3 goos run_hra now node l i)
  then show ?case
    by (cases i) (auto simp: master_after_event_def set_hall_def Let_def
        split: Option.bind_splits ElevatorEventType.splits NetworkEvent.splits if_splits prod.splits)
next
  case (4 goos run_hra now node l i)
  then show ?case
    by (cases i) (auto simp: Let_def split: ElevatorEventType.splits if_splits prod.splits)
qed simp

lemma main_step_ok:
  assumes ok: "main_ok s" and i: "wf_node_in i" and os: "hra_executable goos \<noteq> None"
  shows "\<exists>s' out. main_step goos run_hra now rnd s i = Some (s', out) \<and> main_ok s' \<and> ID (fst s') = ID (fst s) \<and>
    (State (fst s') = State (fst s) \<or> State (fst s') \<in> next_states (State (fst s)))"
proof -
  obtain node p where s: "s = (node, p)" by fastforce
  with ok have ok': "State node = state_of_program p" "program_ok node p" by (simp_all add: main_ok_def)
  from program_step_ok [OF ok'(2) i os, of run_hra now] obtain n1 p1 out v where
    st: "program_step goos run_hra now node p i = Some (n1, p1, out, v)" "program_ok n1 p1" "ID n1 = ID node"
      "state_of_program p1 = state_of_program p" "v = Stay \<or> v \<in> Leave ` next_states (state_of_program p)" by blast
  show ?thesis
  proof (cases v)
    case Stay
    with st ok' program_step_State [OF st(1)] show ?thesis by (simp add: main_step_def s main_ok_def)
  next
    case (Leave nx)
    obtain n2 bye where ex: "program_exit now n1 p1 = (n2, bye)" by fastforce
    obtain p3 hello where en: "program_entry rnd (n2\<lparr>State := nx\<rparr>) nx = (p3, hello)" by fastforce
    have n2: "wf_node n2" "ID n2 = ID n1"
      using program_exit_ok [OF program_ok_wf [OF st(2)], of now p1] ex by simp_all
    then have "program_ok (n2\<lparr>State := nx\<rparr>) p3" "state_of_program p3 = nx"
      using program_entry_ok [of "n2\<lparr>State := nx\<rparr>" rnd nx] en by simp_all
    with Leave st ok' ex en n2 show ?thesis by (auto simp: main_step_def s main_ok_def)
  qed
qed

lemma main_run_ok:
  assumes "main_run goos run_hra nid sent s" "hra_executable goos \<noteq> None"
  shows "main_ok s \<and> ID (fst s) = nid"
  using assms
proof (induction rule: main_run.induct)
  case main_start
  show ?case by (simp add: main_ok_init) (simp add: main_init_def MakeNode_def)
next
  case (main_next sent s i now rnd s' out)
  with main_step_ok [of s i goos run_hra now rnd] show ?case by auto
qed

section \<open>The switches of the transmitters\<close>

text \<open>What the enable messages sent so far leave the three transmitters at.\<close>

record switches =
  global_on :: bool
  assignments_on :: bool
  completes_on :: bool

fun switch :: "node_out \<Rightarrow> switches \<Rightarrow> switches" where
  "switch (GlobalHallReqTransmitEnableTx b) w = w\<lparr>global_on := b\<rparr>"
| "switch (HallRequestAssignerTransmitEnableTx b) w = w\<lparr>assignments_on := b\<rparr>"
| "switch (HallAssignmentCompleteTransmitEnableTx b) w = w\<lparr>completes_on := b\<rparr>"
| "switch _ w = w"

definition all_off :: switches where
  "all_off = \<lparr>global_on = False, assignments_on = False, completes_on = False\<rparr>"

definition switches_for :: "nodestate \<Rightarrow> switches" where
  "switches_for st = \<lparr>global_on = (st = Master), assignments_on = (st = Master), completes_on = (st = Slave)\<rparr>"

lemma switch_maps [simp]:
  "fold switch (map (\<lambda>(_, a). HallAssignmentTx a) xs) w = w"
  "fold switch (map (\<lambda>(_, a). CabRequestInfoTx a) ys) w = w"
  by (induction xs) (auto, induction ys, auto)

lemma program_step_switch:
  "program_step goos run_hra now node p i = Some (node', p', out, v) \<Longrightarrow> fold switch out w = w"
proof (induction goos run_hra now node p i rule: program_step.induct)
  case (2 goos run_hra now node d i)
  then show ?case
    by (cases i) (auto split: Option.bind_splits ElevatorEventType.splits if_splits)
next
  case (3 goos run_hra now node l i)
  then show ?case
    by (cases i) (auto simp: master_after_event_def state_request_def publish_def Let_def
        split: Option.bind_splits ElevatorEventType.splits NetworkEvent.splits if_splits prod.splits)
next
  case (4 goos run_hra now node l i)
  then show ?case
    by (cases i) (auto simp: Let_def split: ElevatorEventType.splits if_splits prod.splits)
qed simp

lemma exit_switch:
  "fold switch (snd (program_exit now node p)) (switches_for (state_of_program p)) = all_off"
  by (cases p) (auto simp: MasterProgram_exit_def SlaveProgram_exit_def switches_for_def all_off_def)

lemma entry_switch: "fold switch (snd (program_entry rnd node st)) all_off = switches_for st"
  by (cases st) (auto simp: MasterProgram_entry_def SlaveProgram_entry_def switches_for_def all_off_def)

lemma program_step_program:
  "program_step goos run_hra now node p i = Some (node', p', out, v) \<Longrightarrow> state_of_program p' = state_of_program p"
  by (induction goos run_hra now node p i rule: program_step.induct)
    (auto simp: Let_def split: Option.bind_splits prod.splits)

lemma main_step_switch:
  assumes "main_step goos run_hra now rnd s i = Some (s', out)"
  shows "fold switch out (switches_for (state_of_program (snd s))) = switches_for (state_of_program (snd s'))"
proof -
  from assms obtain n1 p1 o1 v where
    st: "program_step goos run_hra now (fst s) (snd s) i = Some (n1, p1, o1, v)"
    by (auto simp: main_step_def split: Option.bind_splits)
  note sw = program_step_switch [OF st] and pp = program_step_program [OF st]
  show ?thesis
  proof (cases v)
    case Stay
    with assms st sw pp show ?thesis by (auto simp: main_step_def)
  next
    case (Leave nx)
    obtain n2 bye where ex: "program_exit now n1 p1 = (n2, bye)" by fastforce
    obtain p3 hello where en: "program_entry rnd (n2\<lparr>State := nx\<rparr>) nx = (p3, hello)" by fastforce
    have "state_of_program p3 = nx" using en by (cases nx) (auto simp: Let_def split: prod.splits)
    with Leave assms st sw pp ex en exit_switch [of now n1 p1] entry_switch [of rnd "n2\<lparr>State := nx\<rparr>" nx]
    show ?thesis by (auto simp: main_step_def)
  qed
qed

lemma main_run_switch:
  assumes "main_run goos run_hra nid sent s"
  shows "fold switch sent all_off = switches_for (state_of_program (snd s))"
  using assms
proof (induction rule: main_run.induct)
  case main_start
  show ?case by (simp add: main_init_def switches_for_def all_off_def)
next
  case (main_next sent s i now rnd s' out)
  with main_step_switch [OF main_next.hyps(4)] show ?case by simp
qed

section \<open>Who sends what\<close>

text \<open>The states in which a node sends a message of each kind.\<close>

fun senders :: "node_out \<Rightarrow> nodestate set" where
  "senders (GlobalHallRequestTx r) = {Master}"
| "senders (HallAssignmentTx a) = {Master}"
| "senders (CabRequestInfoTx c) = {Master}"
| "senders (GlobalHallReqTransmitEnableTx b) = {Master}"
| "senders (HallRequestAssignerTransmitEnableTx b) = {Master}"
| "senders (NewHallReqTx r) = {Slave}"
| "senders (HallAssignmentCompleteTx c) = {Slave}"
| "senders (HallAssignmentCompleteTransmitEnableTx b) = {Slave}"
| "senders (ConnectionReqTx c) = {Disconnected}"
| "senders (AckTx a) = {Master, Slave}"
| "senders (NodeElevStatesTx s) = {Master, Slave}"
| "senders (commandToServerTx c) = {Master, Slave}"
| "senders (ElevLightAndAssignmentUpdateTx u) = {Disconnected, Master, Slave}"

lemma step_senders:
  "program_step goos run_hra now node p i = Some (node', p', out, v) \<Longrightarrow> list_all (\<lambda>o'. state_of_program p \<in> senders o') out"
proof (induction goos run_hra now node p i rule: program_step.induct)
  case (2 goos run_hra now node d i)
  then show ?case
    by (cases i) (auto split: Option.bind_splits ElevatorEventType.splits if_splits)
next
  case (3 goos run_hra now node l i)
  then show ?case
    by (cases i) (auto simp: master_after_event_def state_request_def publish_def Let_def list_all_iff
        split: Option.bind_splits ElevatorEventType.splits NetworkEvent.splits if_splits prod.splits)
next
  case (4 goos run_hra now node l i)
  then show ?case
    by (cases i) (auto simp: Let_def split: ElevatorEventType.splits if_splits prod.splits)
qed simp

lemma exit_senders: "list_all (\<lambda>o'. state_of_program p \<in> senders o') (snd (program_exit now node p))"
  by (cases p) (auto simp: MasterProgram_exit_def SlaveProgram_exit_def)

lemma entry_senders: "list_all (\<lambda>o'. st \<in> senders o') (snd (program_entry rnd node st))"
  by (cases st) (auto simp: MasterProgram_entry_def SlaveProgram_entry_def)

lemma main_step_senders:
  assumes "main_step goos run_hra now rnd s i = Some (s', out)" "o' \<in> set out"
  shows "state_of_program (snd s) \<in> senders o' \<or> state_of_program (snd s') \<in> senders o'"
proof -
  from assms(1) obtain n1 p1 o1 v where
    st: "program_step goos run_hra now (fst s) (snd s) i = Some (n1, p1, o1, v)"
    by (auto simp: main_step_def split: Option.bind_splits)
  note o1 = step_senders [OF st] and pp = program_step_program [OF st]
  show ?thesis
  proof (cases v)
    case Stay
    with assms st o1 show ?thesis by (auto simp: main_step_def list_all_iff)
  next
    case (Leave nx)
    obtain n2 bye where ex: "program_exit now n1 p1 = (n2, bye)" by fastforce
    obtain p3 hello where en: "program_entry rnd (n2\<lparr>State := nx\<rparr>) nx = (p3, hello)" by fastforce
    have p3: "state_of_program p3 = nx" using en by (cases nx) (auto simp: Let_def split: prod.splits)
    have "s' = (n2\<lparr>State := nx\<rparr>, p3)" "out = o1 @ bye @ hello" using assms(1) st Leave ex en by (auto simp: main_step_def)
    with assms(2) o1 pp p3 exit_senders [of p1 now n1] entry_senders [of nx rnd "n2\<lparr>State := nx\<rparr>"] ex en
    show ?thesis by (auto simp: list_all_iff)
  qed
qed

section \<open>Properties\<close>

text \<open>C21: A running node never panics and follows its state machine: in every reachable state it handles
  every well-formed message, command or timer its program receives, keeps its identifier, and goes
  only from inactive to disconnected, from disconnected to inactive, master or slave, and from
  master or slave to inactive or disconnected.\<close>

theorem node_never_panics:
  assumes "main_run goos run_hra nid sent s" "hra_executable goos \<noteq> None" "wf_node_in i"
  shows "\<exists>s' out. main_step goos run_hra now rnd s i = Some (s', out) \<and> ID (fst s') = nid \<and>
    (State (fst s') = State (fst s) \<or> State (fst s') \<in> next_states (State (fst s)))"
proof -
  have "main_ok s" "ID (fst s) = nid" using main_run_ok [OF assms(1,2)] by simp_all
  with main_step_ok [OF \<open>main_ok s\<close> assms(3,2), of run_hra now rnd] show ?thesis by auto
qed

text \<open>A node whose elevator has reported a free door.\<close>

definition door_free :: node_in where
  "door_free = ElevatorEventRx (makeDoorStuckMessage False)"

definition after_door_free :: "NodeData \<times> program" where
  "after_door_free = fst (the (main_step ''linux'' everything_to_all 0 9 (main_init 1) door_free))"

lemma after_door_free_run: "main_run ''linux'' everything_to_all 1 [] after_door_free"
proof -
  have "main_step ''linux'' everything_to_all 0 9 (main_init 1) door_free = Some (after_door_free, [])"
    by (simp add: after_door_free_def main_step_def main_init_def door_free_def makeDoorStuckMessage_def Let_def)
  from main_next [OF main_start _ _ this] show ?thesis
    by (simp add: door_free_def makeDoorStuckMessage_def wf_node_in_def hall_call_ok_def in_floors_def main_init_def)
qed

lemma linux: "hra_executable ''linux'' \<noteq> None"
  by (simp add: hra_executable_def)

theorem node_never_panics_witness:
  "\<exists>s' out. main_step ''linux'' everything_to_all 0 0 after_door_free DecisionTimeout = Some (s', out) \<and>
     State (fst after_door_free) = Disconnected"
proof -
  have "State (fst after_door_free) = Disconnected"
    by (simp add: after_door_free_def main_step_def main_init_def door_free_def makeDoorStuckMessage_def Let_def)
  with node_never_panics [OF after_door_free_run linux, of DecisionTimeout 0 0] show ?thesis
    by (auto simp: wf_node_in_def)
qed

text \<open>C24: The transmitters follow the node's state: after any history, the enable messages the node has
  sent leave the global-request and assignment transmitters on exactly while it is master and the
  completion transmitter on exactly while it is slave.\<close>

theorem transmitters_follow_state:
  assumes "main_run goos run_hra nid sent s" "hra_executable goos \<noteq> None"
  shows "fold switch sent all_off =
    \<lparr>global_on = (State (fst s) = Master), assignments_on = (State (fst s) = Master), completes_on = (State (fst s) = Slave)\<rparr>"
  using main_run_switch [OF assms(1)] main_run_ok [OF assms] by (simp add: main_ok_def switches_for_def)

text \<open>Node 1 hears the request of node 0, which it outranks, and takes the role at its decision.\<close>

definition first_words :: "node_out list" where
  "first_words = snd (MasterProgram_entry ((MakeNode 1)\<lparr>State := Master\<rparr>))"

lemma elected_run: "\<exists>s. main_run ''linux'' everything_to_all 1 first_words s \<and> State (fst s) = Master"
proof -
  let ?r = "ConnectionReqRx \<lparr>cr_TOLC = 0, cr_NodeID = 0, cr_MessageID = 7\<rparr>"
  obtain s1 where s1: "main_step ''linux'' everything_to_all 0 9 after_door_free ?r = Some (s1, [])"
    "receives (snd after_door_free) ?r" "receives (snd s1) DecisionTimeout"
    "main_step ''linux'' everything_to_all 0 9 s1 DecisionTimeout =
       Some (((MakeNode 1)\<lparr>State := Master\<rparr>, InMaster (fst (MasterProgram_entry ((MakeNode 1)\<lparr>State := Master\<rparr>)))), first_words)"
    by (simp add: after_door_free_def main_step_def main_init_def door_free_def makeDoorStuckMessage_def Let_def
        DisconnectedProgram_entry_def ShouldBeMaster_def IsZero_def MakeNode_def first_words_def case_prod_beta)
  have wf: "wf_node_in ?r" "wf_node_in DecisionTimeout" by (simp_all add: wf_node_in_def)
  from main_next [OF main_next [OF after_door_free_run wf(1) s1(2,1)] wf(2) s1(3,4)]
  show ?thesis by (intro exI conjI) (simp, simp)
qed

theorem transmitters_follow_state_witness:
  "fold switch first_words all_off = \<lparr>global_on = True, assignments_on = True, completes_on = False\<rparr>"
proof -
  obtain s where "main_run ''linux'' everything_to_all 1 first_words s" "State (fst s) = Master" using elected_run by blast
  from transmitters_follow_state [OF this(1) linux] this(2) show ?thesis by simp
qed

text \<open>Every message has its sender's role: hall assignments, cab call answers and global hall
  requests come only from a node that is master in that step, hall requests and completions only
  from a slave, connection requests only from a disconnected node, and an inactive node sends nothing.\<close>

theorem messages_by_role:
  assumes "main_run goos run_hra nid sent s" "hra_executable goos \<noteq> None" "wf_node_in i"
    and "main_step goos run_hra now rnd s i = Some (s', out)" "o' \<in> set out"
  shows "State (fst s) \<in> senders o' \<or> State (fst s') \<in> senders o'"
proof -
  have ok: "main_ok s" using main_run_ok [OF assms(1,2)] by simp
  moreover have "main_ok s'" using main_step_ok [OF ok assms(3,2), of run_hra now rnd] assms(4) by auto
  ultimately show ?thesis using main_step_senders [OF assms(4,5)] by (simp add: main_ok_def)
qed

theorem messages_by_role_witness:
  "\<exists>s' c. main_step ''linux'' everything_to_all 0 0 after_door_free ConnectionRequestTick = Some (s', [ConnectionReqTx c]) \<and>
     (State (fst after_door_free) \<in> senders (ConnectionReqTx c) \<or> State (fst s') \<in> senders (ConnectionReqTx c))"
proof -
  obtain s' c where st: "main_step ''linux'' everything_to_all 0 0 after_door_free ConnectionRequestTick = Some (s', [ConnectionReqTx c])"
    by (simp add: after_door_free_def main_step_def main_init_def door_free_def makeDoorStuckMessage_def Let_def)
  have "State (fst after_door_free) \<in> senders (ConnectionReqTx c) \<or> State (fst s') \<in> senders (ConnectionReqTx c)"
    by (rule messages_by_role [OF after_door_free_run linux _ st]) (simp_all add: wf_node_in_def)
  with st show ?thesis by blast
qed

end
