(* ===== verification/Lift.thy ===== *)
theory Lift
  imports Node_Main Elevator_Loop
begin

text \<open>
  One lift: the node's goroutine and its elevator's, with the three channels between them as
  node.go makes them: \<open>ElevLightAndAssignmentUpdateTx\<close> is buffered, \<open>ElevatorEventRx\<close> and
  \<open>MyElevStatesRx\<close> are not. A goroutine that has sends left does not receive, a send on a full
  buffer waits, and an event is handed over only when the node is at its \<open>select\<close>. The sends of
  a handler follow its other effects; on all other channels a receiver is taken to be ready.
\<close>

section \<open>The messages between node and elevator are well-formed\<close>

text \<open>What Go's types and the code's maps guarantee of a message from outside the lift.\<close>

definition wf_outside :: "node_in \<Rightarrow> bool" where
  "wf_outside i \<longleftrightarrow> wf_node_in i \<and> (case i of
     HallAssignmentsRx a \<Rightarrow> wf_mat NUM_FLOORS 2 (nha_HallAssignment a)
   | CabRequestInfoRx c \<Rightarrow> int (length (cri_CabRequest c)) = NUM_FLOORS
   | _ \<Rightarrow> True)"

text \<open>The assigner's answer is decoded into a map of arrays.\<close>

definition wf_hra :: "hra_runner \<Rightarrow> bool" where
  "wf_hra run_hra \<longleftrightarrow> (\<forall>exe inp answer. wf_mat NUM_FLOORS 2 (hra_HallRequests inp) \<longrightarrow> run_hra exe inp = Some answer \<longrightarrow>
     list_all (\<lambda>(_, h). wf_mat NUM_FLOORS 2 h) answer)"

definition updates_of :: "node_out list \<Rightarrow> LightAndAssignmentUpdate list" where
  "updates_of out = concat (map (\<lambda>x. case x of ElevLightAndAssignmentUpdateTx u \<Rightarrow> [u] | _ \<Rightarrow> []) out)"

lemma updates_of_simps [simp]:
  "updates_of [] = []" "updates_of (xs @ ys) = updates_of xs @ updates_of ys"
  "updates_of (x # xs) = (case x of ElevLightAndAssignmentUpdateTx u \<Rightarrow> [u] | _ \<Rightarrow> []) @ updates_of xs"
  by (simp_all add: updates_of_def)

lemma updates_of_maps [simp]:
  "updates_of (map (\<lambda>(_, a). HallAssignmentTx a) xs) = []"
  "updates_of (map (\<lambda>(_, a). CabRequestInfoTx a) ys) = []"
  by (induction xs) (auto, induction ys, auto)

lemma wf_zero_update: "wf_update zero_update"
  using wf_mat_zero [of NUM_FLOORS 2] by (simp add: zero_update_def wf_update_def)

lemma wf_made_updates [wf_intros]:
  "wf_mat NUM_FLOORS 2 g \<Longrightarrow> wf_update (makeLightMessage g)"
  "wf_mat NUM_FLOORS 2 h \<Longrightarrow> wf_mat NUM_FLOORS 2 g \<Longrightarrow> wf_update (makeHallAssignmentAndLightMessage h g)"
  "int (length c) = NUM_FLOORS \<Longrightarrow> wf_update (makeCabOrderMessage c)"
  using wf_zero_update wf_mat_zero [of NUM_FLOORS 2]
  by (simp_all add: wf_update_def makeLightMessage_def makeHallAssignmentAndLightMessage_def makeCabOrderMessage_def)

lemma wf_values_update:
  "list_all (\<lambda>(_, h). P h) m \<Longrightarrow> P v \<Longrightarrow> list_all (\<lambda>(_, h). P h) (AList.update k v m)"
  by (induction m) auto

lemma wf_output_loop:
  "list_all (\<lambda>(_, h). P h) out \<Longrightarrow> list_all (\<lambda>(_, h). P h) acc \<Longrightarrow> list_all (\<lambda>(_, h). P h) (hra_output_loop out acc)"
  by (induction out acc rule: hra_output_loop.induct) (auto intro: wf_values_update)

lemma wf_HRA:
  assumes "wf_hra run_hra" "wf_mat NUM_FLOORS 2 g" "HRAalgorithm goos run_hra states g = Some m"
  shows "list_all (\<lambda>(_, h). wf_mat NUM_FLOORS 2 h) m"
proof (cases "hra_executable goos")
  case None
  with assms(3) show ?thesis by (simp add: HRAalgorithm_def)
next
  case (Some exe)
  let ?inp = "\<lparr>hra_HallRequests = g, hra_States = hra_input_loop states []\<rparr>"
  have "m = (case run_hra (''costFNS/hallRequestAssigner/'' @ exe) ?inp of None \<Rightarrow> [] | Some ret \<Rightarrow> hra_output_loop ret [])"
    using assms(3) Some by (simp add: HRAalgorithm_def)
  moreover have "list_all (\<lambda>(_, h). wf_mat NUM_FLOORS 2 h) ret"
    if "run_hra (''costFNS/hallRequestAssigner/'' @ exe) ?inp = Some ret" for ret
    using assms(1) [unfolded wf_hra_def, rule_format, of ?inp _ ret] assms(2) that by simp
  ultimately show ?thesis by (auto split: option.splits intro: wf_output_loop)
qed

lemma wf_my_assignment:
  assumes "list_all (\<lambda>(_, h). wf_mat NUM_FLOORS 2 h) out" "wf_mat NUM_FLOORS 2 g" "wf_update (MyAssignment r)"
  shows "wf_update (MyAssignment (assignments_loop me g out r))"
  using assms by (induction me g out r rule: assignments_loop.induct) (auto simp: wf_made_updates)

lemma wf_compute:
  assumes "wf_hra run_hra" "wf_mat NUM_FLOORS 2 g"
    "ComputeHallAssignments goos run_hra sd u st g reqs = Some (result, sd')"
  shows "wf_update (MyAssignment result)"
  using assms wf_zero_update
  by (auto simp: ComputeHallAssignments_def Let_def split: Option.bind_splits if_splits
      intro!: wf_my_assignment dest: wf_HRA [OF assms(1,2)])

lemma state_request_updates [simp]: "updates_of (snd (state_request now l wanted)) = []"
  by (simp add: state_request_def)

lemma publish_updates [simp]: "updates_of (publish node) = [makeLightMessage (GlobalHallRequests node)]"
  by (simp add: publish_def)

lemma master_updates:
  assumes "master_inv node l" "wf_outside i" "wf_hra run_hra" "hra_executable goos \<noteq> None"
    and st: "MasterProgram_step goos run_hra now node l i = Some (node', l', out, v)"
  shows "list_all wf_update (updates_of out)"
proof -
  have "wf_node_in i" using assms(2) by (simp add: wf_outside_def)
  from master_step_ok [OF assms(1,4) this, of run_hra now] st
  have n': "wf_mat NUM_FLOORS 2 (GlobalHallRequests node')" by (auto simp: master_inv_def wf_node_def)
  have n: "wf_mat NUM_FLOORS 2 (GlobalHallRequests node)" using assms(1) by (simp add: master_inv_def wf_node_def)
  show ?thesis
  proof (cases i)
    case (NodeElevStateUpdateRx u)
    with st n wf_compute [OF assms(3) n] show ?thesis
      by (auto simp: Let_def wf_made_updates split: Option.bind_splits prod.splits)
  qed (use st n' in \<open>auto simp: master_after_event_def split_beta Let_def wf_made_updates
      split: Option.bind_splits ElevatorEventType.splits NetworkEvent.splits if_splits\<close>)
qed

lemma slave_updates:
  assumes "wf_node node" "wf_outside i"
  shows "list_all wf_update (updates_of (fst (snd (snd (SlaveProgram_step now node l i)))))"
  using assms by (cases i) (auto simp: wf_node_def wf_outside_def wf_node_in_def Let_def wf_made_updates
      split: ElevatorEventType.splits)

lemma disconnected_updates:
  assumes "disconnected_inv node d" "wf_outside i"
    and st: "DisconnectedProgram_step node d i = Some (node', d', out, v)"
  shows "list_all wf_update (updates_of out)"
proof -
  have "wf_node_in i" using assms(2) by (simp add: wf_outside_def)
  from disconnected_step_ok [OF assms(1) this] st have "wf_mat NUM_FLOORS 2 (GlobalHallRequests node')"
    by (auto simp: disconnected_inv_def wf_node_def)
  with assms(2) st show ?thesis
    by (cases i) (auto simp: wf_outside_def wf_made_updates split: Option.bind_splits ElevatorEventType.splits if_splits)
qed

lemma main_step_updates:
  assumes ok: "main_ok s" and i: "wf_outside i" and hra: "wf_hra run_hra" "hra_executable goos \<noteq> None"
    and st: "main_step goos run_hra now rnd s i = Some (s', out)"
  shows "list_all wf_update (updates_of out)"
proof -
  have wi: "wf_node_in i" using i by (simp add: wf_outside_def)
  have pok: "program_ok (fst s) (snd s)" using ok by (simp add: main_ok_def)
  from program_step_ok [OF this wi hra(2), of run_hra now] obtain n1 p1 o1 v where
    p: "program_step goos run_hra now (fst s) (snd s) i = Some (n1, p1, o1, v)" "program_ok n1 p1" by blast
  have o1: "list_all wf_update (updates_of o1)"
  proof (cases "snd s")
    case (InDisconnected d)
    with p(1) pok disconnected_updates [of "fst s" d i] i show ?thesis by (auto split: Option.bind_splits)
  next
    case (InMaster l)
    with p(1) pok master_updates [of "fst s" l i run_hra goos now] i hra show ?thesis by (auto split: Option.bind_splits)
  next
    case (InSlave l)
    with p(1) pok slave_updates [of "fst s" i now l] i show ?thesis by (auto split: prod.splits)
  qed (use p(1) in simp)
  have bye: "updates_of (snd (program_exit now n1 p1)) = []"
    by (cases p1) (auto simp: MasterProgram_exit_def SlaveProgram_exit_def)
  have hello: "list_all wf_update (updates_of (snd (program_entry rnd n st)))" if "wf_node n" for n st
    using that by (cases st) (auto simp: MasterProgram_entry_def SlaveProgram_entry_def wf_node_def wf_made_updates)
  have n2: "wf_node (fst (program_exit now n1 p1))"
    using program_exit_ok [OF program_ok_wf [OF p(2)]] by simp
  show ?thesis
  proof (cases v)
    case Stay
    with st p(1) o1 show ?thesis by (simp add: main_step_def)
  next
    case (Leave nx)
    with st p(1) o1 bye hello [of "(fst (program_exit now n1 p1))\<lparr>State := nx\<rparr>" nx] n2 show ?thesis
      by (auto simp: main_step_def split_beta Let_def)
  qed
qed

section \<open>Node and elevator together\<close>

text \<open>\<open>sampled\<close> is the state that \<open>transmitElevatorState\<close> is waiting to hand over.\<close>

record lift =
  lift_node :: "NodeData \<times> program"
  node_sends :: "node_out list"
  updates :: "LightAndAssignmentUpdate list"
  lift_car :: ep_state
  car_sends :: "ElevatorEvent list"
  sampled :: "ElevatorState option"

definition UPDATE_BUFFER :: nat where
  "UPDATE_BUFFER = 3"

definition lift_init :: "int \<Rightarrow> plant \<Rightarrow> lift" where
  "lift_init nid pl =
     \<lparr>lift_node = main_init nid, node_sends = [], updates = [],
      lift_car = fst (ElevatorProgram_init pl), car_sends = snd (ElevatorProgram_init pl), sampled = None\<rparr>"

datatype lift_act =
    NodeSends
  | NodeReceives node_in
  | NodeTakesEvent
  | NodeTakesSample
  | CarReceives ep_input
  | CarTakesUpdate
  | TakeSample

fun from_elevator :: "node_in \<Rightarrow> bool" where
  "from_elevator (ElevatorEventRx e) = True"
| "from_elevator (MyElevStatesRx st) = True"
| "from_elevator i = False"

fun from_node :: "ep_input \<Rightarrow> bool" where
  "from_node (UpdateRx u) = True"
| "from_node i = False"

fun lift_can :: "lift \<Rightarrow> lift_act \<Rightarrow> bool" where
  "lift_can s NodeSends =
     (case node_sends s of
        [] \<Rightarrow> False
      | ElevLightAndAssignmentUpdateTx u # rest \<Rightarrow> length (updates s) < UPDATE_BUFFER
      | _ \<Rightarrow> True)"
| "lift_can s (NodeReceives i) =
     (node_sends s = [] \<and> \<not> from_elevator i \<and> receives (snd (lift_node s)) i \<and> wf_outside i)"
| "lift_can s NodeTakesEvent = (node_sends s = [] \<and> car_sends s \<noteq> [])"
| "lift_can s NodeTakesSample = (node_sends s = [] \<and> sampled s \<noteq> None)"
| "lift_can s (CarReceives i) = (car_sends s = [] \<and> \<not> from_node i \<and> enabled (lift_car s) i \<and> wf_input i)"
| "lift_can s CarTakesUpdate = (car_sends s = [] \<and> updates s \<noteq> [])"
| "lift_can s TakeSample = (sampled s = None)"

text \<open>The node and the elevator at their \<open>select\<close>; \<open>None\<close> is a panic in the handler.\<close>

definition node_handles :: "string \<Rightarrow> hra_runner \<Rightarrow> Time \<Rightarrow> uint64 \<Rightarrow> lift \<Rightarrow> node_in \<Rightarrow> lift option" where
  "node_handles goos run_hra now rnd s i = do {
     (n, out) \<leftarrow> main_step goos run_hra now rnd (lift_node s) i;
     Some (s\<lparr>lift_node := n, node_sends := out\<rparr>)
   }"

definition car_handles :: "lift \<Rightarrow> ep_input \<Rightarrow> lift option" where
  "car_handles s i = do {
     (c, out) \<leftarrow> ElevatorProgram_step (lift_car s) i;
     Some (s\<lparr>lift_car := c, car_sends := out\<rparr>)
   }"

fun lift_step :: "string \<Rightarrow> hra_runner \<Rightarrow> Time \<Rightarrow> uint64 \<Rightarrow> lift \<Rightarrow> lift_act \<Rightarrow> lift option" where
  "lift_step goos run_hra now rnd s NodeSends =
     Some (s\<lparr>node_sends := tl (node_sends s), updates := updates s @ updates_of [hd (node_sends s)]\<rparr>)"
| "lift_step goos run_hra now rnd s (NodeReceives i) = node_handles goos run_hra now rnd s i"
| "lift_step goos run_hra now rnd s NodeTakesEvent =
     node_handles goos run_hra now rnd (s\<lparr>car_sends := tl (car_sends s)\<rparr>) (ElevatorEventRx (hd (car_sends s)))"
| "lift_step goos run_hra now rnd s NodeTakesSample =
     node_handles goos run_hra now rnd (s\<lparr>sampled := None\<rparr>) (MyElevStatesRx (the (sampled s)))"
| "lift_step goos run_hra now rnd s (CarReceives i) = car_handles s i"
| "lift_step goos run_hra now rnd s CarTakesUpdate =
     car_handles (s\<lparr>updates := tl (updates s)\<rparr>) (UpdateRx (hd (updates s)))"
| "lift_step goos run_hra now rnd s TakeSample =
     Some (s\<lparr>sampled := Some (transmitElevatorState (elev (lift_car s)))\<rparr>)"

inductive lift_run :: "string \<Rightarrow> hra_runner \<Rightarrow> int \<Rightarrow> plant \<Rightarrow> lift \<Rightarrow> bool" for goos run_hra nid pl where
  lift_start: "lift_run goos run_hra nid pl (lift_init nid pl)"
| lift_next: "lift_run goos run_hra nid pl s \<Longrightarrow> lift_can s a \<Longrightarrow> lift_step goos run_hra now rnd s a = Some s' \<Longrightarrow>
    lift_run goos run_hra nid pl s'"

section \<open>The invariant\<close>

definition lift_ok :: "int \<Rightarrow> plant \<Rightarrow> lift \<Rightarrow> bool" where
  "lift_ok nid pl s \<longleftrightarrow> main_ok (lift_node s) \<and> ID (fst (lift_node s)) = nid \<and> ep_reach pl (lift_car s) \<and>
     list_all wf_update (updates s) \<and> list_all wf_update (updates_of (node_sends s)) \<and>
     length (updates s) \<le> UPDATE_BUFFER \<and> list_all (\<lambda>e. wf_outside (ElevatorEventRx e)) (car_sends s)"

lemma updates_of_head: "xs \<noteq> [] \<Longrightarrow> updates_of xs = updates_of [hd xs] @ updates_of (tl xs)"
  by (cases xs) auto

lemma events_wf:
  "list_all event_on_panel out \<Longrightarrow> list_all (\<lambda>e. wf_outside (ElevatorEventRx e)) out"
  by (auto simp: list_all_iff event_on_panel_def wf_outside_def wf_node_in_def hall_call_ok_def)

lemma node_handles_ok:
  assumes "lift_ok nid pl s" "wf_outside i" "wf_hra run_hra" "hra_executable goos \<noteq> None"
  shows "\<exists>s'. node_handles goos run_hra now rnd s i = Some s' \<and> lift_ok nid pl s'"
proof -
  have ok: "main_ok (lift_node s)" "wf_node_in i" using assms(1,2) by (simp_all add: lift_ok_def wf_outside_def)
  from main_step_ok [OF this assms(4), of run_hra now rnd] obtain n out where
    n: "main_step goos run_hra now rnd (lift_node s) i = Some (n, out)" "main_ok n"
      "ID (fst n) = ID (fst (lift_node s))" by blast
  from main_step_updates [OF ok(1) assms(2-4) n(1)] n assms(1) show ?thesis
    by (simp add: node_handles_def lift_ok_def)
qed

lemma car_handles_ok:
  assumes "lift_ok nid pl s" "\<not> door_lamp (pnl pl)" "enabled (lift_car s) i" "wf_input i"
  shows "\<exists>s'. car_handles s i = Some s' \<and> lift_ok nid pl s'"
proof -
  have r: "ep_reach pl (lift_car s)" using assms(1) by (simp add: lift_ok_def)
  note inv = reach_inv [OF r assms(2)]
  from step_ok [OF inv assms(3,4)] obtain c out where c: "ElevatorProgram_step (lift_car s) i = Some (c, out)" by blast
  from step_events [OF inv assms(4) c] have "list_all (\<lambda>e. wf_outside (ElevatorEventRx e)) out" by (rule events_wf)
  with ep_next [OF r assms(3,4) c] c assms(1) show ?thesis by (simp add: car_handles_def lift_ok_def)
qed

lemma lift_step_ok:
  assumes ok: "lift_ok nid pl s" and pl: "\<not> door_lamp (pnl pl)" and hra: "wf_hra run_hra" "hra_executable goos \<noteq> None"
    and can: "lift_can s a"
  shows "\<exists>s'. lift_step goos run_hra now rnd s a = Some s' \<and> lift_ok nid pl s'"
proof (cases a)
  case NodeSends
  with can have ne: "node_sends s \<noteq> []" by (auto split: list.splits)
  have "length (updates s) + length (updates_of [hd (node_sends s)]) \<le> UPDATE_BUFFER"
    using can ok NodeSends by (auto simp: lift_ok_def split: list.splits node_out.splits)
  with NodeSends ok updates_of_head [OF ne] show ?thesis by (auto simp: lift_ok_def simp del: updates_of_simps(3))
next
  case (NodeReceives i)
  with can node_handles_ok [OF ok _ hra, of i now rnd] show ?thesis by auto
next
  case NodeTakesEvent
  have "lift_ok nid pl (s\<lparr>car_sends := tl (car_sends s)\<rparr>)" "wf_outside (ElevatorEventRx (hd (car_sends s)))"
    using ok can NodeTakesEvent by (cases "car_sends s"; auto simp: lift_ok_def)+
  from node_handles_ok [OF this hra] NodeTakesEvent show ?thesis by simp
next
  case NodeTakesSample
  have "lift_ok nid pl (s\<lparr>sampled := None\<rparr>)" "wf_outside (MyElevStatesRx (the (sampled s)))"
    using ok by (simp_all add: lift_ok_def wf_outside_def wf_node_in_def)
  from node_handles_ok [OF this hra] NodeTakesSample show ?thesis by simp
next
  case (CarReceives i)
  with can car_handles_ok [OF ok pl, of i] show ?thesis by simp
next
  case CarTakesUpdate
  have "lift_ok nid pl (s\<lparr>updates := tl (updates s)\<rparr>)" "wf_input (UpdateRx (hd (updates s)))"
    using ok can CarTakesUpdate by (cases "updates s"; auto simp: lift_ok_def wf_input_def)+
  from car_handles_ok [OF this(1) pl _ this(2)] CarTakesUpdate show ?thesis by (simp add: enabled_def)
next
  case TakeSample
  with ok show ?thesis by (simp add: lift_ok_def)
qed

lemma lift_run_ok:
  assumes "lift_run goos run_hra nid pl s" "\<not> door_lamp (pnl pl)" "wf_hra run_hra" "hra_executable goos \<noteq> None"
  shows "lift_ok nid pl s"
  using assms(1)
proof (induction rule: lift_run.induct)
  case lift_start
  have "snd (ElevatorProgram_init pl) = [makeDoorStuckMessage False]" by (simp add: ElevatorProgram_init_def)
  moreover have "wf_outside (ElevatorEventRx (makeDoorStuckMessage False))"
    by (simp add: makeDoorStuckMessage_def wf_outside_def wf_node_in_def hall_call_ok_def in_floors_def)
  ultimately show ?case
    by (simp add: lift_ok_def lift_init_def main_ok_init ep_start) (simp add: main_init_def MakeNode_def)
next
  case (lift_next s a now rnd s')
  with lift_step_ok [OF lift_next.IH assms(2-4) lift_next.hyps(2), of now rnd] show ?case by simp
qed

section \<open>Deadlock\<close>

text \<open>The node waits for room in the buffer, the elevator for the node to take its event.\<close>

definition deadlocked :: "lift \<Rightarrow> bool" where
  "deadlocked s \<longleftrightarrow> length (updates s) = UPDATE_BUFFER \<and> car_sends s \<noteq> [] \<and>
     (case node_sends s of ElevLightAndAssignmentUpdateTx u # rest \<Rightarrow> True | _ \<Rightarrow> False)"

lemma deadlocked_stuck: "deadlocked s \<Longrightarrow> lift_can s a \<Longrightarrow> a = TakeSample"
  by (cases a) (auto simp: deadlocked_def split: list.splits node_out.splits)

lemma stuck_deadlocked:
  assumes "length (updates s) \<le> UPDATE_BUFFER" and stuck: "\<And>a. lift_can s a \<Longrightarrow> a = TakeSample"
  shows "deadlocked s"
proof -
  let ?i = "NewHallReqRx \<lparr>nhr_Floor = 0, nhr_HallButton = ButtonCab\<rparr>"
  have "receives (snd (lift_node s)) ?i" by (cases "snd (lift_node s)") simp_all
  moreover have "wf_outside ?i" by (simp add: wf_outside_def wf_node_in_def hall_call_ok_def)
  ultimately have "node_sends s \<noteq> []" using stuck [of "NodeReceives ?i"] by auto
  moreover have "\<not> lift_can s NodeSends" using stuck [of NodeSends] by blast
  ultimately obtain u rest where
    n: "node_sends s = ElevLightAndAssignmentUpdateTx u # rest" "length (updates s) = UPDATE_BUFFER"
    using assms(1) by (cases "node_sends s"; cases "hd (node_sends s)") auto
  then have "updates s \<noteq> []" by (auto simp: UPDATE_BUFFER_def)
  with stuck [of CarTakesUpdate] n show ?thesis by (auto simp: deadlocked_def)
qed

text \<open>A run given by its actions, all at the same instant.\<close>

definition lift_acts :: "hra_runner \<Rightarrow> lift_act list \<Rightarrow> lift \<Rightarrow> lift option" where
  "lift_acts run_hra = fold_opt (\<lambda>a s. if lift_can s a then lift_step ''linux'' run_hra 0 9 s a else None)"

lemma lift_acts_run:
  "lift_acts run_hra as s = Some s' \<Longrightarrow> lift_run ''linux'' run_hra nid pl s \<Longrightarrow> lift_run ''linux'' run_hra nid pl s'"
  unfolding lift_acts_def by (erule fold_opt_inv) (auto split: if_splits intro: lift_next)

text \<open>
  A node becomes master; while its elevator has not been at its \<open>select\<close>, two hall calls from
  another node leave two more light updates in the buffer; the elevator then takes a button
  press first, and before the node takes that event it takes a third hall call.
\<close>

definition remote_call :: "int \<Rightarrow> lift_act" where
  "remote_call f = NodeReceives (NewHallReqRx \<lparr>nhr_Floor = f, nhr_HallButton = ButtonHallUp\<rparr>)"

definition deadlock_acts :: "lift_act list" where
  "deadlock_acts =
     [NodeTakesEvent,
      NodeReceives (ConnectionReqRx \<lparr>cr_TOLC = 0, cr_NodeID = 0, cr_MessageID = 7\<rparr>),
      NodeReceives DecisionTimeout] @ replicate 5 NodeSends @
     [remote_call 0] @ replicate 2 NodeSends @
     [remote_call 1] @ replicate 2 NodeSends @
     [CarReceives (ButtonRx (mk_event 2 ButtonHallUp)), remote_call 2, NodeSends]"

lemma deadlock_acts_run:
  "\<exists>s. lift_acts run_hra deadlock_acts (lift_init 1 pl) = Some s \<and> State (fst (lift_node s)) = Master \<and> deadlocked s"
  by (simp add: lift_acts_def deadlock_acts_def numeral_nat lift_init_def ElevatorProgram_init_def node_handles_def
      car_handles_def main_step_def main_init_def MakeNode_def makeDoorStuckMessage_def remote_call_def Let_def
      wf_outside_def wf_node_in_def hall_call_ok_def in_floors_def in_buttons_def wf_input_def enabled_def
      ShouldBeMaster_def IsZero_def DisconnectedProgram_entry_def MasterProgram_entry_def any_request_def
      grid_def floors_def hall_buttons_def zero_mat_def mat_at_def mat_set_def arr_get_def arr_set_def
      ProcessNewHallRequest_def publish_def state_request_def Since_def Sub_def zero_Time_def durations
      deadlocked_def UPDATE_BUFFER_def)
section \<open>Properties\<close>

text \<open>A lift never panics: whatever buttons, sensors, timers and messages from outside come in any
  order, every step its node or its elevator can take succeeds; the elevator stays within its
  reachable states, so its safety holds there, the node keeps its identifier, and the channel of
  updates never holds more than its three places.\<close>

theorem lift_never_panics:
  assumes "lift_run goos run_hra nid pl s" "\<not> door_lamp (pnl pl)" "wf_hra run_hra" "hra_executable goos \<noteq> None"
    and "lift_can s a"
  shows "\<exists>s'. lift_step goos run_hra now rnd s a = Some s' \<and> ep_reach pl (lift_car s') \<and>
    ID (fst (lift_node s')) = nid \<and> State (fst (lift_node s')) = state_of_program (snd (lift_node s')) \<and>
    length (updates s') \<le> 3"
  using lift_step_ok [OF lift_run_ok [OF assms(1-4)] assms(2-5), of now rnd]
  by (auto simp: lift_ok_def UPDATE_BUFFER_def main_ok_def)

lemma wf_everything: "wf_hra everything_to_all"
  by (auto simp: wf_hra_def everything_to_all_def list_all_iff)

theorem lift_never_panics_witness:
  "\<exists>s'. lift_step ''linux'' everything_to_all 0 9 (lift_init 1 dark_plant) NodeTakesEvent = Some s' \<and>
     length (updates s') \<le> 3"
proof -
  have "lift_can (lift_init 1 dark_plant) NodeTakesEvent" by (simp add: lift_init_def ElevatorProgram_init_def)
  from lift_never_panics [OF lift_start [of "''linux''" everything_to_all 1 dark_plant] dark wf_everything _ this, of 0 9]
  show ?thesis by (auto simp: hra_executable_def)
qed

text \<open>When a lift is stuck: node and elevator can do nothing more exactly when the node waits to send
  an update into the full channel while the elevator waits to send it an event; then neither ever
  moves again.\<close>

theorem lift_deadlock_exact:
  assumes "lift_run goos run_hra nid pl s" "\<not> door_lamp (pnl pl)" "wf_hra run_hra" "hra_executable goos \<noteq> None"
  shows "((\<forall>a. lift_can s a \<longrightarrow> a = TakeSample) \<longleftrightarrow>
      length (updates s) = 3 \<and> car_sends s \<noteq> [] \<and>
      (\<exists>u rest. node_sends s = ElevLightAndAssignmentUpdateTx u # rest)) \<and>
    (deadlocked s \<longrightarrow> lift_can s a \<longrightarrow> lift_step goos run_hra now rnd s a = Some s' \<longrightarrow>
      deadlocked s' \<and> lift_node s' = lift_node s \<and> lift_car s' = lift_car s)"
proof
  have len: "length (updates s) \<le> UPDATE_BUFFER" using lift_run_ok [OF assms] by (simp add: lift_ok_def)
  have "(\<forall>a. lift_can s a \<longrightarrow> a = TakeSample) \<longleftrightarrow> deadlocked s"
    using deadlocked_stuck [of s] stuck_deadlocked [OF len] by blast
  then show "(\<forall>a. lift_can s a \<longrightarrow> a = TakeSample) \<longleftrightarrow>
      length (updates s) = 3 \<and> car_sends s \<noteq> [] \<and>
      (\<exists>u rest. node_sends s = ElevLightAndAssignmentUpdateTx u # rest)"
    by (auto simp: deadlocked_def UPDATE_BUFFER_def split: list.splits node_out.splits)
  show "deadlocked s \<longrightarrow> lift_can s a \<longrightarrow> lift_step goos run_hra now rnd s a = Some s' \<longrightarrow>
      deadlocked s' \<and> lift_node s' = lift_node s \<and> lift_car s' = lift_car s"
    using deadlocked_stuck [of s a] by (auto simp: deadlocked_def)
qed

text \<open>C25: The channel's buffer does not prevent the deadlock: hall calls from another node that arrive
  while the elevator is busy, and a hall button pressed at that moment, bring a master to a state
  in which neither its node nor its elevator can ever move again.\<close>

theorem lift_deadlock_reachable:
  "\<exists>s. lift_run ''linux'' run_hra 1 pl s \<and> State (fst (lift_node s)) = Master \<and> deadlocked s"
  using deadlock_acts_run [of run_hra pl] lift_acts_run [OF _ lift_start] by blast

theorem lift_deadlock_exact_witness:
  "\<exists>s. lift_run ''linux'' everything_to_all 1 dark_plant s \<and> (\<forall>a. lift_can s a \<longrightarrow> a = TakeSample)"
proof -
  obtain s where s: "lift_acts everything_to_all deadlock_acts (lift_init 1 dark_plant) = Some s" "deadlocked s"
    using deadlock_acts_run by blast
  note run = lift_acts_run [OF s(1) lift_start]
  have "hra_executable ''linux'' \<noteq> None" by (simp add: hra_executable_def)
  note exact = lift_deadlock_exact [OF run dark wf_everything this, THEN conjunct1]
  have "length (updates s) = 3 \<and> car_sends s \<noteq> [] \<and> (\<exists>u rest. node_sends s = ElevLightAndAssignmentUpdateTx u # rest)"
    using s(2) by (simp add: deadlocked_def UPDATE_BUFFER_def split: list.splits node_out.splits)
  with exact have "\<forall>a. lift_can s a \<longrightarrow> a = TakeSample" by blast
  with run show ?thesis by blast
qed

end
