(* ===== verification/Calls_Elevator.thy ===== *)
theory Calls_Elevator
  imports Elevator_Loop
begin

text \<open>
  Where an elevator's calls come from: every request it holds and every hall lamp it lights is
  a call it was given, by its own buttons or by an update from the node. \<open>H\<close> is a set of hall
  calls, \<open>C\<close> a set of cab calls; the lemmas say that each operation of the event loop stays
  within \<open>H\<close> and \<open>C\<close> when its input does.
\<close>

section \<open>Arrays within a set of calls\<close>

type_synonym hall_calls = "(int \<times> ButtonType) set"

definition mat_in :: "hall_calls \<Rightarrow> bool list list \<Rightarrow> bool" where
  "mat_in H m \<longleftrightarrow> wf_mat NUM_FLOORS 2 m \<and>
     (\<forall>f b. in_floors f \<longrightarrow> b = ButtonHallUp \<or> b = ButtonHallDown \<longrightarrow> mat_at m f b \<longrightarrow> (f, b) \<in> H)"

definition cabs_in :: "int set \<Rightarrow> bool list \<Rightarrow> bool" where
  "cabs_in C xs \<longleftrightarrow> int (length xs) = NUM_FLOORS \<and> (\<forall>f. in_floors f \<longrightarrow> xs ! nat f \<longrightarrow> f \<in> C)"

lemma mat_in_wf: "mat_in H m \<Longrightarrow> wf_mat NUM_FLOORS 2 m"
  by (simp add: mat_in_def)

lemma mat_in_mono: "mat_in H m \<Longrightarrow> H \<subseteq> H' \<Longrightarrow> mat_in H' m"
  by (auto simp: mat_in_def)

lemma cabs_in_mono: "cabs_in C xs \<Longrightarrow> C \<subseteq> C' \<Longrightarrow> cabs_in C' xs"
  by (auto simp: cabs_in_def)

lemma mat_in_zero [intro]: "mat_in H (zero_mat NUM_FLOORS 2)"
  using wf_mat_zero [of NUM_FLOORS 2] by (auto simp: mat_in_def mat_at_zero in_floors_def)

lemma cabs_in_zero [intro]: "cabs_in C (replicate 4 False)" "cabs_in C (replicate (nat NUM_FLOORS) False)"
  by (auto simp: cabs_in_def in_floors_def nat_less_iff)

lemma mat_in_put:
  assumes "mat_in H m" "in_floors f" "b = ButtonHallUp \<or> b = ButtonHallDown" "v \<longrightarrow> (f, b) \<in> H"
  shows "mat_in H (mat_put m f b v)"
proof -
  have wf: "wf_mat NUM_FLOORS 2 m" using assms(1) by (simp add: mat_in_def)
  have "mat_at (mat_put m f b v) f' b' = (if f' = f \<and> b' = b then v else mat_at m f' b')"
    if "in_floors f'" "b' = ButtonHallUp \<or> b' = ButtonHallDown" for f' b'
    using that assms(2,3) mat_at_put [OF wf, of f b f' b' v] by (auto simp: in_floors_def)
  with assms wf show ?thesis by (auto simp: mat_in_def wf_intros)
qed

section \<open>The elevator within its calls\<close>

definition given :: "hall_calls \<Rightarrow> int set \<Rightarrow> int \<Rightarrow> ButtonType \<Rightarrow> bool" where
  "given H C f b \<longleftrightarrow> (if b = ButtonCab then f \<in> C else (f, b) \<in> H)"

lemma given_mono: "given H C f b \<Longrightarrow> H \<subseteq> H' \<Longrightarrow> C \<subseteq> C' \<Longrightarrow> given H' C' f b"
  by (auto simp: given_def)

definition elev_in :: "hall_calls \<Rightarrow> int set \<Rightarrow> Elevator \<Rightarrow> bool" where
  "elev_in H C e \<longleftrightarrow>
     (\<forall>f b. in_floors f \<longrightarrow> in_buttons b \<longrightarrow> req e f b \<longrightarrow> given H C f b) \<and> mat_in H (HallLightStates e)"

definition lamps_in :: "hall_calls \<Rightarrow> plant \<Rightarrow> bool" where
  "lamps_in H pl \<longleftrightarrow>
     (\<forall>f b. in_floors f \<longrightarrow> b = ButtonHallUp \<or> b = ButtonHallDown \<longrightarrow> lamp (pnl pl) f b \<longrightarrow> (f, b) \<in> H)"

definition car_in :: "hall_calls \<Rightarrow> int set \<Rightarrow> ep_state \<Rightarrow> bool" where
  "car_in H C s \<longleftrightarrow> elev_in H C (elev s) \<and> lamps_in H (hw s)"

lemma elev_inD: "elev_in H C e \<Longrightarrow> in_floors f \<Longrightarrow> in_buttons b \<Longrightarrow> req e f b \<Longrightarrow> given H C f b"
  by (simp add: elev_in_def)

lemma elev_in_less:
  assumes "elev_in H C e" "HallLightStates e' = HallLightStates e"
    and "\<And>f b. in_floors f \<Longrightarrow> in_buttons b \<Longrightarrow> req e' f b \<Longrightarrow> req e f b \<or> given H C f b"
  shows "elev_in H C e'"
  using assms by (auto simp: elev_in_def)

lemma elev_in_mono: "elev_in H C e \<Longrightarrow> H \<subseteq> H' \<Longrightarrow> C \<subseteq> C' \<Longrightarrow> elev_in H' C' e"
  using given_mono mat_in_mono by (simp add: elev_in_def) blast

lemma lamps_in_mono: "lamps_in H pl \<Longrightarrow> H \<subseteq> H' \<Longrightarrow> lamps_in H' pl"
  by (auto simp: lamps_in_def)

lemma car_in_mono: "car_in H C s \<Longrightarrow> H \<subseteq> H' \<Longrightarrow> C \<subseteq> C' \<Longrightarrow> car_in H' C' s"
  by (auto simp: car_in_def intro: elev_in_mono lamps_in_mono)

lemma lights_in:
  assumes "elev_in H C e"
  shows "lamps_in H (apply_effects (map Hw (SetAllLights e)) pl)"
  using apply_lights(5) [of e pl] assms
  by (auto simp: lamps_in_def lights_shown_def lights_of_def elev_in_def mat_in_def in_floors_def)

lemma car_in_set:
  "elev_in H C e \<Longrightarrow> lamps_in H (apply_effects effs (hw s)) \<Longrightarrow> car_in H C (set_elev e effs s)"
  by (simp add: car_in_def)

section \<open>The handlers\<close>

lemma clear_in:
  assumes "elev_in H C e" "wf_elev e"
  shows "elev_in H C (fst (RequestsClearAtCurrentFloor e))"
proof (cases "in_floors (Floor e)")
  case True
  with clear_req [OF assms(2) True] show ?thesis by (intro elev_in_less [OF assms(1)]) auto
next
  case False
  then have "fst (RequestsClearAtCurrentFloor e) = e" by (auto simp: RequestsClearAtCurrentFloor_def in_floors_def)
  with assms(1) show ?thesis by simp
qed

lemma press_lights:
  assumes "OnRequestButtonPress f b e = Some (e', effs, evs)"
  shows "HallLightStates e' = HallLightStates e" "\<exists>xs. effs = xs @ map Hw (SetAllLights e')"
  using assms by (auto simp: OnRequestButtonPress_def HandleButtonEvent_def Let_def case_prod_beta
      split: Option.bind_splits if_splits)

lemma press_in:
  assumes inv: "fsm_inv e" and e: "elev_in H C e" and rng: "in_floors f" "in_buttons b" "given H C f b"
    and press: "OnRequestButtonPress f b e = Some (e', effs, evs)"
  shows "elev_in H C e'" "lamps_in H (apply_effects effs pl)"
proof -
  note pl = press_lights [OF press]
  show 1: "elev_in H C e'"
  proof (rule elev_in_less [OF e pl(1)])
    fix f' b' assume "in_floors f'" "in_buttons b'" "req e' f' b'"
    with press_cells(1) [OF inv rng(1,2) press, of f' b'] rng(3)
    show "req e f' b' \<or> given H C f' b'" by (cases "(f', b') = (f, b)") auto
  qed
  from pl(2) lights_in [OF 1] show "lamps_in H (apply_effects effs pl)" by auto
qed

lemma remove_in:
  assumes inv: "fsm_inv e" and e: "elev_in H C e" and rng: "in_floors f" "in_buttons b"
    and rem: "RemoveRequest f b e = Some (e', effs)" and pl: "lamps_in H pl"
  shows "elev_in H C e'" "lamps_in H (apply_effects effs pl)"
proof -
  note wf = fsm_invD(1) [OF inv]
  have r: "e' = put_req e f b False" "effs = [Hw (SetButtonLamp b f False)]"
    using rem by (auto simp: RemoveRequest_def set_request [OF wf rng] put_req_def)
  show "elev_in H C e'"
    by (rule elev_in_less [OF e]) (use rng in \<open>auto simp: r req_put_req wf split: if_splits\<close>)
  show "lamps_in H (apply_effects effs pl)"
    using pl rng by (auto simp: r panel_lamp lamps_in_def)
qed

lemma indicator_in:
  assumes "in_floors f"
  shows "lamps_in H (pl\<lparr>pnl := panel_write (SetFloorIndicator f) (pnl pl)\<rparr>) = lamps_in H pl"
  using assms panel_indicator [of f "pnl pl"] by (simp add: lamps_in_def in_floors_def)

lemma arrival_in:
  assumes inv: "fsm_inv e" and e: "elev_in H C e" and f: "in_floors f"
    and st: "OnFloorArrival f e = Some (e', effs, evs)" and pl: "lamps_in H pl"
  shows "elev_in H C e'" "lamps_in H (apply_effects effs pl)"
proof -
  let ?e1 = "e\<lparr>Floor := f\<rparr>"
  have e1: "elev_in H C ?e1" "wf_elev ?e1" using e fsm_invD(1) [OF inv] by (simp_all add: elev_in_def)
  from clear_in [OF this] have c: "elev_in H C (fst (RequestsClearAtCurrentFloor ?e1))" .
  then have c': "elev_in H C (fst (RequestsClearAtCurrentFloor ?e1)\<lparr>Behavior := DoorOpen\<rparr>)" by (simp add: elev_in_def)
  have "elev_in H C e' \<and> lamps_in H (apply_effects effs pl)"
    using st pl e1 c' lights_in [OF c] indicator_in [OF f, of H pl]
    by (auto simp: OnFloorArrival_def Let_def split: Option.bind_splits prod.splits if_splits)
  then show "elev_in H C e'" "lamps_in H (apply_effects effs pl)" by blast+
qed

lemma door_timeout_in:
  assumes inv: "fsm_inv e" and e: "elev_in H C e"
  shows "elev_in H C (fst (OnDoorTimeout e))" "lamps_in H (apply_effects (snd (OnDoorTimeout e)) pl)"
proof -
  have r: "elev_in H C (redirect e)" using e by (simp add: elev_in_def)
  have "wf_elev (redirect e)" using fsm_invD(1) [OF inv] by simp
  note c = clear_in [OF r this]
  show 1: "elev_in H C (fst (OnDoorTimeout e))"
  proof (cases "Behavior e = DoorOpen")
    case True
    then show ?thesis using e r c by (cases rule: door_timeout_cases) (simp_all add: OnDoorTimeout_def)
  next
    case False
    with e show ?thesis by (simp add: door_timeout_elsewhere)
  qed
  have "\<exists>xs. snd (OnDoorTimeout e) = xs @ map Hw (SetAllLights (fst (OnDoorTimeout e)))"
    by (auto simp: OnDoorTimeout_def Let_def split_beta)
  with lights_in [OF 1] show "lamps_in H (apply_effects (snd (OnDoorTimeout e)) pl)" by auto
qed

section \<open>The event loop\<close>

definition update_in :: "hall_calls \<Rightarrow> int set \<Rightarrow> LightAndAssignmentUpdate \<Rightarrow> bool" where
  "update_in H C u \<longleftrightarrow> mat_in H (HallAssignments u) \<and> mat_in H (LightStates u) \<and> cabs_in C (CabAssignments u)"

fun input_in :: "hall_calls \<Rightarrow> int set \<Rightarrow> ep_input \<Rightarrow> bool" where
  "input_in H C (ButtonRx b) \<longleftrightarrow> given H C (be_Floor b) (be_Button b)"
| "input_in H C (UpdateRx u) \<longleftrightarrow> update_in H C u"
| "input_in H C i \<longleftrightarrow> True"

definition hall_call_on_panel :: "int \<Rightarrow> ButtonType \<Rightarrow> bool" where
  "hall_call_on_panel f b \<longleftrightarrow> in_floors f \<and> (b = ButtonHallUp \<or> b = ButtonHallDown)"

definition event_in :: "hall_calls \<Rightarrow> ElevatorEvent \<Rightarrow> bool" where
  "event_in H e \<longleftrightarrow> (EventType e = HallButtonEvent \<longrightarrow>
     hall_call_on_panel (be_Floor (ee_ButtonEvent e)) (be_Button (ee_ButtonEvent e)) \<and>
     (be_Floor (ee_ButtonEvent e), be_Button (ee_ButtonEvent e)) \<in> H)"

lemma update_in_wf: "update_in H C u \<Longrightarrow> wf_update u"
  by (simp add: update_in_def wf_update_def mat_in_def cabs_in_def)

lemma update_in_mono: "update_in H C u \<Longrightarrow> H \<subseteq> H' \<Longrightarrow> C \<subseteq> C' \<Longrightarrow> update_in H' C' u"
  by (auto simp: update_in_def intro: mat_in_mono cabs_in_mono)

lemma event_in_mono: "event_in H e \<Longrightarrow> H \<subseteq> H' \<Longrightarrow> event_in H' e"
  by (auto simp: event_in_def)

lemma complete_in [simp]: "event_in H (makeHallAssignmentCompleteEventMessage be)"
  by (simp add: event_in_def make_messages)

lemma hall_body_in:
  assumes c: "c \<in> hall_cells" and inv: "ep_inv (fst so)" and so: "car_in H C (fst so)" "list_all (event_in H) (snd so)"
    and u: "update_in H C msg" and st: "HallOrder_body msg c so = Some so'"
  shows "car_in H C (fst so') \<and> list_all (event_in H) (snd so')"
proof -
  obtain f b where cf: "c = (f, b)" by fastforce
  obtain s out where so': "so = (s, out)" by fastforce
  have rng: "in_floors f" "in_buttons b" "b = ButtonHallUp \<or> b = ButtonHallDown"
    using c by (auto simp: cf hall_cells_def in_floors_def in_buttons_def)
  have i: "fsm_inv (elev s)" "elev_in H C (elev s)" "lamps_in H (hw s)"
    using inv so by (simp_all add: so' ep_inv_def car_in_def)
  have g: "mat_at (HallAssignments msg) f b \<Longrightarrow> given H C f b"
    using u rng by (auto simp: update_in_def mat_in_def given_def)
  show ?thesis
    using st so i g press_in [OF i(1,2) rng(1,2)] remove_in [OF i(1,2) rng(1,2) _ i(3)]
    by (auto simp: HallOrder_body_def cf so' list_all_iff car_in_def split: if_splits Option.bind_splits)
qed

lemma cab_body_in:
  assumes f: "f \<in> set floors" and inv: "ep_inv (fst so)" and so: "car_in H C (fst so)"
    and u: "update_in H C msg" and st: "CabOrder_body msg f so = Some so'"
  shows "car_in H C (fst so')"
proof -
  obtain s out where so': "so = (s, out)" by fastforce
  have rng: "in_floors f" "in_buttons ButtonCab" using f by (simp_all add: in_floors_def)
  have i: "fsm_inv (elev s)" "elev_in H C (elev s)" using inv so by (simp_all add: so' ep_inv_def car_in_def)
  have g: "CabAssignments msg ! nat f \<Longrightarrow> given H C f ButtonCab"
    using u rng by (auto simp: update_in_def cabs_in_def given_def)
  show ?thesis
    using st so g press_in [OF i rng]
    by (auto simp: CabOrder_body_def so' car_in_def split: if_splits Option.bind_splits)
qed

lemma hall_body_inv: "c \<in> hall_cells \<Longrightarrow> ep_inv (fst so) \<Longrightarrow> HallOrder_body msg c so = Some so' \<Longrightarrow> ep_inv (fst so')"
  using hall_body_ok [of c so "elev (fst so)" msg] by (auto simp: cab_kept_def)

lemma cab_body_inv: "f \<in> set floors \<Longrightarrow> ep_inv (fst so) \<Longrightarrow> CabOrder_body msg f so = Some so' \<Longrightarrow> ep_inv (fst so')"
  using cab_body_ok [of f so msg] by auto

lemma car_step_in:
  assumes inv: "ep_inv s" and s: "car_in H C s" and wf: "wf_input i" and i: "input_in H C i"
    and st: "ElevatorProgram_step s i = Some (s', out)"
  shows "car_in H C s' \<and> list_all (event_in H) out"
proof -
  have e: "fsm_inv (elev s)" "elev_in H C (elev s)" "lamps_in H (hw s)"
    using inv s by (simp_all add: ep_inv_def car_in_def)
  show ?thesis
  proof (cases i)
    case (ButtonRx b)
    with i wf have g: "given H C (be_Floor b) (be_Button b)" "in_floors (be_Floor b)" "in_buttons (be_Button b)"
      by (simp_all add: wf_input_def)
    show ?thesis
    proof (cases "be_Button b = ButtonCab")
      case True
      with st g press_in [OF e(1,2), of "be_Floor b" ButtonCab] ButtonRx show ?thesis
        by (auto simp: car_in_def split: Option.bind_splits)
    next
      case False
      with g(3) have "be_Button b = ButtonHallUp \<or> be_Button b = ButtonHallDown" by (auto simp: in_buttons_def)
      with st g s ButtonRx show ?thesis by (auto simp: event_in_def hall_call_on_panel_def given_def make_messages)
    qed
  next
    case (UpdateRx u)
    with i have u: "update_in H C u" by simp
    show ?thesis
    proof (cases "OrderType u")
      case HallOrder
      with st UpdateRx have "fold_opt (HallOrder_body u) (grid hall_buttons) (s, []) = Some (s', out)" by simp
      then have "ep_inv (fst (s', out)) \<and> car_in H C (fst (s', out)) \<and> list_all (event_in H) (snd (s', out))"
      proof (rule fold_opt_inv)
        fix c so so'
        assume "c \<in> set (grid hall_buttons)"
          "ep_inv (fst so) \<and> car_in H C (fst so) \<and> list_all (event_in H) (snd so)" "HallOrder_body u c so = Some so'"
        with hall_body_in [of c so H C u so'] hall_body_inv [of c so u so'] u
        show "ep_inv (fst so') \<and> car_in H C (fst so') \<and> list_all (event_in H) (snd so')"
          by (simp add: hall_cells_def)
      qed (simp add: inv s)
      then show ?thesis by simp
    next
      case CabOrder
      with st UpdateRx have f: "fold_opt (CabOrder_body u) floors (s, []) = Some (s', out)" by simp
      then have "ep_inv (fst (s', out)) \<and> car_in H C (fst (s', out))"
      proof (rule fold_opt_inv)
        fix f so so'
        assume "f \<in> set floors" "ep_inv (fst so) \<and> car_in H C (fst so)" "CabOrder_body u f so = Some so'"
        with cab_body_in [of f so H C u so'] cab_body_inv [of f so u so'] u
        show "ep_inv (fst so') \<and> car_in H C (fst so')" by blast
      qed (simp add: inv s)
      moreover from f have "snd (s', out) = []" by (rule fold_opt_inv) (simp, metis cab_body_silent)
      ultimately show ?thesis by simp
    next
      case LightUpdate
      have "elev_in H C (elev s\<lparr>HallLightStates := LightStates u\<rparr>)"
        using e(2) u by (simp add: elev_in_def update_in_def req_def)
      with lights_in [OF this] st UpdateRx LightUpdate show ?thesis
        by (auto simp: SetHallLights_def car_in_def Let_def)
    qed
  next
    case (FloorRx f)
    with wf have "in_floors f" by (simp add: wf_input_def)
    with st FloorRx arrival_in [OF e(1,2) this _ e(3)] show ?thesis
      by (auto simp: car_in_def list_all_iff split: Option.bind_splits)
  next
    case (ObstructionRx b)
    with st s show ?thesis by (auto simp: SetObstruction_def car_in_def elev_in_def)
  next
    case DoorOpenTimerFires
    with st door_timeout_in [OF e(1,2)] show ?thesis
      by (auto simp: Let_def case_prod_beta car_in_def split: if_splits)
  next
    case DoorStuckTimerFires
    with st s show ?thesis by (auto simp: car_in_def lamps_in_def event_in_def make_messages)
  qed
qed

lemma car_in_init:
  "car_in H C (fst (ElevatorProgram_init pl)) \<and> list_all (event_in H) (snd (ElevatorProgram_init pl))"
proof -
  have "mat_in H (HallLightStates NewElevator)" by (auto simp: NewElevator_def)
  then have "elev_in H C (NewElevator\<lparr>Dir := DirectionDown, Behavior := Moving\<rparr>)"
    using req_NewElevator by (simp add: elev_in_def)
  moreover have "lamp (pnl (apply_effects (snd InitFSM) pl)) f b \<longrightarrow> (f, b) \<in> H"
    if "in_floors f" "b = ButtonHallUp \<or> b = ButtonHallDown" for f b
    using that by (auto simp: InitFSM_def OnInitBetweenFloors_def lamps_off panel_motor valid_dir_def in_floors_def)
  ultimately show ?thesis
    by (simp add: ElevatorProgram_init_def car_in_def lamps_in_def InitFSM_def OnInitBetweenFloors_def
        event_in_def make_messages)
qed

lemma floors_nth [simp]: "length floors = 4" "in_floors f \<Longrightarrow> floors ! nat f = f"
  by (auto simp: floors_upto in_floors_def)

lemma sample_in:
  assumes "car_in H C s"
  shows "cabs_in C (es_CabRequests (transmitElevatorState (elev s)))"
proof -
  have "f \<in> C" if "in_floors f" "req (elev s) f ButtonCab" for f
  proof -
    have "elev_in H C (elev s)" using assms by (simp add: car_in_def)
    from elev_inD [OF this that(1) _ that(2)] show ?thesis by (simp add: given_def in_buttons_def)
  qed
  then show ?thesis
    by (auto simp: transmitElevatorState_def GetCabRequestsAsElevState_def cabs_in_def req_def in_floors_def nat_less_iff)
qed

end
