(* ===== verification/Calls_Node.thy ===== *)
theory Calls_Node
  imports Calls_Elevator Lift Transmitters
begin

text \<open>
  Where a node's calls come from: with inputs within a set \<open>H\<close> of hall calls and sets \<open>C n\<close> of
  cab calls of every node \<open>n\<close>, the hall requests a node holds and everything it sends stay
  within them. The same predicates say that messages have the shape and the identifiers the
  handlers expect, so that they also give \<open>wf_outside\<close>.
\<close>

section \<open>Messages within the calls\<close>

definition id_of_type :: "MessageIDType \<Rightarrow> uint64 \<Rightarrow> bool" where
  "id_of_type t k \<longleftrightarrow> unat k div 2 ^ 61 = unat t"

definition states_in :: "(int \<Rightarrow> int set) \<Rightarrow> (int, ElevatorState) gomap \<Rightarrow> bool" where
  "states_in C m \<longleftrightarrow> (\<forall>n st. map_of m n = Some st \<longrightarrow> cabs_in (C n) (es_CabRequests st))"

fun received_in :: "hall_calls \<Rightarrow> (int \<Rightarrow> int set) \<Rightarrow> int \<Rightarrow> node_in \<Rightarrow> bool" where
  "received_in H C nid (ElevatorEventRx e) \<longleftrightarrow> event_in H e \<and> wf_outside (ElevatorEventRx e)"
| "received_in H C nid (MyElevStatesRx st) \<longleftrightarrow> cabs_in (C nid) (es_CabRequests st)"
| "received_in H C nid (HallAssignmentsRx a) \<longleftrightarrow>
     mat_in H (nha_HallAssignment a) \<and> id_of_type NEW_HALL_ASSIGNMENT (nha_MessageID a)"
| "received_in H C nid (GlobalHallRequestRx g) \<longleftrightarrow> mat_in H (ghr_HallRequests g)"
| "received_in H C nid (CabRequestInfoRx c) \<longleftrightarrow> cabs_in (C (cri_ReceiverNodeID c)) (cri_CabRequest c)"
| "received_in H C nid (NodeElevStateUpdateRx u) \<longleftrightarrow> valid_map (NodeElevStatesMap u) \<and> states_in C (NodeElevStatesMap u)"
| "received_in H C nid (NewHallReqRx r) \<longleftrightarrow>
     hall_call_on_panel (nhr_Floor r) (nhr_HallButton r) \<and> (nhr_Floor r, nhr_HallButton r) \<in> H"
| "received_in H C nid (HallAssignmentCompleteRx c) \<longleftrightarrow>
     hall_call_on_panel (hac_Floor c) (hac_HallButton c) \<and> id_of_type HALL_ASSIGNMENT_COMPLETE (hac_MessageID c)"
| "received_in H C nid i \<longleftrightarrow> True"

fun sent_in :: "hall_calls \<Rightarrow> (int \<Rightarrow> int set) \<Rightarrow> int \<Rightarrow> node_out \<Rightarrow> bool" where
  "sent_in H C nid (AckTx a) \<longleftrightarrow>
     id_of_type NEW_HALL_ASSIGNMENT (ack_MessageID a) \<or> id_of_type HALL_ASSIGNMENT_COMPLETE (ack_MessageID a)"
| "sent_in H C nid (NodeElevStatesTx s) \<longleftrightarrow> cabs_in (C (nes_NodeID s)) (es_CabRequests (nes_ElevState s))"
| "sent_in H C nid (HallAssignmentTx a) \<longleftrightarrow> mat_in H (nha_HallAssignment a)"
| "sent_in H C nid (CabRequestInfoTx c) \<longleftrightarrow> cabs_in (C (cri_ReceiverNodeID c)) (cri_CabRequest c)"
| "sent_in H C nid (GlobalHallRequestTx g) \<longleftrightarrow> mat_in H (ghr_HallRequests g)"
| "sent_in H C nid (NewHallReqTx r) \<longleftrightarrow>
     hall_call_on_panel (nhr_Floor r) (nhr_HallButton r) \<and> (nhr_Floor r, nhr_HallButton r) \<in> H"
| "sent_in H C nid (ElevLightAndAssignmentUpdateTx u) \<longleftrightarrow> update_in H (C nid) u"
| "sent_in H C nid (HallAssignmentCompleteTx c) \<longleftrightarrow> hall_call_on_panel (hac_Floor c) (hac_HallButton c)"
| "sent_in H C nid x \<longleftrightarrow> True"

lemma received_in_wf: "received_in H C nid i \<Longrightarrow> wf_outside i"
  by (cases i) (auto simp: wf_outside_def wf_node_in_def mat_in_def cabs_in_def hall_call_on_panel_def hall_call_ok_def)

lemma states_in_mono: "states_in C m \<Longrightarrow> (\<And>n. C n \<subseteq> C' n) \<Longrightarrow> states_in C' m"
  unfolding states_in_def using cabs_in_mono by blast

lemma received_in_mono: "received_in H C nid i \<Longrightarrow> H \<subseteq> H' \<Longrightarrow> (\<And>n. C n \<subseteq> C' n) \<Longrightarrow> received_in H' C' nid i"
  by (cases i) (auto intro: mat_in_mono cabs_in_mono states_in_mono event_in_mono)

lemma sent_in_mono: "sent_in H C nid x \<Longrightarrow> H \<subseteq> H' \<Longrightarrow> (\<And>n. C n \<subseteq> C' n) \<Longrightarrow> sent_in H' C' nid x"
  by (cases x) (auto intro: mat_in_mono cabs_in_mono update_in_mono)

section \<open>The messages a node makes\<close>

lemma made_updates_in:
  "mat_in H g \<Longrightarrow> update_in H C (makeLightMessage g)"
  "mat_in H h \<Longrightarrow> mat_in H g \<Longrightarrow> update_in H C (makeHallAssignmentAndLightMessage h g)"
  "cabs_in C c \<Longrightarrow> update_in H C (makeCabOrderMessage c)"
  "update_in H C zero_update"
  by (auto simp: update_in_def makeLightMessage_def makeHallAssignmentAndLightMessage_def makeCabOrderMessage_def zero_update_def)

text \<open>The assigner distributes the hall requests it is given and makes up none.\<close>

definition hra_within :: "hra_runner \<Rightarrow> bool" where
  "hra_within run_hra \<longleftrightarrow> (\<forall>H exe inp answer. mat_in H (hra_HallRequests inp) \<longrightarrow> run_hra exe inp = Some answer \<longrightarrow>
     list_all (\<lambda>(_, h). mat_in H h) answer)"

lemma mat_in_UNIV: "mat_in UNIV m \<longleftrightarrow> wf_mat NUM_FLOORS 2 m"
  by (simp add: mat_in_def)

lemma hra_within_wf: "hra_within run_hra \<Longrightarrow> wf_hra run_hra"
  unfolding hra_within_def wf_hra_def mat_in_UNIV [symmetric] by blast

lemma HRA_in:
  assumes "hra_within run_hra" "mat_in H g" "HRAalgorithm goos run_hra states g = Some m"
  shows "list_all (\<lambda>(_, h). mat_in H h) m"
proof (cases "hra_executable goos")
  case None
  with assms(3) show ?thesis by (simp add: HRAalgorithm_def)
next
  case (Some exe)
  let ?inp = "\<lparr>hra_HallRequests = g, hra_States = hra_input_loop states []\<rparr>"
  have "m = (case run_hra (''costFNS/hallRequestAssigner/'' @ exe) ?inp of None \<Rightarrow> [] | Some ret \<Rightarrow> hra_output_loop ret [])"
    using assms(3) Some by (simp add: HRAalgorithm_def)
  moreover have "list_all (\<lambda>(_, h). mat_in H h) ret"
    if "run_hra (''costFNS/hallRequestAssigner/'' @ exe) ?inp = Some ret" for ret
    using assms(1) [unfolded hra_within_def, rule_format, of H ?inp _ ret] assms(2) that by simp
  ultimately show ?thesis by (auto split: option.splits intro: wf_output_loop)
qed

lemma assignments_in:
  assumes "list_all (\<lambda>(_, h). mat_in H h) out" "mat_in H g" "update_in H C (MyAssignment r)"
    "list_all (\<lambda>(_, a). mat_in H (nha_HallAssignment a)) (OtherAssignments r)"
  shows "update_in H C (MyAssignment (assignments_loop me g out r)) \<and>
    list_all (\<lambda>(_, a). mat_in H (nha_HallAssignment a)) (OtherAssignments (assignments_loop me g out r))"
  using assms
  by (induction me g out r rule: assignments_loop.induct)
    (auto simp: made_updates_in wf_values_update [where P = "\<lambda>a. mat_in H (nha_HallAssignment a)"])

lemma cab_requests_in:
  assumes "states_in C states" "list_all (\<lambda>(_, c). cabs_in (C (cri_ReceiverNodeID c)) (cri_CabRequest c)) acc"
  shows "list_all (\<lambda>(_, c). cabs_in (C (cri_ReceiverNodeID c)) (cri_CabRequest c)) (cab_requests_loop states reqs acc)"
  using assms
  by (induction states reqs acc rule: cab_requests_loop.induct)
    (auto simp: states_in_def cabs_in_zero wf_values_update [where P = "\<lambda>c. cabs_in (C (cri_ReceiverNodeID c)) (cri_CabRequest c)"]
      split: option.splits)

lemma compute_in:
  assumes hra: "hra_within run_hra" and g: "mat_in H g" and u: "states_in C (NodeElevStatesMap u)"
    and st: "ComputeHallAssignments goos run_hra sd u st g reqs = Some (result, sd')"
  shows "update_in H (C n) (MyAssignment result)"
    "list_all (\<lambda>(_, a). mat_in H (nha_HallAssignment a)) (OtherAssignments result)"
    "mat_in H (ghr_HallRequests (GlobalHallRequestMsg result))"
    "list_all (\<lambda>(_, c). cabs_in (C (cri_ReceiverNodeID c)) (cri_CabRequest c)) (CabRequestsMsgs result)"
proof -
  have z: "update_in H C' zero_update" "mat_in H (zero_mat 4 2)" for C' by (auto simp: made_updates_in)
  have a: "update_in H (C n) (MyAssignment (assignments_loop me g out zero_result))"
    "list_all (\<lambda>(_, a). mat_in H (nha_HallAssignment a)) (OtherAssignments (assignments_loop me g out zero_result))"
    if "HRAalgorithm goos run_hra states g = Some out" for out states me
    using assignments_in [OF HRA_in [OF hra g that] g, of "C n" zero_result me] z by simp_all
  have c: "list_all (\<lambda>(_, c). cabs_in (C (cri_ReceiverNodeID c)) (cri_CabRequest c)) (cab_requests_loop (NodeElevStatesMap u) reqs [])"
    using cab_requests_in [OF u, of "[]"] by simp
  show "update_in H (C n) (MyAssignment result)"
    "list_all (\<lambda>(_, a). mat_in H (nha_HallAssignment a)) (OtherAssignments result)"
    "mat_in H (ghr_HallRequests (GlobalHallRequestMsg result))"
    "list_all (\<lambda>(_, c). cabs_in (C (cri_ReceiverNodeID c)) (cri_CabRequest c)) (CabRequestsMsgs result)"
    using st z g a c
    by (auto simp: ComputeHallAssignments_def Let_def assignments_frame split: Option.bind_splits if_splits)
qed

section \<open>The node programs\<close>

definition node_calls_in :: "hall_calls \<Rightarrow> NodeData \<Rightarrow> bool" where
  "node_calls_in H node \<longleftrightarrow> mat_in H (GlobalHallRequests node)"

lemma set_hall_in:
  assumes "node_calls_in H node" "hall_call_ok (be_Floor ev) (be_Button ev)" "be_Button ev \<noteq> ButtonCab"
    and "v \<longrightarrow> (be_Floor ev, be_Button ev) \<in> H" and st: "set_hall node ev v = Some node'"
  shows "node_calls_in H node' \<and> ID node' = ID node"
proof -
  have b: "in_floors (be_Floor ev)" "be_Button ev = ButtonHallUp \<or> be_Button ev = ButtonHallDown"
    using assms(2,3) hall_button_cases [of "be_Button ev"] by (auto simp: hall_call_ok_def)
  have "wf_node node" using assms(1) by (simp add: node_calls_in_def wf_node_def mat_in_def)
  with set_hall_ok [OF this assms(2,3), of v] st
  have "node' = node\<lparr>GlobalHallRequests := mat_put (GlobalHallRequests node) (be_Floor ev) (be_Button ev) v\<rparr>" by simp
  with mat_in_put [OF _ b assms(4)] assms(1) show ?thesis by (simp add: node_calls_in_def)
qed

lemma publish_in: "node_calls_in H node \<Longrightarrow> list_all (sent_in H C nid) (publish node)"
  by (simp add: publish_def node_calls_in_def made_updates_in)

lemma state_request_in: "list_all (sent_in H C nid) (snd (state_request now l wanted))"
  by (simp add: state_request_def)

lemma after_event_in:
  assumes "master_after_event now node l = (node', l', out, v)" "node_calls_in H node"
  shows "node' = node \<and> list_all (sent_in H C nid) out"
  using assms publish_in [OF assms(2), of C nid] state_request_in [of H C nid now l "shouldDistributeHallRequests l"]
  by (auto simp: master_after_event_def case_prod_beta)

lemma process_new_in:
  assumes "mat_in H g" "hall_call_on_panel (nhr_Floor r) (nhr_HallButton r)" "(nhr_Floor r, nhr_HallButton r) \<in> H"
    and st: "ProcessNewHallRequest g r = Some (g', sd)"
  shows "mat_in H g'"
proof -
  have r: "r = \<lparr>nhr_Floor = nhr_Floor r, nhr_HallButton = nhr_HallButton r\<rparr>" by simp
  have "ProcessNewHallRequest g r = Some (mat_put g (nhr_Floor r) (nhr_HallButton r) True, True)"
    by (subst r) (rule new_request_process, use assms in \<open>auto simp: mat_in_def hall_call_on_panel_def\<close>)
  with st assms show ?thesis by (auto simp: hall_call_on_panel_def intro!: mat_in_put)
qed

lemma process_complete_in:
  assumes "mat_in H g" "buf_ok buf" "hall_call_on_panel (hac_Floor c) (hac_HallButton c)"
    and st: "ProcessHAComplete g buf c = Some (g', buf', new)"
  shows "mat_in H g'"
proof -
  have "hac_HallButton c = ButtonCab \<or> in_floors (hac_Floor c) \<and> 0 \<le> hac_HallButton c \<and> hac_HallButton c < 2"
    using assms(3) by (auto simp: hall_call_on_panel_def)
  from complete_process [OF mat_in_wf [OF assms(1)] assms(2) this] st assms(1,3) show ?thesis
    by (auto simp: hall_call_on_panel_def intro!: mat_in_put)
qed

lemma list_all_map_in: "list_all (\<lambda>(_, a). P (f a)) xs \<Longrightarrow> list_all P (map (\<lambda>(_, a). f a) xs)"
  by (induction xs) auto

lemma master_step_in:
  assumes inv: "master_inv node l" and node: "node_calls_in H node" and i: "received_in H C (ID node) i"
    and hra: "hra_within run_hra"
    and st: "MasterProgram_step goos run_hra now node l i = Some (node', l', out, v)"
  shows "node_calls_in H node' \<and> list_all (sent_in H C (ID node)) out"
proof (cases i)
  case (ElevatorEventRx e)
  let ?ev = "ee_ButtonEvent e"
  have ok: "hall_call_ok (be_Floor ?ev) (be_Button ?ev)"
    using i by (simp add: ElevatorEventRx wf_outside_def wf_node_in_def)
  show ?thesis
  proof (cases "EventType e = DoorStuckEvent \<or> be_Button ?ev = ButtonCab")
    case True
    with st node after_event_in [of now node l node' l' out v H C "ID node"] show ?thesis
      by (auto simp: ElevatorEventRx split: ElevatorEventType.splits)
  next
    case False
    then obtain n1 l1 w where w: "w \<longrightarrow> (be_Floor ?ev, be_Button ?ev) \<in> H"
      and s: "set_hall node ?ev w = Some n1" "master_after_event now n1 l1 = (node', l', out, v)"
    proof (cases "EventType e")
      case HallButtonEvent
      with st False i that [of True] show ?thesis by (auto simp: ElevatorEventRx event_in_def split: Option.bind_splits)
    next
      case LocalHallAssignmentCompleteEvent
      with st False that [of False] show ?thesis by (auto simp: ElevatorEventRx split: Option.bind_splits)
    next
      case DoorStuckEvent
      with False show ?thesis by simp
    qed
    from set_hall_in [OF node ok _ w s(1)] False after_event_in [OF s(2)] show ?thesis by auto
  qed
next
  case (MyElevStatesRx ms)
  with st i node show ?thesis by (auto simp: Let_def)
next
  case (NewHallReqRx r)
  with st obtain g sd where p: "ProcessNewHallRequest (GlobalHallRequests node) r = Some (g, sd)"
    by (auto split: Option.bind_splits)
  with i node NewHallReqRx have g: "mat_in H g"
    by (auto simp: node_calls_in_def intro: process_new_in)
  then have "node_calls_in H (node\<lparr>GlobalHallRequests := g\<rparr>)" by (simp add: node_calls_in_def)
  with publish_in [OF this, of C "ID node"] state_request_in st p node show ?thesis
    by (auto simp: NewHallReqRx Let_def case_prod_beta split: if_splits)
next
  case (NodeElevStateUpdateRx u)
  with st obtain result sd where c: "ComputeHallAssignments goos run_hra (shouldDistributeHallRequests l) u (myElevState l)
      (GlobalHallRequests node) (activeConnReq l) = Some (result, sd)"
    by (auto split: Option.bind_splits)
  have u: "states_in C (NodeElevStatesMap u)" using i NodeElevStateUpdateRx by simp
  have g: "mat_in H (GlobalHallRequests node)" using node by (simp add: node_calls_in_def)
  note r = compute_in [OF hra g u c]
  have "list_all (sent_in H C (ID node)) (map (\<lambda>(_, a). HallAssignmentTx a) (OtherAssignments result))"
    "list_all (sent_in H C (ID node)) (map (\<lambda>(_, a). CabRequestInfoTx a) (CabRequestsMsgs result))"
    using r(2,4) by (auto intro!: list_all_map_in)
  with r g st c node show ?thesis by (auto simp: NodeElevStateUpdateRx made_updates_in)
next
  case (HallAssignmentCompleteRx c)
  with st obtain g buf new where p: "ProcessHAComplete (GlobalHallRequests node) (recentHACompleteBuffer l) c = Some (g, buf, new)"
    by (auto split: Option.bind_splits)
  have "mat_in H g"
    by (rule process_complete_in [OF _ _ _ p])
      (use i node inv HallAssignmentCompleteRx in \<open>auto simp: node_calls_in_def master_inv_def\<close>)
  then have "node_calls_in H (node\<lparr>GlobalHallRequests := g\<rparr>)" by (simp add: node_calls_in_def)
  with publish_in [OF this, of C "ID node"] st p i show ?thesis by (auto simp: HallAssignmentCompleteRx Let_def)
qed (use st node in \<open>auto split: NetworkEvent.splits if_splits\<close>)

lemma slave_step_in:
  assumes node: "node_calls_in H node" and i: "received_in H C (ID node) i"
    and st: "SlaveProgram_step now node l i = (node', l', out, v)"
  shows "node_calls_in H node' \<and> list_all (sent_in H C (ID node)) out"
  using assms
proof (cases i)
  case (ElevatorEventRx e)
  with st i node hall_button_cases [of "be_Button (ee_ButtonEvent e)"] show ?thesis
    by (auto simp: event_in_def hall_call_on_panel_def wf_outside_def wf_node_in_def hall_call_ok_def
        split: ElevatorEventType.splits)
qed (auto simp: node_calls_in_def made_updates_in Let_def split: if_splits)

lemma disconnected_step_in:
  assumes inv: "disconnected_inv node d" and node: "node_calls_in H node" and i: "received_in H C (ID node) i"
    and st: "DisconnectedProgram_step node d i = Some (node', d', out, v)"
  shows "node_calls_in H node' \<and> list_all (sent_in H C (ID node)) out"
proof (cases i)
  case (ElevatorEventRx e)
  let ?ev = "ee_ButtonEvent e"
  have ok: "hall_call_ok (be_Floor ?ev) (be_Button ?ev)"
    using i by (simp add: ElevatorEventRx wf_outside_def wf_node_in_def)
  have "node_calls_in H (node\<lparr>GlobalHallRequests := g\<rparr>)"
    if "mat_set (GlobalHallRequests node) (be_Floor ?ev) (be_Button ?ev) False = Some g" "be_Button ?ev \<noteq> ButtonCab" for g
    using set_hall_in [OF node ok that(2), of False] that(1) by (simp add: set_hall_def)
  with st node show ?thesis
    by (auto simp: ElevatorEventRx node_calls_in_def made_updates_in
        split: ElevatorEventType.splits if_splits Option.bind_splits)
qed (use st node i in \<open>auto simp: made_updates_in split: if_splits\<close>)

lemma entry_in:
  assumes "node_calls_in H node"
  shows "list_all (sent_in H C (ID node)) (snd (program_entry rnd node st))"
  using assms by (cases st) (auto simp: MasterProgram_entry_def SlaveProgram_entry_def node_calls_in_def made_updates_in)

lemma exit_in:
  "node_calls_in H (fst (program_exit now node p)) = node_calls_in H node"
  "ID (fst (program_exit now node p)) = ID node"
  "list_all (sent_in H C nid) (snd (program_exit now node p))"
  by (cases p; simp add: MasterProgram_exit_def SlaveProgram_exit_def node_calls_in_def)+

lemma program_step_ID:
  assumes "program_step goos run_hra now node p i = Some (n', p', out, v)" "program_ok node p" "wf_node_in i"
  shows "ID n' = ID node"
proof (cases p)
  case (InMaster l)
  with assms show ?thesis
    by (cases i) (auto simp: master_after_event_def set_hall_def Let_def
        split: Option.bind_splits ElevatorEventType.splits NetworkEvent.splits if_splits prod.splits)
next
  case (InDisconnected d)
  with assms disconnected.step_ok [of node d i] show ?thesis by (fastforce split: Option.bind_splits)
next
  case (InSlave l)
  with assms slave.step_ok [of node i now l] show ?thesis by (fastforce split: prod.splits)
qed (use assms(1) in simp)

lemma main_step_in:
  assumes ok: "main_ok s" and node: "node_calls_in H (fst s)" and i: "received_in H C (ID (fst s)) i"
    and hra: "hra_within run_hra" and st: "main_step goos run_hra now rnd s i = Some (s', out)"
  shows "node_calls_in H (fst s') \<and> list_all (sent_in H C (ID (fst s))) out"
proof -
  from st obtain n1 p1 o1 v where p: "program_step goos run_hra now (fst s) (snd s) i = Some (n1, p1, o1, v)"
    by (auto simp: main_step_def split: Option.bind_splits)
  have pok: "program_ok (fst s) (snd s)" using ok by (simp add: main_ok_def)
  have 1: "node_calls_in H n1 \<and> list_all (sent_in H C (ID (fst s))) o1"
  proof (cases "snd s")
    case (InDisconnected d)
    with p pok disconnected_step_in [OF _ node i] show ?thesis by (auto split: Option.bind_splits)
  next
    case (InMaster l)
    with p pok master_step_in [OF _ node i hra] show ?thesis by (auto split: Option.bind_splits)
  next
    case (InSlave l)
    with p slave_step_in [OF node i] show ?thesis by (auto split: prod.splits)
  qed (use p node in simp)
  have nid: "ID n1 = ID (fst s)"
    using received_in_wf [OF i] program_step_ID [OF p pok] by (simp add: wf_outside_def)
  show ?thesis
  proof (cases v)
    case Stay
    with st p 1 show ?thesis by (auto simp: main_step_def)
  next
    case (Leave nx)
    let ?n2 = "(fst (program_exit now n1 p1))\<lparr>State := nx\<rparr>"
    have n2: "node_calls_in H ?n2" "ID ?n2 = ID (fst s)"
      using 1 exit_in [where p = p1] nid by (simp_all add: node_calls_in_def)
    from Leave st p 1 n2 entry_in [OF n2(1), of C rnd nx] exit_in(3) [of H C "ID (fst s)" now n1 p1] show ?thesis
      by (auto simp: main_step_def split_beta Let_def)
  qed
qed

section \<open>The state server and the transmitters\<close>

definition server_in :: "(int \<Rightarrow> int set) \<Rightarrow> srv \<Rightarrow> bool" where
  "server_in C s \<longleftrightarrow> valid_map (knownNodes s) \<and> valid_map (lastSeen s) \<and> states_in C (knownNodes s)"

fun answer_in :: "(int \<Rightarrow> int set) \<Rightarrow> srv_output \<Rightarrow> bool" where
  "answer_in C (NetworkEventTx e) \<longleftrightarrow> True"
| "answer_in C (ElevStateUpdateTx u) \<longleftrightarrow> valid_map (NodeElevStatesMap u) \<and> states_in C (NodeElevStatesMap u)"

fun server_input_in :: "(int \<Rightarrow> int set) \<Rightarrow> srv_input \<Rightarrow> bool" where
  "server_input_in C (ElevStateRx s) \<longleftrightarrow> cabs_in (C (nes_NodeID s)) (es_CabRequests (nes_ElevState s))"
| "server_input_in C i \<longleftrightarrow> True"

lemma states_in_update:
  "states_in C m \<Longrightarrow> cabs_in (C n) (es_CabRequests st) \<Longrightarrow> states_in C (AList.update n st m)"
  by (auto simp: states_in_def map_laws)

lemma active_in:
  assumes "server_in C s"
  shows "valid_map (findActiveNodes now (knownNodes s) (lastSeen s)) \<and>
    states_in C (findActiveNodes now (knownNodes s) (lastSeen s))"
proof -
  have v: "valid_map (lastSeen s)" using assms by (simp add: server_in_def)
  have "cabs_in (C n) (es_CabRequests (state_of (knownNodes s) n))" for n
    using assms by (auto simp: state_of_def server_in_def states_in_def zero_ElevatorState_def cabs_in_zero split: option.splits)
  with findActiveNodes_lookup [OF v] active_loop_lookup(1) [OF v valid_map_Nil] show ?thesis
    by (auto simp: states_in_def findActiveNodes_def split: option.splits if_splits)
qed

lemma server_step_in:
  assumes s: "server_in C s" and i: "server_input_in C i"
  shows "server_in C (fst (NodeElevStateServer_step myID now s i)) \<and>
    list_all (answer_in C) (snd (NodeElevStateServer_step myID now s i))"
  using s i active_in [OF s, of now]
  by (cases i) (auto simp: server_in_def Let_def map_laws states_in_update
      makeActiveElevStatesUpdateMessage_def makeAllElevStatesUpdateMessage_def)

definition assignment_in :: "hall_calls \<Rightarrow> NewHallAssignments \<Rightarrow> bool" where
  "assignment_in H a \<longleftrightarrow> mat_in H (nha_HallAssignment a) \<and> id_of_type NEW_HALL_ASSIGNMENT (nha_MessageID a)"

definition complete_msg_ok :: "HallAssignmentComplete \<Rightarrow> bool" where
  "complete_msg_ok c \<longleftrightarrow> hall_call_on_panel (hac_Floor c) (hac_HallButton c) \<and> id_of_type HALL_ASSIGNMENT_COMPLETE (hac_MessageID c)"

fun transmits :: "('m \<Rightarrow> bool) \<Rightarrow> 'm tx_out \<Rightarrow> bool" where
  "transmits P (Transmit m) = P m"
| "transmits P (After500ms k) = True"

lemma generated_id: "t \<le> 3 \<Longrightarrow> rnd < MSG_ID_PARTITION_SIZE \<Longrightarrow> id_of_type t (fst (GenerateMessageID t rnd))"
  unfolding id_of_type_def by (rule generated_partition)

lemma values_less: "set m' \<subseteq> set m \<Longrightarrow> list_all P m \<Longrightarrow> list_all P m'"
  by (auto simp: list_all_iff)

lemma found_in: "find P m = Some p \<Longrightarrow> list_all Q m \<Longrightarrow> Q p"
  by (auto simp: find_Some_iff list_all_iff)

lemma hat_step_in:
  assumes "list_all (\<lambda>(_, a). assignment_in H a) (activeAssignments st)"
    and "\<And>a rnd. i = HatNew a rnd \<Longrightarrow> mat_in H (nha_HallAssignment a) \<and> rnd < MSG_ID_PARTITION_SIZE"
  shows "list_all (\<lambda>(_, a). assignment_in H a) (activeAssignments (fst (HallAssignmentsTransmitter_step st i))) \<and>
    list_all (transmits (assignment_in H)) (snd (HallAssignmentsTransmitter_step st i))"
proof (cases i)
  case (HatNew a rnd)
  with assms(2) [OF this] have "assignment_in H (a\<lparr>nha_MessageID := fst (GenerateMessageID 0 rnd)\<rparr>)"
    by (simp add: assignment_in_def generated_id)
  with assms(1) HatNew show ?thesis by (auto simp: Let_def intro!: wf_values_update)
next
  case (HatTimeout k)
  with assms(1) show ?thesis by (auto split: option.splits dest: found_in)
next
  case (HatAck a)
  with assms(1) show ?thesis
    by (auto split: option.splits intro: values_less [OF set_delete_subset])
qed (use assms(1) in auto)

lemma hac_step_in:
  assumes "list_all (\<lambda>(_, c). complete_msg_ok c) (completedActiveAssignments st)"
    and "\<And>c rnd. i = HacNew c rnd \<Longrightarrow> hall_call_on_panel (hac_Floor c) (hac_HallButton c) \<and> rnd < MSG_ID_PARTITION_SIZE"
  shows "list_all (\<lambda>(_, c). complete_msg_ok c) (completedActiveAssignments (fst (HallAssignmentCompleteTransmitter_step st i))) \<and>
    list_all (transmits complete_msg_ok) (snd (HallAssignmentCompleteTransmitter_step st i))"
proof (cases i)
  case (HacNew c rnd)
  with assms(2) [OF this] have "complete_msg_ok (c\<lparr>hac_MessageID := fst (GenerateMessageID 3 rnd)\<rparr>)"
    by (simp add: complete_msg_ok_def generated_id)
  with assms(1) HacNew show ?thesis by (auto simp: Let_def intro!: wf_values_update)
next
  case (HacTimeout k)
  with assms(1) show ?thesis by (auto split: option.splits dest: found_in)
next
  case (HacAck a)
  with assms(1) show ?thesis by (auto intro: values_less [OF set_delete_subset])
qed (use assms(1) in auto)

end
