(* ===== verification/Station.thy ===== *)
theory Station
  imports Calls_Node State_Server
begin

text \<open>
  All goroutines of one node, wired as \<open>MakeNode\<close> of node/node.go wires them: the node's
  program and its elevator (theory \<open>Lift\<close>), the state server, the three transmitters, the
  distributor of acknowledgements, the UDP receiver and the broadcaster. Every channel but one
  is unbuffered: a goroutine with a send outstanding does not receive, and a send takes place
  when the goroutine at the other end is at its \<open>select\<close>. The broadcaster is always ready.
\<close>

section \<open>Channels and goroutines\<close>

datatype goroutine =
    NodeProgram | ElevatorProgram | StateSampler | StateServer | AssignmentTransmitter
  | CompleteTransmitter | GlobalTransmitter | AckDistributor | UdpReceiver | UdpBroadcaster

text \<open>
  The channels \<open>MakeNode\<close> makes, in its order. \<open>GlobalHallReqTransmitEnableTx\<close> is made twice; the
  second replaces the first before any goroutine is started.
\<close>

datatype channel =
    ch_AckTx | ch_ackRx | ch_NodeElevStatesTx | ch_NodeElevStateUpdate
  | ch_CabRequestInfoTx | ch_CabRequestInfoRx | ch_ConnectionReqTx | ch_ConnectionReqRx
  | ch_NewHallReqTx | ch_NewHallReqRx | ch_HallAssignmentCompleteTx | ch_HallAssignmentCompleteRx
  | ch_HATransToBcastTx | ch_globalHallReqTransToBroadcast | ch_HACompleteTransToBcast
  | ch_GlobalHallReqTransmitEnableTx | ch_HallRequestAssignerTransmitEnableTx
  | ch_HallAssignmentCompleteTransmitEnableTx | ch_HallAssignmentTx | ch_HallAssignmentsRx
  | ch_GlobalHallRequestTx | ch_GlobalHallRequestRx
  | ch_lightUpdateAckRx | ch_hallAssignmentsAckRx | ch_ConnectionReqAckRx | ch_hallAssignmentCompleteAckRx
  | ch_ElevLightAndAssignmentUpdateTx | ch_ElevatorEventRx | ch_MyElevStatesRx
  | ch_commandToServerTx | ch_NetworkEventRx | ch_receiverToServerCh

definition channels :: "channel list" where
  "channels =
    [ch_AckTx, ch_ackRx, ch_NodeElevStatesTx, ch_NodeElevStateUpdate,
     ch_CabRequestInfoTx, ch_CabRequestInfoRx, ch_ConnectionReqTx, ch_ConnectionReqRx,
     ch_NewHallReqTx, ch_NewHallReqRx, ch_HallAssignmentCompleteTx, ch_HallAssignmentCompleteRx,
     ch_HATransToBcastTx, ch_globalHallReqTransToBroadcast, ch_HACompleteTransToBcast,
     ch_GlobalHallReqTransmitEnableTx, ch_HallRequestAssignerTransmitEnableTx,
     ch_HallAssignmentCompleteTransmitEnableTx, ch_HallAssignmentTx, ch_HallAssignmentsRx,
     ch_GlobalHallRequestTx, ch_GlobalHallRequestRx,
     ch_lightUpdateAckRx, ch_hallAssignmentsAckRx, ch_ConnectionReqAckRx, ch_hallAssignmentCompleteAckRx,
     ch_ElevLightAndAssignmentUpdateTx, ch_ElevatorEventRx, ch_MyElevStatesRx,
     ch_commandToServerTx, ch_NetworkEventRx, ch_receiverToServerCh]"

definition capacity :: "channel \<Rightarrow> nat" where
  "capacity c = (if c = ch_ElevLightAndAssignmentUpdateTx then UPDATE_BUFFER else 0)"

text \<open>The goroutine that sends on a channel, and the one it was passed to for receiving, if any.\<close>

fun sender_of :: "channel \<Rightarrow> goroutine" where
  "sender_of ch_ackRx = UdpReceiver"
| "sender_of ch_receiverToServerCh = UdpReceiver"
| "sender_of ch_HallAssignmentsRx = UdpReceiver"
| "sender_of ch_NewHallReqRx = UdpReceiver"
| "sender_of ch_CabRequestInfoRx = UdpReceiver"
| "sender_of ch_GlobalHallRequestRx = UdpReceiver"
| "sender_of ch_ConnectionReqRx = UdpReceiver"
| "sender_of ch_HallAssignmentCompleteRx = UdpReceiver"
| "sender_of ch_hallAssignmentsAckRx = AckDistributor"
| "sender_of ch_lightUpdateAckRx = AckDistributor"
| "sender_of ch_ConnectionReqAckRx = AckDistributor"
| "sender_of ch_hallAssignmentCompleteAckRx = AckDistributor"
| "sender_of ch_HATransToBcastTx = AssignmentTransmitter"
| "sender_of ch_HACompleteTransToBcast = CompleteTransmitter"
| "sender_of ch_globalHallReqTransToBroadcast = GlobalTransmitter"
| "sender_of ch_ElevatorEventRx = ElevatorProgram"
| "sender_of ch_MyElevStatesRx = StateSampler"
| "sender_of ch_NodeElevStateUpdate = StateServer"
| "sender_of ch_NetworkEventRx = StateServer"
| "sender_of _ = NodeProgram"

fun receiver_of :: "channel \<Rightarrow> goroutine option" where
  "receiver_of ch_AckTx = Some UdpBroadcaster"
| "receiver_of ch_NodeElevStatesTx = Some UdpBroadcaster"
| "receiver_of ch_HACompleteTransToBcast = Some UdpBroadcaster"
| "receiver_of ch_HATransToBcastTx = Some UdpBroadcaster"
| "receiver_of ch_CabRequestInfoTx = Some UdpBroadcaster"
| "receiver_of ch_globalHallReqTransToBroadcast = Some UdpBroadcaster"
| "receiver_of ch_ConnectionReqTx = Some UdpBroadcaster"
| "receiver_of ch_NewHallReqTx = Some UdpBroadcaster"
| "receiver_of ch_ackRx = Some AckDistributor"
| "receiver_of ch_HallAssignmentTx = Some AssignmentTransmitter"
| "receiver_of ch_hallAssignmentsAckRx = Some AssignmentTransmitter"
| "receiver_of ch_HallRequestAssignerTransmitEnableTx = Some AssignmentTransmitter"
| "receiver_of ch_HallAssignmentCompleteTx = Some CompleteTransmitter"
| "receiver_of ch_hallAssignmentCompleteAckRx = Some CompleteTransmitter"
| "receiver_of ch_HallAssignmentCompleteTransmitEnableTx = Some CompleteTransmitter"
| "receiver_of ch_ElevLightAndAssignmentUpdateTx = Some ElevatorProgram"
| "receiver_of ch_commandToServerTx = Some StateServer"
| "receiver_of ch_receiverToServerCh = Some StateServer"
| "receiver_of ch_GlobalHallReqTransmitEnableTx = Some GlobalTransmitter"
| "receiver_of ch_GlobalHallRequestTx = Some GlobalTransmitter"
| "receiver_of ch_lightUpdateAckRx = None"
| "receiver_of ch_ConnectionReqAckRx = None"
| "receiver_of _ = Some NodeProgram"

text \<open>The channel each output of the node's program is sent on.\<close>

fun channel_of_out :: "node_out \<Rightarrow> channel" where
  "channel_of_out (AckTx a) = ch_AckTx"
| "channel_of_out (NodeElevStatesTx s) = ch_NodeElevStatesTx"
| "channel_of_out (HallAssignmentTx a) = ch_HallAssignmentTx"
| "channel_of_out (CabRequestInfoTx c) = ch_CabRequestInfoTx"
| "channel_of_out (GlobalHallRequestTx g) = ch_GlobalHallRequestTx"
| "channel_of_out (ConnectionReqTx c) = ch_ConnectionReqTx"
| "channel_of_out (commandToServerTx c) = ch_commandToServerTx"
| "channel_of_out (NewHallReqTx r) = ch_NewHallReqTx"
| "channel_of_out (ElevLightAndAssignmentUpdateTx u) = ch_ElevLightAndAssignmentUpdateTx"
| "channel_of_out (HallAssignmentCompleteTx c) = ch_HallAssignmentCompleteTx"
| "channel_of_out (GlobalHallReqTransmitEnableTx b) = ch_GlobalHallReqTransmitEnableTx"
| "channel_of_out (HallRequestAssignerTransmitEnableTx b) = ch_HallRequestAssignerTransmitEnableTx"
| "channel_of_out (HallAssignmentCompleteTransmitEnableTx b) = ch_HallAssignmentCompleteTransmitEnableTx"

section \<open>The state of a station\<close>

text \<open>What travels between stations, one constructor per channel of the broadcaster.\<close>

datatype net_msg =
    NetAck Ack
  | NetElevState NodeElevState
  | NetAssignment NewHallAssignments
  | NetNewCall NewHallRequest
  | NetCabInfo CabRequestInfo
  | NetGlobal GlobalHallRequest
  | NetConnReq ConnectionReq
  | NetComplete HallAssignmentComplete

text \<open>
  The \<open>_sends\<close> are the sends a goroutine still has to carry out, \<open>_timers\<close> the identifiers of
  the resend timers running, \<open>ack_held\<close> and \<open>packet\<close> what the distributor and the receiver wait
  to pass on.
\<close>

record station =
  lf :: lift
  clock :: Time
  st_server :: srv
  server_sends :: "srv_output list"
  st_hat :: hat_state
  hat_sends :: "NewHallAssignments list"
  hat_timers :: "uint64 list"
  st_hac :: hac_state
  hac_sends :: "HallAssignmentComplete list"
  hac_timers :: "uint64 list"
  st_ght :: ght_state
  ght_sends :: "GlobalHallRequest list"
  ack_held :: "Ack option"
  packet :: "net_msg option"

definition station_init :: "int \<Rightarrow> plant \<Rightarrow> station" where
  "station_init nid pl =
     \<lparr>lf = lift_init nid pl, clock = 0, st_server = srv_init, server_sends = [],
      st_hat = hat_init, hat_sends = [], hat_timers = [], st_hac = hac_init, hac_sends = [], hac_timers = [],
      st_ght = ght_init, ght_sends = [], ack_held = None, packet = None\<rparr>"

datatype st_act =
    LiftActs lift_act
  | NodeSendsOut
  | ServerTimer srv_input
  | ServerSendsOut
  | HatTimer uint64
  | HatSendsOut
  | HacTimer uint64
  | HacSendsOut
  | GhtTimer
  | GhtSendsOut
  | AckPassedOn
  | PacketPassedOn

section \<open>Steps\<close>

text \<open>A goroutine handles an input at its \<open>select\<close>.\<close>

definition server_handles :: "Time \<Rightarrow> srv_input \<Rightarrow> station \<Rightarrow> station" where
  "server_handles now i s =
     (let (srv, out) = NodeElevStateServer_step (ID (fst (lift_node (lf s)))) now (st_server s) i
      in s\<lparr>st_server := srv, server_sends := out\<rparr>)"

fun transmitted :: "'m tx_out list \<Rightarrow> 'm list" where
  "transmitted [] = []"
| "transmitted (Transmit m # xs) = m # transmitted xs"
| "transmitted (After500ms k # xs) = transmitted xs"

fun started :: "'m tx_out list \<Rightarrow> uint64 list" where
  "started [] = []"
| "started (Transmit m # xs) = started xs"
| "started (After500ms k # xs) = k # started xs"

definition hat_handles :: "hat_input \<Rightarrow> station \<Rightarrow> station" where
  "hat_handles i s =
     (let (t, out) = HallAssignmentsTransmitter_step (st_hat s) i
      in s\<lparr>st_hat := t, hat_sends := transmitted out, hat_timers := hat_timers s @ started out\<rparr>)"

definition hac_handles :: "hac_input \<Rightarrow> station \<Rightarrow> station" where
  "hac_handles i s =
     (let (t, out) = HallAssignmentCompleteTransmitter_step (st_hac s) i
      in s\<lparr>st_hac := t, hac_sends := transmitted out, hac_timers := hac_timers s @ started out\<rparr>)"

definition ght_handles :: "ght_input \<Rightarrow> station \<Rightarrow> station" where
  "ght_handles i s =
     (let (t, out) = GlobalHallRequestsTransmitter_step (st_ght s) i
      in s\<lparr>st_ght := t, ght_sends := out\<rparr>)"

text \<open>Whether the goroutine that receives an output of the node is ready for it.\<close>

fun can_send :: "station \<Rightarrow> node_out \<Rightarrow> bool" where
  "can_send s (ElevLightAndAssignmentUpdateTx u) = (length (updates (lf s)) < UPDATE_BUFFER)"
| "can_send s (commandToServerTx c) = (server_sends s = [])"
| "can_send s (HallAssignmentTx a) = (hat_sends s = [])"
| "can_send s (HallRequestAssignerTransmitEnableTx b) = (hat_sends s = [])"
| "can_send s (HallAssignmentCompleteTx c) = (hac_sends s = [])"
| "can_send s (HallAssignmentCompleteTransmitEnableTx b) = (hac_sends s = [])"
| "can_send s (GlobalHallRequestTx g) = (ght_sends s = [])"
| "can_send s (GlobalHallReqTransmitEnableTx b) = (ght_sends s = [])"
| "can_send s _ = True"

text \<open>The effect of an output at its receiver; the messages are what the broadcaster sends.\<close>

fun send_out :: "Time \<Rightarrow> uint64 \<Rightarrow> node_out \<Rightarrow> station \<Rightarrow> station \<times> net_msg list" where
  "send_out now rnd (AckTx a) s = (s, [NetAck a])"
| "send_out now rnd (NodeElevStatesTx st) s = (s, [NetElevState st])"
| "send_out now rnd (CabRequestInfoTx c) s = (s, [NetCabInfo c])"
| "send_out now rnd (ConnectionReqTx c) s = (s, [NetConnReq c])"
| "send_out now rnd (NewHallReqTx r) s = (s, [NetNewCall r])"
| "send_out now rnd (commandToServerTx c) s = (server_handles now (CommandRx c) s, [])"
| "send_out now rnd (HallAssignmentTx a) s = (hat_handles (HatNew a rnd) s, [])"
| "send_out now rnd (HallRequestAssignerTransmitEnableTx b) s = (hat_handles (HatEnable b) s, [])"
| "send_out now rnd (HallAssignmentCompleteTx c) s = (hac_handles (HacNew c rnd) s, [])"
| "send_out now rnd (HallAssignmentCompleteTransmitEnableTx b) s = (hac_handles (HacEnable b) s, [])"
| "send_out now rnd (GlobalHallRequestTx g) s = (ght_handles (GhtUpdate g) s, [])"
| "send_out now rnd (GlobalHallReqTransmitEnableTx b) s = (ght_handles (GhtEnable b) s, [])"
| "send_out now rnd (ElevLightAndAssignmentUpdateTx u) s = (s, [])"

text \<open>What the server's answers and the received packets are for the node.\<close>

fun answer_input :: "srv_output \<Rightarrow> node_in" where
  "answer_input (NetworkEventTx e) = NetworkEventRx e"
| "answer_input (ElevStateUpdateTx u) = NodeElevStateUpdateRx u"

fun packet_input :: "net_msg \<Rightarrow> node_in option" where
  "packet_input (NetAssignment a) = Some (HallAssignmentsRx a)"
| "packet_input (NetNewCall r) = Some (NewHallReqRx r)"
| "packet_input (NetCabInfo c) = Some (CabRequestInfoRx c)"
| "packet_input (NetGlobal g) = Some (GlobalHallRequestRx g)"
| "packet_input (NetConnReq c) = Some (ConnectionReqRx c)"
| "packet_input (NetComplete c) = Some (HallAssignmentCompleteRx c)"
| "packet_input (NetAck a) = None"
| "packet_input (NetElevState s) = None"

definition node_ready :: "station \<Rightarrow> node_in \<Rightarrow> bool" where
  "node_ready s i \<longleftrightarrow> node_sends (lf s) = [] \<and> receives (snd (lift_node (lf s))) i"

fun node_timer :: "node_in \<Rightarrow> bool" where
  "node_timer MasterConnectionTimeout = True"
| "node_timer ConnectionRequestTick = True"
| "node_timer DecisionTimeout = True"
| "node_timer i = False"

text \<open>The actions of node and elevator that need no other goroutine of the station.\<close>

fun own_act :: "lift_act \<Rightarrow> bool" where
  "own_act NodeSends = False"
| "own_act (NodeReceives i) = node_timer i"
| "own_act a = True"

fun st_can :: "Time \<Rightarrow> station \<Rightarrow> st_act \<Rightarrow> bool" where
  "st_can now s (LiftActs a) = (own_act a \<and> lift_can (lf s) a)"
| "st_can now s NodeSendsOut = (node_sends (lf s) \<noteq> [] \<and> can_send s (hd (node_sends (lf s))))"
| "st_can now s (ServerTimer i) =
     (server_sends s = [] \<and> (i = PeerTimeout \<or> i = ConnectionTimeout) \<and> srv_enabled now (st_server s) i)"
| "st_can now s ServerSendsOut = (server_sends s \<noteq> [] \<and> node_ready s (answer_input (hd (server_sends s))))"
| "st_can now s (HatTimer k) = (hat_sends s = [] \<and> k \<in> set (hat_timers s))"
| "st_can now s HatSendsOut = (hat_sends s \<noteq> [])"
| "st_can now s (HacTimer k) = (hac_sends s = [] \<and> k \<in> set (hac_timers s))"
| "st_can now s HacSendsOut = (hac_sends s \<noteq> [])"
| "st_can now s GhtTimer = (ght_sends s = [])"
| "st_can now s GhtSendsOut = (ght_sends s \<noteq> [])"
| "st_can now s AckPassedOn =
     (case ack_held s of
        None \<Rightarrow> False
      | Some a \<Rightarrow>
          (case IncomingAckDistributor a of
             None \<Rightarrow> True
           | Some hallAssignmentsAck \<Rightarrow> hat_sends s = []
           | Some HallAssignmentCompleteAck \<Rightarrow> hac_sends s = []
           | Some lightUpdateAck \<Rightarrow> False
           | Some connectionReqAck \<Rightarrow> False))"
| "st_can now s PacketPassedOn =
     (case packet s of
        None \<Rightarrow> False
      | Some (NetAck a) \<Rightarrow> ack_held s = None
      | Some (NetElevState st) \<Rightarrow> server_sends s = []
      | Some m \<Rightarrow> node_ready s (the (packet_input m)))"

definition with_lift :: "station \<Rightarrow> lift option \<Rightarrow> (station \<times> net_msg list) option" where
  "with_lift s r = map_option (\<lambda>l. (s\<lparr>lf := l\<rparr>, [])) r"

fun st_step :: "string \<Rightarrow> hra_runner \<Rightarrow> Time \<Rightarrow> uint64 \<Rightarrow> station \<Rightarrow> st_act \<Rightarrow> (station \<times> net_msg list) option" where
  "st_step goos run_hra now rnd s (LiftActs a) = with_lift s (lift_step goos run_hra now rnd (lf s) a)"
| "st_step goos run_hra now rnd s NodeSendsOut = do {
     l \<leftarrow> lift_step goos run_hra now rnd (lf s) NodeSends;
     Some (send_out now rnd (hd (node_sends (lf s))) (s\<lparr>lf := l\<rparr>))
   }"
| "st_step goos run_hra now rnd s (ServerTimer i) = Some (server_handles now i s, [])"
| "st_step goos run_hra now rnd s ServerSendsOut =
     with_lift (s\<lparr>server_sends := tl (server_sends s)\<rparr>)
       (lift_step goos run_hra now rnd (lf s) (NodeReceives (answer_input (hd (server_sends s)))))"
| "st_step goos run_hra now rnd s (HatTimer k) =
     Some (hat_handles (HatTimeout k) (s\<lparr>hat_timers := remove1 k (hat_timers s)\<rparr>), [])"
| "st_step goos run_hra now rnd s HatSendsOut =
     Some (s\<lparr>hat_sends := tl (hat_sends s)\<rparr>, [NetAssignment (hd (hat_sends s))])"
| "st_step goos run_hra now rnd s (HacTimer k) =
     Some (hac_handles (HacTimeout k) (s\<lparr>hac_timers := remove1 k (hac_timers s)\<rparr>), [])"
| "st_step goos run_hra now rnd s HacSendsOut =
     Some (s\<lparr>hac_sends := tl (hac_sends s)\<rparr>, [NetComplete (hd (hac_sends s))])"
| "st_step goos run_hra now rnd s GhtTimer = Some (ght_handles GhtInterval s, [])"
| "st_step goos run_hra now rnd s GhtSendsOut =
     Some (s\<lparr>ght_sends := tl (ght_sends s)\<rparr>, [NetGlobal (hd (ght_sends s))])"
| "st_step goos run_hra now rnd s AckPassedOn =
     (let a = the (ack_held s); s = s\<lparr>ack_held := None\<rparr>
      in Some (case IncomingAckDistributor a of
                 Some hallAssignmentsAck \<Rightarrow> hat_handles (HatAck a) s
               | Some HallAssignmentCompleteAck \<Rightarrow> hac_handles (HacAck a) s
               | _ \<Rightarrow> s, []))"
| "st_step goos run_hra now rnd s PacketPassedOn =
     (let m = the (packet s); s = s\<lparr>packet := None\<rparr>
      in case m of
           NetAck a \<Rightarrow> Some (s\<lparr>ack_held := Some a\<rparr>, [])
         | NetElevState st \<Rightarrow> Some (server_handles now (ElevStateRx st) s, [])
         | _ \<Rightarrow> with_lift s (lift_step goos run_hra now rnd (lf s) (NodeReceives (the (packet_input m)))))"

end
