(* ===== verification/Channels.thy ===== *)
theory Channels
  imports Station
begin

text \<open>The channels of \<open>MakeNode\<close> as a graph of goroutines that can wait for each other.\<close>

section \<open>Who waits for whom\<close>

definition waits_for :: "(goroutine \<times> goroutine) set" where
  "waits_for = {(sender_of c, r) |c r. receiver_of c = Some r}"

text \<open>A goroutine with a send outstanding is not at its \<open>select\<close>.\<close>

fun busy :: "station \<Rightarrow> goroutine \<Rightarrow> bool" where
  "busy s NodeProgram = (node_sends (lf s) \<noteq> [])"
| "busy s ElevatorProgram = (car_sends (lf s) \<noteq> [])"
| "busy s StateSampler = (sampled (lf s) \<noteq> None)"
| "busy s StateServer = (server_sends s \<noteq> [])"
| "busy s AssignmentTransmitter = (hat_sends s \<noteq> [])"
| "busy s CompleteTransmitter = (hac_sends s \<noteq> [])"
| "busy s GlobalTransmitter = (ght_sends s \<noteq> [])"
| "busy s AckDistributor = (ack_held s \<noteq> None)"
| "busy s UdpReceiver = (packet s \<noteq> None)"
| "busy s UdpBroadcaster = False"

fun rank :: "goroutine \<Rightarrow> nat" where
  "rank UdpBroadcaster = 0"
| "rank NodeProgram = 2"
| "rank AckDistributor = 2"
| "rank StateSampler = 3"
| "rank UdpReceiver = 3"
| "rank _ = 1"

lemma wait_edge: "receiver_of c = Some r \<Longrightarrow> (sender_of c, r) \<in> waits_for"
  by (auto simp: waits_for_def)

lemma unread: "receiver_of c = None \<longleftrightarrow> c = ch_lightUpdateAckRx \<or> c = ch_ConnectionReqAckRx"
  by (cases c) simp_all

lemma waits_rank:
  "(g, r) \<in> waits_for \<Longrightarrow> (g, r) \<in> {(ElevatorProgram, NodeProgram), (StateServer, NodeProgram)} \<or> rank r < rank g"
proof -
  assume "(g, r) \<in> waits_for"
  then obtain c where "g = sender_of c" "receiver_of c = Some r" by (auto simp: waits_for_def)
  then show ?thesis by (cases c) auto
qed

lemma ranked_acyclic:
  assumes "\<And>g r. (g, r) \<in> R \<Longrightarrow> rank r < (rank g :: nat)"
  shows "acyclic R"
proof -
  have "wf (measure rank)" by simp
  then have "acyclic ((measure rank)\<inverse>)" by (simp add: wf_acyclic)
  then show ?thesis by (rule acyclic_subset) (use assms in auto)
qed

lemma channels_all: "set channels = UNIV"
proof -
  have "c \<in> set channels" for c by (cases c) (simp_all add: channels_def)
  then show ?thesis by blast
qed

text \<open>C20: The wiring of \<open>MakeNode\<close> lets goroutines wait for each other in a circle only through an answer
  to the node, of its elevator or its state server: without these two channels' waits the graph
  of who waits for whom has no cycle. Every channel is listed once, only the two channels for
  acknowledgements of types nobody sends have no receiver, and the node's sends take place
  exactly when the buffer has room or the receiving goroutine is not itself sending.\<close>

theorem waits_only_in_two_circles:
  "acyclic (waits_for - {(ElevatorProgram, NodeProgram), (StateServer, NodeProgram)}) \<and>
   {(NodeProgram, ElevatorProgram), (ElevatorProgram, NodeProgram), (NodeProgram, StateServer), (StateServer, NodeProgram)}
     \<subseteq> waits_for \<and>
   distinct channels \<and> set channels = UNIV \<and>
   {c. receiver_of c = None} = {ch_lightUpdateAckRx, ch_ConnectionReqAckRx} \<and>
   can_send s x =
     (if capacity (channel_of_out x) = 0 then \<not> busy s (the (receiver_of (channel_of_out x)))
      else length (updates (lf s)) < capacity (channel_of_out x))"
proof (intro conjI)
  show "acyclic (waits_for - {(ElevatorProgram, NodeProgram), (StateServer, NodeProgram)})"
    using waits_rank by (intro ranked_acyclic) blast
  show "{c. receiver_of c = None} = {ch_lightUpdateAckRx, ch_ConnectionReqAckRx}"
    by (rule set_eqI) (simp only: unread mem_Collect_eq insert_iff empty_iff simp_thms)
  show "{(NodeProgram, ElevatorProgram), (ElevatorProgram, NodeProgram), (NodeProgram, StateServer), (StateServer, NodeProgram)}
     \<subseteq> waits_for"
    using wait_edge [of ch_ElevLightAndAssignmentUpdateTx] wait_edge [of ch_ElevatorEventRx]
      wait_edge [of ch_commandToServerTx] wait_edge [of ch_NetworkEventRx] by simp
  show "distinct channels" by (simp add: channels_def)
  show "set channels = UNIV" by (rule channels_all)
  show "can_send s x =
     (if capacity (channel_of_out x) = 0 then \<not> busy s (the (receiver_of (channel_of_out x)))
      else length (updates (lf s)) < capacity (channel_of_out x))"
    by (cases x) (simp_all add: capacity_def UPDATE_BUFFER_def)
qed

end
