(* ===== verification/Station_Calls.thy ===== *)
theory Station_Calls
  imports Station
begin

text \<open>
  The invariant of a station: everything it stores or is about to send stays within the calls
  given to it, and its node and elevator stay within the states of theory \<open>Lift\<close>. Every step
  keeps it, none panics, and what a step broadcasts is within the calls again.
\<close>

section \<open>Node and elevator\<close>

definition lift_in :: "hall_calls \<Rightarrow> (int \<Rightarrow> int set) \<Rightarrow> int \<Rightarrow> lift \<Rightarrow> bool" where
  "lift_in H C nid l \<longleftrightarrow>
     (\<exists>pl. \<not> door_lamp (pnl pl) \<and> lift_ok nid pl l) \<and> node_calls_in H (fst (lift_node l)) \<and>
     list_all (sent_in H C nid) (node_sends l) \<and> list_all (update_in H (C nid)) (updates l) \<and>
     car_in H (C nid) (lift_car l) \<and> list_all (event_in H) (car_sends l) \<and>
     (\<forall>st. sampled l = Some st \<longrightarrow> cabs_in (C nid) (es_CabRequests st))"

fun act_in :: "hall_calls \<Rightarrow> (int \<Rightarrow> int set) \<Rightarrow> int \<Rightarrow> lift_act \<Rightarrow> bool" where
  "act_in H C nid (NodeReceives i) \<longleftrightarrow> received_in H C nid i"
| "act_in H C nid (CarReceives i) \<longleftrightarrow> input_in H (C nid) i"
| "act_in H C nid a \<longleftrightarrow> True"

lemma lift_in_mono:
  assumes "lift_in H C nid l" "H \<subseteq> H'" "\<And>n. C n \<subseteq> C' n"
  shows "lift_in H' C' nid l"
  using assms(1) unfolding lift_in_def
  by (auto simp: node_calls_in_def intro: mat_in_mono [OF _ assms(2)] car_in_mono [OF _ assms(2,3)]
      cabs_in_mono [OF _ assms(3)] elim!: list.pred_mono_strong
      intro: sent_in_mono [OF _ assms(2,3)] update_in_mono [OF _ assms(2,3)] event_in_mono [OF _ assms(2)])

lemma lift_in_init:
  assumes "\<not> door_lamp (pnl pl)"
  shows "lift_in H C nid (lift_init nid pl)"
proof -
  have "lift_run ''linux'' everything_to_all nid pl (lift_init nid pl)" by (rule lift_start)
  from lift_run_ok [OF this assms wf_everything] have "lift_ok nid pl (lift_init nid pl)" by (simp add: hra_executable_def)
  with assms car_in_init [of H "C nid" pl] show ?thesis
    by (auto simp: lift_in_def lift_init_def node_calls_in_def main_init_def MakeNode_def)
qed

text \<open>The two kinds of step, at the node's and at the elevator's \<open>select\<close>.\<close>

lemma node_handles_in:
  assumes l: "lift_in H C nid l" and i: "received_in H C nid i" and hra: "hra_within run_hra" "hra_executable goos \<noteq> None"
  shows "\<exists>l'. node_handles goos run_hra now rnd l i = Some l' \<and> lift_in H C nid l'"
proof -
  from l obtain pl where pl: "\<not> door_lamp (pnl pl)" "lift_ok nid pl l" by (auto simp: lift_in_def)
  from node_handles_ok [OF pl(2) received_in_wf [OF i] hra_within_wf [OF hra(1)] hra(2), of now rnd] obtain l' where
    h: "node_handles goos run_hra now rnd l i = Some l'" "lift_ok nid pl l'" by blast
  then obtain n out where st: "main_step goos run_hra now rnd (lift_node l) i = Some (n, out)"
    "l' = l\<lparr>lift_node := n, node_sends := out\<rparr>"
    by (auto simp: node_handles_def split: Option.bind_splits)
  have nid: "ID (fst (lift_node l)) = nid" "main_ok (lift_node l)" using pl(2) by (simp_all add: lift_ok_def)
  have "node_calls_in H (fst n) \<and> list_all (sent_in H C (ID (fst (lift_node l)))) out"
    by (rule main_step_in [OF nid(2) _ _ hra(1) st(1)]) (use l i nid in \<open>simp_all add: lift_in_def\<close>)
  with h pl l st(2) nid show ?thesis by (auto simp: lift_in_def)
qed

lemma car_handles_in:
  assumes l: "lift_in H C nid l" and i: "input_in H (C nid) i" "enabled (lift_car l) i" "wf_input i"
  shows "\<exists>l'. car_handles l i = Some l' \<and> lift_in H C nid l'"
proof -
  from l obtain pl where pl: "\<not> door_lamp (pnl pl)" "lift_ok nid pl l" by (auto simp: lift_in_def)
  from car_handles_ok [OF pl(2,1) i(2,3)] obtain l' where
    h: "car_handles l i = Some l'" "lift_ok nid pl l'" by blast
  then obtain c out where st: "ElevatorProgram_step (lift_car l) i = Some (c, out)"
    "l' = l\<lparr>lift_car := c, car_sends := out\<rparr>"
    by (auto simp: car_handles_def split: Option.bind_splits)
  have "ep_inv (lift_car l)" using reach_inv [OF _ pl(1)] pl(2) by (simp add: lift_ok_def)
  from car_step_in [OF this _ i(3,1) st(1)] l have "car_in H (C nid) c \<and> list_all (event_in H) out"
    by (simp add: lift_in_def)
  with h pl l st(2) show ?thesis by (auto simp: lift_in_def)
qed

lemma sends_update_in:
  "sent_in H C nid x \<Longrightarrow> list_all (update_in H (C nid)) (updates_of [x])"
  by (cases x) simp_all

lemma lift_step_in:
  assumes l: "lift_in H C nid l" and can: "lift_can l a" and a: "act_in H C nid a"
    and hra: "hra_within run_hra" "hra_executable goos \<noteq> None"
  shows "\<exists>l'. lift_step goos run_hra now rnd l a = Some l' \<and> lift_in H C nid l'"
proof (cases a)
  case NodeSends
  from l obtain pl where pl: "\<not> door_lamp (pnl pl)" "lift_ok nid pl l" by (auto simp: lift_in_def)
  from lift_step_ok [OF pl(2,1) hra_within_wf [OF hra(1)] hra(2) can, of now rnd] NodeSends obtain l' where
    l': "lift_step goos run_hra now rnd l NodeSends = Some l'" "lift_ok nid pl l'" by blast
  have "node_sends l \<noteq> []" using can NodeSends by (auto split: list.splits)
  then have "sent_in H C nid (hd (node_sends l))" "list_all (sent_in H C nid) (tl (node_sends l))"
    using l by (cases "node_sends l"; simp add: lift_in_def)+
  with l' pl l sends_update_in NodeSends show ?thesis
    by (auto simp: lift_in_def simp del: updates_of_simps)
next
  case (NodeReceives i)
  with node_handles_in [OF l _ hra, of i now rnd] a show ?thesis by simp
next
  case NodeTakesEvent
  then have ne: "car_sends l \<noteq> []" using can by simp
  have l1: "lift_in H C nid (l\<lparr>car_sends := tl (car_sends l)\<rparr>)"
    using l ne by (cases "car_sends l") (auto simp: lift_in_def lift_ok_def)
  have "received_in H C nid (ElevatorEventRx (hd (car_sends l)))"
    using l ne by (cases "car_sends l") (auto simp: lift_in_def lift_ok_def)
  from node_handles_in [OF l1 this hra] NodeTakesEvent show ?thesis by simp
next
  case NodeTakesSample
  have l1: "lift_in H C nid (l\<lparr>sampled := None\<rparr>)" using l by (auto simp: lift_in_def lift_ok_def)
  have "received_in H C nid (MyElevStatesRx (the (sampled l)))" using l can NodeTakesSample by (auto simp: lift_in_def)
  from node_handles_in [OF l1 this hra] NodeTakesSample show ?thesis by simp
next
  case (CarReceives i)
  with car_handles_in [OF l, of i] a can show ?thesis by simp
next
  case CarTakesUpdate
  then have ne: "updates l \<noteq> []" using can by simp
  have l1: "lift_in H C nid (l\<lparr>updates := tl (updates l)\<rparr>)"
    using l ne by (cases "updates l") (auto simp: lift_in_def lift_ok_def)
  have u: "update_in H (C nid) (hd (updates l))" using l ne by (cases "updates l") (auto simp: lift_in_def)
  with update_in_wf [OF u] have "input_in H (C nid) (UpdateRx (hd (updates l)))" "wf_input (UpdateRx (hd (updates l)))"
    by (simp_all add: wf_input_def)
  from car_handles_in [OF l1 this(1) _ this(2)] CarTakesUpdate show ?thesis by (simp add: enabled_def)
next
  case TakeSample
  with l sample_in [of H "C nid" "lift_car l"] show ?thesis by (auto simp: lift_in_def lift_ok_def)
qed

section \<open>The station\<close>

fun net_in :: "hall_calls \<Rightarrow> (int \<Rightarrow> int set) \<Rightarrow> net_msg \<Rightarrow> bool" where
  "net_in H C (NetAck a) \<longleftrightarrow>
     id_of_type NEW_HALL_ASSIGNMENT (ack_MessageID a) \<or> id_of_type HALL_ASSIGNMENT_COMPLETE (ack_MessageID a)"
| "net_in H C (NetElevState s) \<longleftrightarrow> cabs_in (C (nes_NodeID s)) (es_CabRequests (nes_ElevState s))"
| "net_in H C (NetAssignment a) \<longleftrightarrow> assignment_in H a"
| "net_in H C (NetNewCall r) \<longleftrightarrow>
     hall_call_on_panel (nhr_Floor r) (nhr_HallButton r) \<and> (nhr_Floor r, nhr_HallButton r) \<in> H"
| "net_in H C (NetCabInfo c) \<longleftrightarrow> cabs_in (C (cri_ReceiverNodeID c)) (cri_CabRequest c)"
| "net_in H C (NetGlobal g) \<longleftrightarrow> mat_in H (ghr_HallRequests g)"
| "net_in H C (NetConnReq c) \<longleftrightarrow> True"
| "net_in H C (NetComplete c) \<longleftrightarrow> complete_msg_ok c"

definition ack_expected :: "Ack \<Rightarrow> bool" where
  "ack_expected a \<longleftrightarrow>
     id_of_type NEW_HALL_ASSIGNMENT (ack_MessageID a) \<or> id_of_type HALL_ASSIGNMENT_COMPLETE (ack_MessageID a)"

definition station_in :: "hall_calls \<Rightarrow> (int \<Rightarrow> int set) \<Rightarrow> int \<Rightarrow> station \<Rightarrow> bool" where
  "station_in H C nid s \<longleftrightarrow>
     lift_in H C nid (lf s) \<and> server_in C (st_server s) \<and> list_all (answer_in C) (server_sends s) \<and>
     list_all (\<lambda>(_, a). assignment_in H a) (activeAssignments (st_hat s)) \<and> list_all (assignment_in H) (hat_sends s) \<and>
     list_all (\<lambda>(_, c). complete_msg_ok c) (completedActiveAssignments (st_hac s)) \<and> list_all complete_msg_ok (hac_sends s) \<and>
     mat_in H (ghr_HallRequests (GHallRequests (st_ght s))) \<and>
     list_all (\<lambda>g. mat_in H (ghr_HallRequests g)) (ght_sends s) \<and>
     (\<forall>a. ack_held s = Some a \<longrightarrow> ack_expected a) \<and> (\<forall>m. packet s = Some m \<longrightarrow> net_in H C m)"

fun st_act_in :: "hall_calls \<Rightarrow> (int \<Rightarrow> int set) \<Rightarrow> int \<Rightarrow> st_act \<Rightarrow> bool" where
  "st_act_in H C nid (LiftActs a) \<longleftrightarrow> act_in H C nid a"
| "st_act_in H C nid a \<longleftrightarrow> True"

lemma net_in_mono: "net_in H C m \<Longrightarrow> H \<subseteq> H' \<Longrightarrow> (\<And>n. C n \<subseteq> C' n) \<Longrightarrow> net_in H' C' m"
  by (cases m) (auto simp: assignment_in_def intro: mat_in_mono cabs_in_mono)

lemma answer_in_mono: "answer_in C x \<Longrightarrow> (\<And>n. C n \<subseteq> C' n) \<Longrightarrow> answer_in C' x"
  by (cases x) (auto intro: states_in_mono)

lemma station_in_mono:
  assumes s: "station_in H C nid s" and H: "H \<subseteq> H'" and C: "\<And>n. C n \<subseteq> C' n"
  shows "station_in H' C' nid s"
proof -
  have a: "assignment_in H x \<Longrightarrow> assignment_in H' x" for x
    using mat_in_mono [OF _ H] by (auto simp: assignment_in_def)
  show ?thesis
    using s unfolding station_in_def
    by (auto simp: server_in_def list_all_iff intro: lift_in_mono [OF _ H C] states_in_mono [OF _ C]
        answer_in_mono [OF _ C] a mat_in_mono [OF _ H] net_in_mono [OF _ H C])
qed

lemma station_in_init:
  assumes "\<not> door_lamp (pnl pl)"
  shows "station_in H C nid (station_init nid pl)"
  using lift_in_init [OF assms, of H C nid]
  by (auto simp: station_in_def station_init_def server_in_def srv_init_def states_in_def hat_init_def hac_init_def ght_init_def)

lemma transmitted_in: "list_all (transmits P) out \<Longrightarrow> list_all P (transmitted out)"
  by (induction out rule: transmitted.induct) auto

lemma server_handles_in:
  assumes "station_in H C nid s" "server_input_in C i"
  shows "station_in H C nid (server_handles now i s)"
  using assms server_step_in [of C "st_server s" i "ID (fst (lift_node (lf s)))" now]
  by (auto simp: station_in_def server_handles_def case_prod_beta)

lemma hat_handles_in:
  assumes "station_in H C nid s"
    and "\<And>a rnd. i = HatNew a rnd \<Longrightarrow> mat_in H (nha_HallAssignment a) \<and> rnd < MSG_ID_PARTITION_SIZE"
  shows "station_in H C nid (hat_handles i s)"
  using assms(1) hat_step_in [OF _ assms(2), of "st_hat s"] transmitted_in
  by (auto simp: station_in_def hat_handles_def case_prod_beta)

lemma hac_handles_in:
  assumes "station_in H C nid s"
    and "\<And>c rnd. i = HacNew c rnd \<Longrightarrow> hall_call_on_panel (hac_Floor c) (hac_HallButton c) \<and> rnd < MSG_ID_PARTITION_SIZE"
  shows "station_in H C nid (hac_handles i s)"
  using assms(1) hac_step_in [OF _ assms(2), of "st_hac s"] transmitted_in
  by (auto simp: station_in_def hac_handles_def case_prod_beta)

lemma ght_handles_in:
  assumes "station_in H C nid s" "\<And>g. i = GhtUpdate g \<Longrightarrow> mat_in H (ghr_HallRequests g)"
  shows "station_in H C nid (ght_handles i s)"
  using assms by (cases i) (auto simp: station_in_def ght_handles_def)

lemma send_out_in:
  assumes s: "station_in H C nid s" and x: "sent_in H C nid x" and rnd: "rnd < MSG_ID_PARTITION_SIZE"
  shows "station_in H C nid (fst (send_out now rnd x s)) \<and> list_all (net_in H C) (snd (send_out now rnd x s))"
  using assms
  by (cases x) (auto intro!: server_handles_in hat_handles_in hac_handles_in ght_handles_in)

lemma tl_in: "list_all P xs \<Longrightarrow> list_all P (tl xs)" "list_all P xs \<Longrightarrow> xs \<noteq> [] \<Longrightarrow> P (hd xs)"
  by (cases xs; simp)+

lemma with_lift_in:
  assumes "station_in H C nid s" "\<exists>l. r = Some l \<and> lift_in H C nid l"
  shows "\<exists>s' out. with_lift s r = Some (s', out) \<and> station_in H C nid s' \<and> list_all (net_in H C) out"
  using assms by (auto simp: with_lift_def station_in_def)

lemma answer_received: "answer_in C x \<Longrightarrow> received_in H C nid (answer_input x)"
  by (cases x) simp_all

lemma packet_received: "net_in H C m \<Longrightarrow> packet_input m = Some i \<Longrightarrow> received_in H C nid i"
  by (cases m) (auto simp: assignment_in_def complete_msg_ok_def)

lemma ready_lift_can:
  assumes "node_ready s i" "\<not> from_elevator i" "received_in H C nid i"
  shows "lift_can (lf s) (NodeReceives i)"
  using assms received_in_wf [OF assms(3)] by (simp add: node_ready_def)

text \<open>A step succeeds, keeps the invariant, and broadcasts only what is within the calls.\<close>

lemma st_step_in:
  assumes s: "station_in H C nid s" and can: "st_can now s a" and a: "st_act_in H C nid a"
    and hra: "hra_within run_hra" "hra_executable goos \<noteq> None" and rnd: "rnd < MSG_ID_PARTITION_SIZE"
  shows "\<exists>s' out. st_step goos run_hra now rnd s a = Some (s', out) \<and> station_in H C nid s' \<and> list_all (net_in H C) out"
proof -
  have l: "lift_in H C nid (lf s)" using s by (simp add: station_in_def)
  have recv: "\<exists>l'. lift_step goos run_hra now rnd (lf s) (NodeReceives i) = Some l' \<and> lift_in H C nid l'"
    if "node_ready s i" "\<not> from_elevator i" "received_in H C nid i" for i
    using lift_step_in [OF l ready_lift_can [OF that] _ hra, of now rnd] that(3) by simp
  show ?thesis
  proof (cases a)
    case (LiftActs la)
    from lift_step_in [OF l _ _ hra, of la now rnd] can a LiftActs
    have "\<exists>l'. lift_step goos run_hra now rnd (lf s) la = Some l' \<and> lift_in H C nid l'" by simp
    from with_lift_in [OF s this] LiftActs show ?thesis by simp
  next
    case NodeSendsOut
    let ?x = "hd (node_sends (lf s))"
    have ne: "node_sends (lf s) \<noteq> []" using can NodeSendsOut by simp
    have "lift_can (lf s) NodeSends"
      using can ne NodeSendsOut by (cases "node_sends (lf s)"; cases ?x) auto
    from lift_step_in [OF l this _ hra, of now rnd] obtain l' where
      l': "lift_step goos run_hra now rnd (lf s) NodeSends = Some l'" "lift_in H C nid l'" by auto
    have "station_in H C nid (s\<lparr>lf := l'\<rparr>)" using s l'(2) by (simp add: station_in_def)
    moreover have "sent_in H C nid ?x" using l ne by (auto simp: lift_in_def intro: tl_in)
    ultimately show ?thesis using send_out_in [OF _ _ rnd, of H C nid "s\<lparr>lf := l'\<rparr>" ?x now] l' NodeSendsOut
      by (cases "send_out now rnd ?x (s\<lparr>lf := l'\<rparr>)") auto
  next
    case (ServerTimer i)
    with server_handles_in [OF s, of i now] can show ?thesis by auto
  next
    case ServerSendsOut
    let ?x = "hd (server_sends s)"
    have ne: "server_sends s \<noteq> []" using can ServerSendsOut by simp
    have x: "answer_in C ?x" using s ne by (auto simp: station_in_def intro: tl_in)
    have s1: "station_in H C nid (s\<lparr>server_sends := tl (server_sends s)\<rparr>)"
      using s by (auto simp: station_in_def intro: tl_in)
    have "\<not> from_elevator (answer_input ?x)" by (cases ?x) simp_all
    from with_lift_in [OF s1 recv [OF _ this answer_received [OF x]]] can ServerSendsOut show ?thesis by simp
  next
    case (HatTimer k)
    have "station_in H C nid (s\<lparr>hat_timers := remove1 k (hat_timers s)\<rparr>)" using s by (simp add: station_in_def)
    from hat_handles_in [OF this, of "HatTimeout k"] HatTimer show ?thesis by simp
  next
    case HatSendsOut
    with can s show ?thesis by (auto simp: station_in_def intro: tl_in)
  next
    case (HacTimer k)
    have "station_in H C nid (s\<lparr>hac_timers := remove1 k (hac_timers s)\<rparr>)" using s by (simp add: station_in_def)
    from hac_handles_in [OF this, of "HacTimeout k"] HacTimer show ?thesis by simp
  next
    case HacSendsOut
    with can s show ?thesis by (auto simp: station_in_def intro: tl_in)
  next
    case GhtTimer
    with ght_handles_in [OF s, of GhtInterval] show ?thesis by simp
  next
    case GhtSendsOut
    with can s show ?thesis
      by (auto simp: station_in_def intro: tl_in(1) tl_in(2) [where P = "\<lambda>g. mat_in H (ghr_HallRequests g)"])
  next
    case AckPassedOn
    have "station_in H C nid (s\<lparr>ack_held := None\<rparr>)" using s by (simp add: station_in_def)
    with hat_handles_in [OF this, of "HatAck (the (ack_held s))"] hac_handles_in [OF this, of "HacAck (the (ack_held s))"]
      AckPassedOn show ?thesis by (auto simp: Let_def split: option.splits ack_channel.splits)
  next
    case PacketPassedOn
    then obtain m where m: "packet s = Some m" using can by (auto split: option.splits)
    have mi: "net_in H C m" using s m by (simp add: station_in_def)
    have s1: "station_in H C nid (s\<lparr>packet := None\<rparr>)" using s by (simp add: station_in_def)
    show ?thesis
    proof (cases "packet_input m")
      case None
      then consider a where "m = NetAck a" | st where "m = NetElevState st" by (cases m) auto
      then show ?thesis
      proof cases
        case 1
        with mi s1 m PacketPassedOn show ?thesis by (auto simp: station_in_def ack_expected_def)
      next
        case 2
        with mi have "server_input_in C (ElevStateRx st)" by simp
        from server_handles_in [OF s1 this, of now] 2 m PacketPassedOn show ?thesis by (simp add: Let_def)
      qed
    next
      case (Some i)
      then have "\<not> from_elevator i" "node_ready s i" using can m PacketPassedOn by (cases m; auto)+
      from with_lift_in [OF s1 recv [OF this(2,1) packet_received [OF mi Some]]] Some m PacketPassedOn
      show ?thesis by (cases m) (auto simp: Let_def)
    qed
  qed
qed

end
