(* ===== verification/System.thy ===== *)
theory System
  imports Station_Calls
begin

text \<open>
  The whole system: the stations of all running nodes and the network between them. The network
  keeps every message ever broadcast and may hand any of them to any station at any time, so it
  loses, delays, repeats and reorders; a broadcast reaches the sender too. A station may be
  booted at any time, again after a crash, with empty memory and a car at rest. The history of
  button presses is kept to say where calls come from. Here the connections to the elevator servers
  hold and floor sensors report configured floors; theory \<open>Hardware_Link\<close> adds what happens when they do not.
\<close>

section \<open>States and actions\<close>

record sys =
  stations :: "int \<Rightarrow> station option"
  ether :: "net_msg list"
  presses :: "(int \<times> ButtonEvent) list"

definition sys_init :: sys where
  "sys_init = \<lparr>stations = (\<lambda>_. None), ether = [], presses = []\<rparr>"

datatype sys_act =
    Boot int plant
  | Act int Time uint64 st_act
  | Arrive int net_msg

text \<open>A press is a button event the elevator takes from its driver.\<close>

fun pressed_by :: "st_act \<Rightarrow> ButtonEvent list" where
  "pressed_by (LiftActs (CarReceives (ButtonRx b))) = [b]"
| "pressed_by _ = []"

fun sys_can :: "sys \<Rightarrow> sys_act \<Rightarrow> bool" where
  "sys_can S (Boot n pl) = (\<not> door_lamp (pnl pl))"
| "sys_can S (Act n now rnd a) =
     (case stations S n of
        None \<Rightarrow> False
      | Some s \<Rightarrow> clock s \<le> now \<and> rnd < MSG_ID_PARTITION_SIZE \<and> st_can now s a)"
| "sys_can S (Arrive n m) =
     (case stations S n of
        None \<Rightarrow> False
      | Some s \<Rightarrow> m \<in> set (ether S) \<and> packet s = None)"

text \<open>\<open>None\<close> is a panic of the station that acts.\<close>

fun sys_step :: "string \<Rightarrow> hra_runner \<Rightarrow> sys \<Rightarrow> sys_act \<Rightarrow> sys option" where
  "sys_step goos run_hra S (Boot n pl) =
     Some (S\<lparr>stations := (stations S)(n \<mapsto> station_init n pl)\<rparr>)"
| "sys_step goos run_hra S (Act n now rnd a) = do {
     s \<leftarrow> stations S n;
     (s', msgs) \<leftarrow> st_step goos run_hra now rnd s a;
     Some (S\<lparr>stations := (stations S)(n \<mapsto> s'\<lparr>clock := now\<rparr>), ether := ether S @ msgs,
             presses := presses S @ map (Pair n) (pressed_by a)\<rparr>)
   }"
| "sys_step goos run_hra S (Arrive n m) = do {
     s \<leftarrow> stations S n;
     Some (S\<lparr>stations := (stations S)(n \<mapsto> s\<lparr>packet := Some m\<rparr>)\<rparr>)
   }"

inductive sys_run :: "string \<Rightarrow> hra_runner \<Rightarrow> sys \<Rightarrow> bool" for goos run_hra where
  sys_start: "sys_run goos run_hra sys_init"
| sys_next: "sys_run goos run_hra S \<Longrightarrow> sys_can S a \<Longrightarrow> sys_step goos run_hra S a = Some S' \<Longrightarrow>
    sys_run goos run_hra S'"

section \<open>The invariant\<close>

definition hall_pressed :: "sys \<Rightarrow> hall_calls" where
  "hall_pressed S = {(be_Floor b, be_Button b) |n b. (n, b) \<in> set (presses S) \<and> be_Button b \<noteq> ButtonCab}"

definition cab_pressed :: "sys \<Rightarrow> int \<Rightarrow> int set" where
  "cab_pressed S n = {be_Floor b |b. (n, b) \<in> set (presses S) \<and> be_Button b = ButtonCab}"

definition sys_ok :: "sys \<Rightarrow> bool" where
  "sys_ok S \<longleftrightarrow>
     (\<forall>n s. stations S n = Some s \<longrightarrow> station_in (hall_pressed S) (cab_pressed S) n s) \<and>
     list_all (net_in (hall_pressed S) (cab_pressed S)) (ether S)"

lemma pressed_same [simp]:
  "hall_pressed (S\<lparr>stations := x\<rparr>) = hall_pressed S" "hall_pressed (S\<lparr>ether := e\<rparr>) = hall_pressed S"
  "cab_pressed (S\<lparr>stations := x\<rparr>) = cab_pressed S" "cab_pressed (S\<lparr>ether := e\<rparr>) = cab_pressed S"
  by (auto simp: hall_pressed_def cab_pressed_def)

lemma sys_okD:
  "sys_ok S \<Longrightarrow> stations S n = Some s \<Longrightarrow> station_in (hall_pressed S) (cab_pressed S) n s"
  "sys_ok S \<Longrightarrow> m \<in> set (ether S) \<Longrightarrow> net_in (hall_pressed S) (cab_pressed S) m"
  by (auto simp: sys_ok_def list_all_iff)

lemma sys_ok_init: "sys_ok sys_init"
  by (simp add: sys_ok_def sys_init_def)

text \<open>More presses only enlarge what a station may hold.\<close>

definition after_presses :: "sys \<Rightarrow> (int \<times> ButtonEvent) list \<Rightarrow> sys" where
  "after_presses S ps = S\<lparr>presses := presses S @ ps\<rparr>"

lemma pressed_grow:
  "hall_pressed S \<subseteq> hall_pressed (after_presses S ps)" "cab_pressed S n \<subseteq> cab_pressed (after_presses S ps) n"
  by (auto simp: hall_pressed_def cab_pressed_def after_presses_def)

lemma sys_ok_presses:
  assumes "sys_ok S"
  shows "sys_ok (after_presses S ps)"
  unfolding sys_ok_def list_all_iff
proof (intro conjI allI impI ballI)
  fix n s assume "stations (after_presses S ps) n = Some s"
  then have "stations S n = Some s" by (simp add: after_presses_def)
  from station_in_mono [OF sys_okD(1) [OF assms this] pressed_grow]
  show "station_in (hall_pressed (after_presses S ps)) (cab_pressed (after_presses S ps)) n s" .
next
  fix m assume "m \<in> set (ether (after_presses S ps))"
  then have "m \<in> set (ether S)" by (simp add: after_presses_def)
  from net_in_mono [OF sys_okD(2) [OF assms this] pressed_grow]
  show "net_in (hall_pressed (after_presses S ps)) (cab_pressed (after_presses S ps)) m" .
qed

text \<open>What a station does is within the calls once its own press is counted.\<close>

lemma own_press_in:
  assumes "st_can now s a"
  shows "st_act_in (hall_pressed (after_presses S (map (Pair n) (pressed_by a))))
    (cab_pressed (after_presses S (map (Pair n) (pressed_by a)))) n a"
proof (cases a)
  case (LiftActs la)
  show ?thesis
  proof (cases la)
    case (NodeReceives i)
    with LiftActs assms show ?thesis by (cases i) simp_all
  next
    case (CarReceives i)
    with LiftActs assms show ?thesis
      by (cases i) (auto simp: given_def hall_pressed_def cab_pressed_def after_presses_def)
  qed (simp_all add: LiftActs)
qed simp_all

lemma clock_in [simp]: "station_in H C n (s\<lparr>clock := now\<rparr>) = station_in H C n s"
  by (simp add: station_in_def)

lemma sys_step_ok:
  assumes ok: "sys_ok S" and can: "sys_can S a" and hra: "hra_within run_hra" "hra_executable goos \<noteq> None"
  shows "\<exists>S'. sys_step goos run_hra S a = Some S' \<and> sys_ok S'"
proof (cases a)
  case (Boot n pl)
  with can station_in_init [of pl "hall_pressed S" "cab_pressed S" n] ok show ?thesis
    by (auto simp: sys_ok_def)
next
  case (Act n now rnd st)
  with can obtain s where s: "stations S n = Some s" "rnd < MSG_ID_PARTITION_SIZE" "st_can now s st"
    by (auto split: option.splits)
  let ?T = "after_presses S (map (Pair n) (pressed_by st))"
  have T: "sys_ok ?T" "stations ?T n = Some s" using sys_ok_presses [OF ok] s(1) by (simp_all add: after_presses_def)
  from st_step_in [OF sys_okD(1) [OF T] s(3) own_press_in [OF s(3)] hra s(2)] obtain s' out where
    st: "st_step goos run_hra now rnd s st = Some (s', out)"
      "station_in (hall_pressed ?T) (cab_pressed ?T) n s'"
      "list_all (net_in (hall_pressed ?T) (cab_pressed ?T)) out" by blast
  let ?S' = "?T\<lparr>stations := (stations S)(n \<mapsto> s'\<lparr>clock := now\<rparr>), ether := ether S @ out\<rparr>"
  have "sys_step goos run_hra S a = Some ?S'" using Act s(1) st(1) by (simp add: after_presses_def)
  moreover have "sys_ok ?S'"
    using T(1) st(2,3) unfolding sys_ok_def by (auto simp: after_presses_def)
  ultimately show ?thesis by blast
next
  case (Arrive n m)
  with can obtain s where s: "stations S n = Some s" "m \<in> set (ether S)" by (auto split: option.splits)
  let ?S' = "S\<lparr>stations := (stations S)(n \<mapsto> s\<lparr>packet := Some m\<rparr>)\<rparr>"
  have "station_in (hall_pressed S) (cab_pressed S) n (s\<lparr>packet := Some m\<rparr>)"
    using sys_okD(1) [OF ok s(1)] sys_okD(2) [OF ok s(2)] by (simp add: station_in_def)
  then have "sys_ok ?S'" using ok by (auto simp: sys_ok_def)
  with Arrive s(1) show ?thesis by simp
qed

lemma sys_run_ok:
  assumes "sys_run goos run_hra S" "hra_within run_hra" "hra_executable goos \<noteq> None"
  shows "sys_ok S"
  using assms(1)
proof (induction rule: sys_run.induct)
  case sys_start
  show ?case by (rule sys_ok_init)
next
  case (sys_next S a S')
  with sys_step_ok [OF sys_next.IH sys_next.hyps(2) assms(2,3)] show ?case by simp
qed

section \<open>A concrete run\<close>

text \<open>A run given by its actions.\<close>

definition sys_acts :: "hra_runner \<Rightarrow> sys_act list \<Rightarrow> sys \<Rightarrow> sys option" where
  "sys_acts run_hra = fold_opt (\<lambda>a S. if sys_can S a then sys_step ''linux'' run_hra S a else None)"

lemma sys_acts_run:
  "sys_acts run_hra as S = Some S' \<Longrightarrow> sys_run ''linux'' run_hra S \<Longrightarrow> sys_run ''linux'' run_hra S'"
  unfolding sys_acts_def by (erule fold_opt_inv) (auto split: if_splits intro: sys_next)

text \<open>
  Two nodes boot; node 1 asks for a connection, node 2 hears it and becomes master. Then a cab
  and a hall button are pressed at node 2.
\<close>

definition first_request :: net_msg where
  "first_request = NetConnReq \<lparr>cr_TOLC = 0, cr_NodeID = 1, cr_MessageID = fst (GenerateMessageID CONNECTION_REQ 9)\<rparr>"

definition meeting :: "sys_act list" where
  "meeting =
     [Boot 1 dark_plant, Boot 2 dark_plant,
      Act 1 0 9 (LiftActs NodeTakesEvent),
      Act 1 0 9 (LiftActs (NodeReceives ConnectionRequestTick)),
      Act 1 0 9 NodeSendsOut,
      Act 2 0 9 (LiftActs NodeTakesEvent),
      Arrive 2 first_request,
      Act 2 0 9 PacketPassedOn,
      Act 2 0 9 (LiftActs (NodeReceives DecisionTimeout))] @
     replicate 5 (Act 2 0 9 NodeSendsOut)"

definition calls_at_2 :: "sys_act list" where
  "calls_at_2 =
     [Act 2 0 9 (LiftActs (CarReceives (FloorRx 0))),
      Act 2 0 9 (LiftActs (CarReceives (ButtonRx (mk_event 3 ButtonCab)))),
      Act 2 0 9 (LiftActs (CarReceives (ButtonRx (mk_event 2 ButtonHallUp)))),
      Act 2 0 9 (LiftActs NodeTakesEvent)]"

lemmas sys_run_defs = sys_acts_def sys_init_def meeting_def first_request_def station_init_def lift_init_def
  ElevatorProgram_init_def node_handles_def car_handles_def main_step_def main_init_def MakeNode_def
  makeDoorStuckMessage_def makeHallButtonEventMessage_def Let_def with_lift_def node_ready_def
  server_handles_def hat_handles_def ght_handles_def
  wf_outside_def wf_node_in_def hall_call_ok_def in_floors_def in_buttons_def wf_input_def enabled_def
  ShouldBeMaster_def IsZero_def DisconnectedProgram_entry_def MasterProgram_entry_def any_request_def
  grid_def floors_def hall_buttons_def zero_mat_def mat_at_def mat_set_def arr_get_def arr_set_def
  publish_def state_request_def Since_def Sub_def zero_Time_def durations UPDATE_BUFFER_def

lemma small_draw: "(9 :: uint64) < MSG_ID_PARTITION_SIZE"
  by (simp add: partition_size)

lemma replicate_5: "replicate 5 x = [x, x, x, x, x]"
  by (simp add: eval_nat_numeral)

lemma replicate_4: "replicate 4 x = [x, x, x, x]" "replicate 2 x = [x, x]" "replicate 3 x = [x, x, x]"
  by (simp_all add: eval_nat_numeral)

lemma meeting_run:
  "\<exists>S s. sys_acts run_hra meeting sys_init = Some S \<and> stations S 2 = Some s \<and> State (fst (lift_node (lf s))) = Master"
  by (simp add: sys_run_defs small_draw dark replicate_5 srv_init_def hat_init_def ght_init_def)


lemma calls_run:
  "\<exists>S s. sys_acts run_hra (meeting @ calls_at_2) sys_init = Some S \<and> stations S 2 = Some s \<and>
     mat_at (GlobalHallRequests (fst (lift_node (lf s)))) 2 ButtonHallUp \<and> req (elev (lift_car (lf s))) 3 ButtonCab \<and>
     sys_can S (Arrive 2 first_request)"
  by (simp add: sys_run_defs small_draw dark replicate_5 srv_init_def hat_init_def ght_init_def calls_at_2_def
      InitFSM_def NewElevator_def OnInitBetweenFloors_def OnFloorArrival_def RequestsShouldStop_def RequestsClearAtCurrentFloor_def
      mat_get_def RequestsBelow_def RequestsAbove_def RequestsHere_def req_def put_req_def mat_put_def
      OnRequestButtonPress_def HandleButtonEvent_def RequestsShouldClearImmediately_def replicate_4 set_hall_def
      master_after_event_def)

section \<open>Properties\<close>

lemma sys_lift:
  assumes "sys_run goos run_hra S" "hra_within run_hra" "hra_executable goos \<noteq> None" "stations S n = Some s"
  shows "lift_in (hall_pressed S) (cab_pressed S) n (lf s)"
  using sys_okD(1) [OF sys_run_ok [OF assms(1-3)] assms(4)] by (simp add: station_in_def)

lemma event_parts: "mk_event (be_Floor e) (be_Button e) = e" "be_Button e = b \<Longrightarrow> mk_event (be_Floor e) b = e"
  by (cases e; simp)+

lemma pressed_mk:
  "(f, b) \<in> hall_pressed S \<Longrightarrow> \<exists>n. (n, mk_event f b) \<in> set (presses S)"
  "f \<in> cab_pressed S n \<Longrightarrow> (n, mk_event f ButtonCab) \<in> set (presses S)"
  by (auto simp: hall_pressed_def cab_pressed_def event_parts)

lemma hra_within_everything: "hra_within everything_to_all"
  by (auto simp: hra_within_def everything_to_all_def list_all_iff)

lemma linux_executable: "hra_executable ''linux'' \<noteq> None"
  by (simp add: hra_executable_def)

text \<open>C2: No phantom calls: a hall request a node believes in, a hall call an elevator serves and a hall
  lamp that is lit were all asked for by somebody pressing exactly that button at some node.\<close>

theorem no_phantom_calls:
  assumes "sys_run goos run_hra S" "hra_within run_hra" "hra_executable goos \<noteq> None"
    and "stations S n = Some s" "in_floors f" "b = ButtonHallUp \<or> b = ButtonHallDown"
    and "mat_at (GlobalHallRequests (fst (lift_node (lf s)))) f b \<or> req (elev (lift_car (lf s))) f b \<or>
      lamp (pnl (hw (lift_car (lf s)))) f b"
  shows "\<exists>n'. (n', mk_event f b) \<in> set (presses S)"
proof -
  have "lift_in (hall_pressed S) (cab_pressed S) n (lf s)" by (rule sys_lift [OF assms(1-4)])
  with assms(5-7) have "(f, b) \<in> hall_pressed S"
    by (auto simp: lift_in_def node_calls_in_def mat_in_def car_in_def elev_in_def lamps_in_def given_def in_buttons_def)
  then show ?thesis by (rule pressed_mk)
qed

theorem no_phantom_calls_witness:
  "\<exists>S n'. sys_acts everything_to_all (meeting @ calls_at_2) sys_init = Some S \<and> (n', mk_event 2 ButtonHallUp) \<in> set (presses S)"
proof -
  obtain S s where S: "sys_acts everything_to_all (meeting @ calls_at_2) sys_init = Some S" "stations S 2 = Some s"
    "mat_at (GlobalHallRequests (fst (lift_node (lf s)))) 2 ButtonHallUp" using calls_run by blast
  from no_phantom_calls [OF sys_acts_run [OF S(1) sys_start] hra_within_everything linux_executable S(2), of 2 ButtonHallUp] S
  show ?thesis by (auto simp: in_floors_def)
qed

text \<open>C18: No phantom cab calls: a cab call pending in a car was pressed in that car, even when the node
  has crashed since and got its cab calls back from a master.\<close>

theorem no_phantom_cab_calls:
  assumes "sys_run goos run_hra S" "hra_within run_hra" "hra_executable goos \<noteq> None"
    and "stations S n = Some s" "in_floors f" "req (elev (lift_car (lf s))) f ButtonCab"
  shows "(n, mk_event f ButtonCab) \<in> set (presses S)"
proof -
  have "lift_in (hall_pressed S) (cab_pressed S) n (lf s)" by (rule sys_lift [OF assms(1-4)])
  with assms(5,6) have "f \<in> cab_pressed S n"
    by (auto simp: lift_in_def car_in_def given_def in_buttons_def dest!: elev_inD [where b = ButtonCab])
  then show ?thesis by (rule pressed_mk)
qed

theorem no_phantom_cab_calls_witness:
  "\<exists>S. sys_acts everything_to_all (meeting @ calls_at_2) sys_init = Some S \<and> (2, mk_event 3 ButtonCab) \<in> set (presses S)"
proof -
  obtain S s where S: "sys_acts everything_to_all (meeting @ calls_at_2) sys_init = Some S" "stations S 2 = Some s"
    "req (elev (lift_car (lf s))) 3 ButtonCab" using calls_run by blast
  from no_phantom_cab_calls [OF sys_acts_run [OF S(1) sys_start] hra_within_everything linux_executable S(2), of 3] S
  show ?thesis by (auto simp: in_floors_def)
qed

text \<open>The shape of a message.\<close>

fun net_typed :: "net_msg \<Rightarrow> bool" where
  "net_typed (NetAck a) = (IncomingAckDistributor a \<in> {Some hallAssignmentsAck, Some HallAssignmentCompleteAck})"
| "net_typed (NetElevState s) = (int (length (es_CabRequests (nes_ElevState s))) = NUM_FLOORS)"
| "net_typed (NetAssignment a) =
     (wf_mat NUM_FLOORS 2 (nha_HallAssignment a) \<and>
      IncomingAckDistributor \<lparr>ack_MessageID = nha_MessageID a, ack_NodeID = nha_NodeID a\<rparr> = Some hallAssignmentsAck)"
| "net_typed (NetNewCall r) = hall_call_on_panel (nhr_Floor r) (nhr_HallButton r)"
| "net_typed (NetCabInfo c) = (int (length (cri_CabRequest c)) = NUM_FLOORS)"
| "net_typed (NetGlobal g) = wf_mat NUM_FLOORS 2 (ghr_HallRequests g)"
| "net_typed (NetConnReq c) = True"
| "net_typed (NetComplete c) =
     (hall_call_on_panel (hac_Floor c) (hac_HallButton c) \<and>
      IncomingAckDistributor \<lparr>ack_MessageID = hac_MessageID c, ack_NodeID = 0\<rparr> = Some HallAssignmentCompleteAck)"

lemma id_routes:
  "id_of_type NEW_HALL_ASSIGNMENT (ack_MessageID a) \<Longrightarrow> IncomingAckDistributor a = Some hallAssignmentsAck"
  "id_of_type HALL_ASSIGNMENT_COMPLETE (ack_MessageID a) \<Longrightarrow> IncomingAckDistributor a = Some HallAssignmentCompleteAck"
  by (simp_all add: id_of_type_def distributor_by_value)

lemma net_in_typed: "net_in H C m \<Longrightarrow> net_typed m"
  by (cases m) (auto simp: id_routes assignment_in_def complete_msg_ok_def mat_in_def cabs_in_def)

text \<open>C19: Every message on the network is of the shape its receivers index without a check: matrices
  and cab lists have their fixed sizes, calls lie on the hall panel, and the identifiers of
  assignments, completions and their acknowledgements are of the partition of their type, so that
  the distributor hands each acknowledgement to a transmitter and never to the two channels
  that nobody receives from.\<close>

theorem messages_typed:
  assumes "sys_run goos run_hra S" "hra_within run_hra" "hra_executable goos \<noteq> None"
  shows "list_all net_typed (ether S) \<and>
    (\<forall>n s a. stations S n = Some s \<longrightarrow> ack_held s = Some a \<longrightarrow>
       IncomingAckDistributor a = Some hallAssignmentsAck \<or> IncomingAckDistributor a = Some HallAssignmentCompleteAck)"
proof -
  note ok = sys_run_ok [OF assms]
  have "net_typed m" if "m \<in> set (ether S)" for m
    using net_in_typed [OF sys_okD(2) [OF ok that]] .
  moreover have "ack_expected a" if "stations S n = Some s" "ack_held s = Some a" for n s a
    using sys_okD(1) [OF ok that(1)] that(2) by (simp add: station_in_def)
  then have "IncomingAckDistributor a = Some hallAssignmentsAck \<or> IncomingAckDistributor a = Some HallAssignmentCompleteAck"
    if "stations S n = Some s" "ack_held s = Some a" for n s a
    using that id_routes unfolding ack_expected_def by blast
  ultimately show ?thesis by (auto simp: list_all_iff)
qed

theorem messages_typed_witness:
  "\<exists>S. sys_acts everything_to_all (meeting @ calls_at_2) sys_init = Some S \<and> list_all net_typed (ether S)"
proof -
  obtain S s where S: "sys_acts everything_to_all (meeting @ calls_at_2) sys_init = Some S" using calls_run by blast
  from messages_typed [OF sys_acts_run [OF S sys_start] hra_within_everything linux_executable] S show ?thesis by blast
qed

end
