(* ===== verification/Bcast.thy ===== *)
theory Bcast
  imports Strconv
begin

text \<open>
  Network/network/bcast/bcast.go: the check of the channels given to \<open>Broadcaster\<close> and
  \<open>Receiver\<close>, the tagging of messages with their type's name and the dispatch of received
  ones. A Go type as package reflect shows it is \<open>GoType\<close>; \<open>Named\<close> is a declared type with its
  printed name and \<open>FuncT\<close> a function type with its printed form. The panics of \<open>checkArgs\<close> are values of \<open>check_error\<close>.

  The encoding of a message is a parameter: \<open>marshal\<close> and \<open>unmarshal\<close> are \<open>encoding/json\<close> at the
  channel's element type, \<open>tag\<close> and \<open>untag\<close> the same at \<open>typeTaggedJSON\<close>.
\<close>

section \<open>Types\<close>

datatype GoType =
    Basic string
  | Complex64 | Complex128 | FuncT string | UnsafePointer
  | ChanT GoType
  | MapT GoType GoType
  | ArrayT nat GoType
  | PtrT GoType
  | SliceT GoType
  | StructT "(string \<times> GoType) list"
  | Named string GoType

datatype check_error =
    NotAChannel int
  | RepeatedElemType int int
  | NotMarshalable GoType "int list"
  | MapKeyNotString GoType "int list"

text \<open>\<open>Kind\<close> looks through a type's name.\<close>

fun underlying :: "GoType \<Rightarrow> GoType" where
  "underlying (Named n t) = underlying t"
| "underlying t = t"

section \<open>The check of the arguments\<close>

fun checkTypeRecursive :: "GoType \<Rightarrow> int list \<Rightarrow> check_error + unit"
  and checkFields :: "(string \<times> GoType) list \<Rightarrow> int \<Rightarrow> int list \<Rightarrow> check_error + unit" where
  "checkTypeRecursive (Named n t) offsets = checkTypeRecursive t offsets"
| "checkTypeRecursive Complex64 offsets = Inl (NotMarshalable Complex64 offsets)"
| "checkTypeRecursive Complex128 offsets = Inl (NotMarshalable Complex128 offsets)"
| "checkTypeRecursive (FuncT sig) offsets = Inl (NotMarshalable (FuncT sig) offsets)"
| "checkTypeRecursive UnsafePointer offsets = Inl (NotMarshalable UnsafePointer offsets)"
| "checkTypeRecursive (ChanT t) offsets = Inl (NotMarshalable (ChanT t) offsets)"
| "checkTypeRecursive (MapT k t) offsets =
     (if underlying k \<noteq> Basic ''string'' then Inl (MapKeyNotString (MapT k t) offsets)
      else checkTypeRecursive t offsets)"
| "checkTypeRecursive (ArrayT n t) offsets = checkTypeRecursive t offsets"
| "checkTypeRecursive (PtrT t) offsets = checkTypeRecursive t offsets"
| "checkTypeRecursive (SliceT t) offsets = checkTypeRecursive t offsets"
| "checkTypeRecursive (StructT fields) offsets = checkFields fields 0 offsets"
| "checkTypeRecursive (Basic n) offsets = Inr ()"
| "checkFields [] idx offsets = Inr ()"
| "checkFields ((f, t) # fields) idx offsets =
     (case checkTypeRecursive t (offsets @ [idx + 1]) of
        Inl e \<Rightarrow> Inl e
      | Inr _ \<Rightarrow> checkFields fields (idx + 1) offsets)"

text \<open>The loop over \<open>elemTypes\<close>: the index of the first equal entry among those filled so far.\<close>

fun find_repeat :: "GoType \<Rightarrow> GoType list \<Rightarrow> int \<Rightarrow> int option" where
  "find_repeat t [] j = None"
| "find_repeat t (e # es) j = (if e = t then Some j else find_repeat t es (j + 1))"

fun checkArgs_loop :: "GoType list \<Rightarrow> GoType list \<Rightarrow> int \<Rightarrow> check_error + unit" where
  "checkArgs_loop [] elemTypes i = Inr ()"
| "checkArgs_loop (ch # chans) elemTypes i =
     (case underlying ch of
        ChanT elemType \<Rightarrow>
          (case find_repeat elemType elemTypes 0 of
             Some j \<Rightarrow> Inl (RepeatedElemType (j + 1) (i + 1))
           | None \<Rightarrow>
               (case checkTypeRecursive elemType [i + 1] of
                  Inl e \<Rightarrow> Inl e
                | Inr _ \<Rightarrow> checkArgs_loop chans (elemTypes @ [elemType]) (i + 1)))
      | _ \<Rightarrow> Inl (NotAChannel (i + 1)))"

definition checkArgs :: "GoType list \<Rightarrow> check_error + unit" where
  "checkArgs chans = checkArgs_loop chans [] 0"

section \<open>Broadcasting and receiving\<close>

abbreviation (input) BUF_SIZE :: nat where "BUF_SIZE \<equiv> 1024"

text \<open>The method \<open>String\<close> of a type.\<close>

fun type_name :: "GoType \<Rightarrow> string" and fields_text :: "(string \<times> GoType) list \<Rightarrow> string" where
  "type_name (Named n t) = n"
| "type_name (Basic n) = n"
| "type_name Complex64 = ''complex64''"
| "type_name Complex128 = ''complex128''"
| "type_name (FuncT sig) = sig"
| "type_name UnsafePointer = ''unsafe.Pointer''"
| "type_name (ChanT t) = ''chan '' @ type_name t"
| "type_name (MapT k t) = ''map['' @ type_name k @ '']'' @ type_name t"
| "type_name (ArrayT n t) = ''['' @ show_nat n @ '']'' @ type_name t"
| "type_name (PtrT t) = ''*'' @ type_name t"
| "type_name (SliceT t) = ''[]'' @ type_name t"
| "type_name (StructT []) = ''struct {}''"
| "type_name (StructT (ft # fields)) = ''struct {'' @ fields_text (ft # fields) @ '' }''"
| "fields_text [] = ''''"
| "fields_text [(f, t)] = '' '' @ f @ '' '' @ type_name t"
| "fields_text ((f, t) # ft # fields) = '' '' @ f @ '' '' @ type_name t @ '';'' @ fields_text (ft # fields)"

definition elem_name :: "GoType \<Rightarrow> string" where
  "elem_name ch = (case underlying ch of ChanT t \<Rightarrow> type_name t | _ \<Rightarrow> '''')"

text \<open>One iteration of the sender: \<open>None\<close> is the panic on a message longer than the buffer.\<close>

definition Broadcaster_step :: "('v \<Rightarrow> string) \<Rightarrow> (string \<times> string \<Rightarrow> string) \<Rightarrow> string list \<Rightarrow> nat \<Rightarrow> 'v \<Rightarrow> string option" where
  "Broadcaster_step marshal tag typeNames chosen value =
     (let ttj = tag (typeNames ! chosen, marshal value)
      in if BUF_SIZE < length ttj then None else Some ttj)"

definition chansMap :: "GoType list \<Rightarrow> (string, GoType) gomap" where
  "chansMap chans = fold (\<lambda>ch. AList.update (elem_name ch) ch) chans []"

text \<open>One iteration of the receiver: the channel the value is sent on, if the tag is known.\<close>

definition Receiver_step :: "(GoType \<Rightarrow> string \<Rightarrow> 'v) \<Rightarrow> (string \<Rightarrow> string \<times> string) \<Rightarrow> (string, GoType) gomap \<Rightarrow>
    string \<Rightarrow> (GoType \<times> 'v) option" where
  "Receiver_step unmarshal untag chans packet =
     (let (type_id, json) = untag (take BUF_SIZE packet)
      in case map_of chans type_id of
           None \<Rightarrow> None
         | Some ch \<Rightarrow> Some (ch, unmarshal ch json))"

section \<open>What the check guarantees\<close>

fun json_ok :: "GoType \<Rightarrow> bool" where
  "json_ok (Named n t) = json_ok t"
| "json_ok (Basic n) = True"
| "json_ok (MapT k t) = (underlying k = Basic ''string'' \<and> json_ok t)"
| "json_ok (ArrayT n t) = json_ok t"
| "json_ok (PtrT t) = json_ok t"
| "json_ok (SliceT t) = json_ok t"
| "json_ok (StructT fields) = (\<forall>ft \<in> set fields. json_ok (snd ft))"
| "json_ok _ = False"

lemma checkTypeRecursive_iff:
  "(checkTypeRecursive t offsets = Inr ()) = json_ok t"
  "(checkFields fields idx offsets = Inr ()) = (\<forall>ft \<in> set fields. json_ok (snd ft))"
  by (induction t offsets and fields idx offsets rule: checkTypeRecursive_checkFields.induct)
    (auto split: sum.splits)

lemma find_repeat_None: "find_repeat t es j = None \<longleftrightarrow> t \<notin> set es"
  by (induction t es j rule: find_repeat.induct) auto

definition elem_type :: "GoType \<Rightarrow> GoType option" where
  "elem_type ch = (case underlying ch of ChanT t \<Rightarrow> Some t | _ \<Rightarrow> None)"

lemma checkArgs_loop_iff:
  "checkArgs_loop chans es i = Inr () \<longleftrightarrow>
     (\<exists>ts. map elem_type chans = map Some ts \<and> distinct ts \<and> set ts \<inter> set es = {} \<and> (\<forall>t \<in> set ts. json_ok t))"
proof (induction chans es i rule: checkArgs_loop.induct)
  case (1 es i)
  then show ?case by simp
next
  case (2 ch chans es i)
  show ?case
  proof (cases "elem_type ch")
    case None
    then show ?thesis by (auto simp: elem_type_def Cons_eq_map_conv split: GoType.splits)
  next
    case (Some t)
    then have u: "underlying ch = ChanT t" by (auto simp: elem_type_def split: GoType.splits)
    have step: "checkArgs_loop (ch # chans) es i = Inr () \<longleftrightarrow>
      t \<notin> set es \<and> json_ok t \<and> checkArgs_loop chans (es @ [t]) (i + 1) = Inr ()"
      using find_repeat_None [of t es 0] checkTypeRecursive_iff(1) [of t "[i + 1]"]
      by (auto simp: u split: option.splits sum.splits)
    show ?thesis
    proof (cases "find_repeat t es 0 = None \<and> checkTypeRecursive t [i + 1] = Inr ()")
      case True
      with 2 [OF u] have IH: "checkArgs_loop chans (es @ [t]) (i + 1) = Inr () \<longleftrightarrow>
        (\<exists>ts. map elem_type chans = map Some ts \<and> distinct ts \<and> set ts \<inter> set (es @ [t]) = {} \<and> (\<forall>t \<in> set ts. json_ok t))"
        by simp
      show ?thesis unfolding step IH
        using Some by (fastforce simp: Cons_eq_map_conv)
    next
      case False
      then have "\<not> (t \<notin> set es \<and> json_ok t)"
        using find_repeat_None [of t es 0] checkTypeRecursive_iff(1) [of t "[i + 1]"] by auto
      then show ?thesis unfolding step using Some by (auto simp: Cons_eq_map_conv)
    qed
  qed
qed

lemma checkArgs_iff:
  "checkArgs chans = Inr () \<longleftrightarrow>
     (\<exists>ts. map elem_type chans = map Some ts \<and> distinct ts \<and> (\<forall>t \<in> set ts. json_ok t))"
  by (simp add: checkArgs_def checkArgs_loop_iff)

section \<open>Properties\<close>

text \<open>The check of a broadcaster's or receiver's arguments passes exactly when every argument is a
  channel, no element type is repeated, and every element type can be encoded as JSON.\<close>

theorem checkArgs_exact:
  "checkArgs chans = Inr () \<longleftrightarrow>
     (\<exists>ts. map elem_type chans = map Some ts \<and> distinct ts \<and> list_all json_ok ts)"
  by (simp add: checkArgs_iff list_all_iff)

end
