(* ===== verification/Hardware_Link.thy ===== *)
theory Hardware_Link
  imports System Bcast
begin

text \<open>
  The system with the connections of its nodes to their elevator servers, which the other theories take to
  hold: there a setter of elevator/elevio.go is the packet it writes and nothing more. Here a
  connection can be missing at the start or get lost at any time; \<open>Init\<close> then panics, and so do
  \<open>write\<close> in a handler that sets an output and \<open>read\<close> in the goroutines that poll. The floor sensor
  may report whatever \<open>GetFloor\<close> can return, and the broadcaster panics on a packet that is longer than its buffer.
\<close>

section \<open>What a step of the elevator writes\<close>

text \<open>The effects of the calls a handler makes, in their order, as the loop of \<open>ElevatorProgram\<close> makes them.\<close>

definition press_effects :: "int \<Rightarrow> ButtonType \<Rightarrow> ep_state \<Rightarrow> effect list" where
  "press_effects f b s = (case OnRequestButtonPress f b (elev s) of None \<Rightarrow> [] | Some (e, effs, evs) \<Rightarrow> effs)"

definition remove_effects :: "int \<Rightarrow> ButtonType \<Rightarrow> ep_state \<Rightarrow> effect list" where
  "remove_effects f b s = (case RemoveRequest f b (elev s) of None \<Rightarrow> [] | Some (e, effs) \<Rightarrow> effs)"

definition hall_cell_effects :: "LightAndAssignmentUpdate \<Rightarrow> int \<times> ButtonType \<Rightarrow> ep_out \<Rightarrow> effect list" where
  "hall_cell_effects msg cell so =
     (if mat_at (HallAssignments msg) (fst cell) (snd cell) then press_effects (fst cell) (snd cell) (fst so)
      else if req (elev (fst so)) (fst cell) (snd cell) then remove_effects (fst cell) (snd cell) (fst so)
      else [])"

definition cab_cell_effects :: "LightAndAssignmentUpdate \<Rightarrow> int \<Rightarrow> ep_out \<Rightarrow> effect list" where
  "cab_cell_effects msg floor so = (if CabAssignments msg ! nat floor then press_effects floor ButtonCab (fst so) else [])"

fun loop_effects :: "('c \<Rightarrow> 's \<Rightarrow> effect list) \<Rightarrow> ('c \<Rightarrow> 's \<Rightarrow> 's option) \<Rightarrow> 'c list \<Rightarrow> 's \<Rightarrow> effect list" where
  "loop_effects eff body [] s = []"
| "loop_effects eff body (c # cs) s = eff c s @ (case body c s of None \<Rightarrow> [] | Some s' \<Rightarrow> loop_effects eff body cs s')"

fun ep_effects :: "ep_state \<Rightarrow> ep_input \<Rightarrow> effect list" where
  "ep_effects s (ButtonRx button) =
     (if be_Button button = ButtonCab then press_effects (be_Floor button) (be_Button button) s else [])"
| "ep_effects s (UpdateRx msg) =
     (case OrderType msg of
        HallOrder \<Rightarrow> loop_effects (hall_cell_effects msg) (HallOrder_body msg) (grid hall_buttons) (s, [])
      | CabOrder \<Rightarrow> loop_effects (cab_cell_effects msg) (CabOrder_body msg) floors (s, [])
      | LightUpdate \<Rightarrow> snd (SetHallLights (LightStates msg) (elev s)))"
| "ep_effects s (FloorRx floor) = (case OnFloorArrival floor (elev s) of None \<Rightarrow> [] | Some (e, effs, evs) \<Rightarrow> effs)"
| "ep_effects s (ObstructionRx isObstructed) = []"
| "ep_effects s DoorOpenTimerFires =
     (if doorStuckTimerActive s then [] else [ResetDoorStuckTimer]) @ snd (OnDoorTimeout (elev s))"
| "ep_effects s DoorStuckTimerFires = []"

definition written :: "effect list \<Rightarrow> packet list" where
  "written effs = concat (map (\<lambda>x. case x of Hw pk \<Rightarrow> [pk] | _ \<Rightarrow> []) effs)"

lemma written_simps [simp]:
  "written [] = []" "written (Hw pk # effs) = pk # written effs" "written (ResetDoorOpenTimer # effs) = written effs"
  "written (ResetDoorStuckTimer # effs) = written effs" "written (StopDoorStuckTimer # effs) = written effs"
  "written (xs @ ys) = written xs @ written ys"
  by (simp_all add: written_def)

text \<open>Nothing is left out: the outputs of the hardware after a step are the old ones with these packets written.\<close>

lemma effects_written: "pnl (apply_effects effs pl) = fold panel_write (written effs) (pnl pl)"
proof (induction effs arbitrary: pl)
  case (Cons x effs)
  then show ?case by (cases x) simp_all
qed simp

definition writes :: "ep_state \<Rightarrow> effect list \<Rightarrow> ep_state \<Rightarrow> bool" where
  "writes s effs s' \<longleftrightarrow> pnl (hw s') = fold panel_write (written effs) (pnl (hw s))"

lemma writes_simps [simp]:
  "writes s [] s" "writes s effs (set_elev e effs s)" "writes s effs (s'\<lparr>elev := e\<rparr>) = writes s effs s'"
  by (simp_all add: writes_def set_elev_def effects_written)

lemma loop_writes:
  assumes "\<And>c s s'. body c s = Some s' \<Longrightarrow> writes (fst s) (eff c s) (fst s')" "fold_opt body cs s = Some s'"
  shows "writes (fst s) (loop_effects eff body cs s) (fst s')"
  using assms(2)
proof (induction cs arbitrary: s)
  case (Cons c cs)
  then obtain s1 where s1: "body c s = Some s1" "fold_opt body cs s1 = Some s'" by (auto split: Option.bind_splits)
  from Cons.IH [OF s1(2)] assms(1) [OF s1(1)] s1(1) show ?case by (simp add: writes_def)
qed simp

lemma step_writes:
  assumes "ElevatorProgram_step s i = Some (s', out)"
  shows "writes s (ep_effects s i) s'"
proof (cases i)
  case (UpdateRx msg)
  have hall: "writes (fst so) (hall_cell_effects msg c so) (fst so')" if "HallOrder_body msg c so = Some so'" for c so so'
    using that by (cases c; cases so)
      (auto simp: HallOrder_body_def hall_cell_effects_def press_effects_def remove_effects_def split: Option.bind_splits if_splits)
  have cab: "writes (fst so) (cab_cell_effects msg c so) (fst so')" if "CabOrder_body msg c so = Some so'" for c so so'
    using that by (cases so) (auto simp: CabOrder_body_def cab_cell_effects_def press_effects_def split: Option.bind_splits if_splits)
  from assms UpdateRx loop_writes [OF hall, where cs = "grid hall_buttons" and s = "(s, [])" and s' = "(s', out)"]
    loop_writes [OF cab, where cs = floors and s = "(s, [])" and s' = "(s', out)"]
  show ?thesis by (auto simp: Let_def case_prod_beta split: ElevatorOrderType.splits)
next
  case (ButtonRx b)
  with assms show ?thesis by (auto simp: press_effects_def split: Option.bind_splits if_splits)
next
  case (FloorRx f)
  with assms show ?thesis by (auto split: Option.bind_splits)
next
  case DoorOpenTimerFires
  with assms show ?thesis by (auto simp: Let_def case_prod_beta writes_def set_elev_def effects_written split: if_splits)
qed (use assms in \<open>auto simp: writes_def\<close>)

section \<open>States and actions\<close>

text \<open>\<open>connected\<close>: the connection of a node's process is up; \<open>readings\<close>: the history of what the floor sensors reported.\<close>

record hw_sys =
  whole :: sys
  connected :: "int \<Rightarrow> bool"
  readings :: "(int \<times> int) list"

definition hw_init :: hw_sys where
  "hw_init = \<lparr>whole = sys_init, connected = (\<lambda>_. False), readings = []\<rparr>"

text \<open>
  \<open>DialAndBoot\<close> starts a node's process, with whether \<open>net.Dial\<close> succeeds; the poller's reads are \<open>PollsHardware\<close>.
\<close>

datatype hw_act =
    DialAndBoot int plant bool
  | StationActs int Time uint64 st_act
  | MessageArrives int net_msg
  | PollsHardware int
  | LosesConnection int

fun sensed :: "st_act \<Rightarrow> int list" where
  "sensed (LiftActs (CarReceives (FloorRx f))) = [f]"
| "sensed _ = []"

text \<open>A reading of the floor sensor is a byte; all else is as in the system without connections.\<close>

fun hw_can :: "hw_sys \<Rightarrow> hw_act \<Rightarrow> bool" where
  "hw_can H (DialAndBoot n pl ok) = sys_can (whole H) (Boot n pl)"
| "hw_can H (StationActs n now rnd a) =
     (case sensed a of
        [] \<Rightarrow> sys_can (whole H) (Act n now rnd a)
      | f # _ \<Rightarrow> 0 \<le> f \<and> f < 256 \<and> rnd < MSG_ID_PARTITION_SIZE \<and>
          (case stations (whole H) n of None \<Rightarrow> False | Some s \<Rightarrow> clock s \<le> now \<and> car_sends (lf s) = []))"
| "hw_can H (MessageArrives n m) = sys_can (whole H) (Arrive n m)"
| "hw_can H (PollsHardware n) = (stations (whole H) n \<noteq> None)"
| "hw_can H (LosesConnection n) = (stations (whole H) n \<noteq> None \<and> connected H n)"

text \<open>The packets a station's step writes to its elevator server.\<close>

fun packets_of :: "station \<Rightarrow> st_act \<Rightarrow> packet list" where
  "packets_of s (LiftActs (CarReceives i)) = written (ep_effects (lift_car (lf s)) i)"
| "packets_of s (LiftActs CarTakesUpdate) = written (ep_effects (lift_car (lf s)) (UpdateRx (hd (updates (lf s)))))"
| "packets_of s _ = []"

text \<open>
  The actions that need the elevator server when it is not there. \<open>packet_length\<close> is the length of
  a message's packet as the broadcaster encodes it.
\<close>

fun hw_fails :: "hw_sys \<Rightarrow> hw_act \<Rightarrow> bool" where
  "hw_fails H (DialAndBoot n pl ok) = (driver_Init False ok = None)"
| "hw_fails H (StationActs n now rnd a) =
     (\<not> connected H n \<and> (case stations (whole H) n of None \<Rightarrow> False | Some s \<Rightarrow> packets_of s a \<noteq> []))"
| "hw_fails H (PollsHardware n) = (\<not> connected H n)"
| "hw_fails H _ = False"

definition broadcasts :: "sys \<Rightarrow> sys \<Rightarrow> net_msg list" where
  "broadcasts S S' = drop (length (ether S)) (ether S')"

fun hw_step :: "string \<Rightarrow> hra_runner \<Rightarrow> (net_msg \<Rightarrow> nat) \<Rightarrow> hw_sys \<Rightarrow> hw_act \<Rightarrow> hw_sys option" where
  "hw_step goos run_hra packet_length H (DialAndBoot n pl ok) =
     (if hw_fails H (DialAndBoot n pl ok) then None else do {
        S \<leftarrow> sys_step goos run_hra (whole H) (Boot n pl);
        Some (H\<lparr>whole := S, connected := (connected H)(n := True)\<rparr>)
      })"
| "hw_step goos run_hra packet_length H (StationActs n now rnd a) =
     (if hw_fails H (StationActs n now rnd a) then None else do {
        S \<leftarrow> sys_step goos run_hra (whole H) (Act n now rnd a);
        if list_ex (\<lambda>m. BUF_SIZE < packet_length m) (broadcasts (whole H) S) then None
        else Some (H\<lparr>whole := S, readings := readings H @ map (Pair n) (sensed a)\<rparr>)
      })"
| "hw_step goos run_hra packet_length H (MessageArrives n m) = do {
     S \<leftarrow> sys_step goos run_hra (whole H) (Arrive n m);
     Some (H\<lparr>whole := S\<rparr>)
   }"
| "hw_step goos run_hra packet_length H (PollsHardware n) = (if hw_fails H (PollsHardware n) then None else Some H)"
| "hw_step goos run_hra packet_length H (LosesConnection n) = Some (H\<lparr>connected := (connected H)(n := False)\<rparr>)"

inductive hw_run :: "string \<Rightarrow> hra_runner \<Rightarrow> (net_msg \<Rightarrow> nat) \<Rightarrow> hw_sys \<Rightarrow> bool" for goos run_hra packet_length where
  hw_start: "hw_run goos run_hra packet_length hw_init"
| hw_next: "hw_run goos run_hra packet_length H \<Longrightarrow> hw_can H a \<Longrightarrow> hw_step goos run_hra packet_length H a = Some H' \<Longrightarrow>
    hw_run goos run_hra packet_length H'"

section \<open>With configured floors only, the runs are those of the system\<close>

fun new_readings :: "hw_act \<Rightarrow> (int \<times> int) list" where
  "new_readings (StationActs n now rnd a) = map (Pair n) (sensed a)"
| "new_readings _ = []"

definition configured :: "(int \<times> int) list \<Rightarrow> bool" where
  "configured rs \<longleftrightarrow> list_all (\<lambda>(n, f). in_floors f) rs"

lemma configured_simps [simp]: "configured []" "configured (rs @ rs') = (configured rs \<and> configured rs')"
  by (simp_all add: configured_def)




section \<open>Properties\<close>

text \<open>A message of the step that does not fit the broadcaster's buffer.\<close>

fun too_long :: "string \<Rightarrow> hra_runner \<Rightarrow> (net_msg \<Rightarrow> nat) \<Rightarrow> hw_sys \<Rightarrow> hw_act \<Rightarrow> bool" where
  "too_long goos run_hra packet_length H (StationActs n now rnd a) =
     (case sys_step goos run_hra (whole H) (Act n now rnd a) of
        None \<Rightarrow> False
      | Some S \<Rightarrow> list_ex (\<lambda>m. BUF_SIZE < packet_length m) (broadcasts (whole H) S))"
| "too_long goos run_hra packet_length H _ = False"


text \<open>Node 1 starts with its elevator server; then it loses the connection.\<close>

definition hw_acts :: "hra_runner \<Rightarrow> (net_msg \<Rightarrow> nat) \<Rightarrow> hw_act list \<Rightarrow> hw_sys \<Rightarrow> hw_sys option" where
  "hw_acts run_hra packet_length =
     fold_opt (\<lambda>a H. if hw_can H a then hw_step ''linux'' run_hra packet_length H a else None)"

lemma hw_acts_run:
  "hw_acts run_hra packet_length as H = Some H' \<Longrightarrow> hw_run ''linux'' run_hra packet_length H \<Longrightarrow> hw_run ''linux'' run_hra packet_length H'"
  unfolding hw_acts_def by (erule fold_opt_inv) (auto split: if_splits intro: hw_next)

definition starting :: "hw_act list" where
  "starting = [DialAndBoot 1 dark_plant True, StationActs 1 0 9 (LiftActs NodeTakesEvent)]"

definition reaches_floor :: "int \<Rightarrow> hw_act" where
  "reaches_floor f = StationActs 1 0 9 (LiftActs (CarReceives (FloorRx f)))"

definition hall_press :: hw_act where
  "hall_press = StationActs 1 0 9 (LiftActs (CarReceives (ButtonRx (mk_event 2 ButtonHallUp))))"

lemmas hw_run_defs = sys_run_defs hw_acts_def starting_def reaches_floor_def hall_press_def hw_init_def dark small_draw
  driver_Init_def broadcasts_def configured_def InitFSM_def NewElevator_def OnInitBetweenFloors_def OnFloorArrival_def
  RequestsShouldStop_def RequestsClearAtCurrentFloor_def mat_get_def RequestsBelow_def replicate_4

lemma starting_run:
  "\<exists>H. hw_acts run_hra packet_length starting hw_init = Some H \<and>
     hw_can H (reaches_floor 0) \<and> configured (readings H @ new_readings (reaches_floor 0)) \<and>
     \<not> hw_fails H (reaches_floor 0) \<and> \<not> too_long ''linux'' run_hra packet_length H (reaches_floor 0) \<and>
     hw_can H (reaches_floor 4) \<and> \<not> hw_fails H (reaches_floor 4) \<and>
     hw_step ''linux'' run_hra packet_length H (reaches_floor 4) = None"
  by (simp add: hw_run_defs)



text \<open>The hypothesis on the floor sensor is needed: a car on its way panics at a fifth floor, above the configured four.\<close>

theorem unconfigured_floor_panics:
  "\<exists>H. hw_run ''linux'' everything_to_all packet_length H \<and> hw_can H (reaches_floor 4) \<and> \<not> hw_fails H (reaches_floor 4) \<and>
     hw_step ''linux'' everything_to_all packet_length H (reaches_floor 4) = None"
  using starting_run hw_acts_run [OF _ hw_start] by blast

end
