(* ===== verification/Station_Rest.thy ===== *)
theory Station_Rest
  imports System "HOL-Library.Multiset_Order"
begin

text \<open>
  What a station does when nothing more comes in: its goroutines pass on what they still hold.
  Every such step lowers a multiset of weights, so it ends; it ends with everything passed on or
  in one of two jams, of the node with its elevator or with its state server.
\<close>

section \<open>Internal steps\<close>

text \<open>The steps that need no timer, no button, no sensor and no packet from the network.\<close>

fun internal :: "st_act \<Rightarrow> bool" where
  "internal (LiftActs NodeTakesEvent) = True"
| "internal (LiftActs NodeTakesSample) = True"
| "internal (LiftActs CarTakesUpdate) = True"
| "internal (LiftActs _) = False"
| "internal (ServerTimer i) = False"
| "internal (HatTimer k) = False"
| "internal (HacTimer k) = False"
| "internal GhtTimer = False"
| "internal _ = True"

section \<open>Weights\<close>

text \<open>
  A message weighs more than everything its receiver may send because of it. \<open>9\<close> is for the
  flag \<open>shouldDistributeHallRequests\<close>, which allows one distribution and is cleared by it.
\<close>

definition w_update :: "LightAndAssignmentUpdate \<Rightarrow> nat" where
  "w_update u = (if OrderType u = HallOrder \<and> any_request (HallAssignments u) then 6 else 1)"

fun w_out :: "node_out \<Rightarrow> nat" where
  "w_out (ElevLightAndAssignmentUpdateTx u) = Suc (w_update u)"
| "w_out (commandToServerTx c) = 4"
| "w_out (HallAssignmentTx a) = 1"
| "w_out (HallAssignmentCompleteTx c) = 1"
| "w_out (GlobalHallRequestTx g) = 1"
| "w_out _ = 0"

definition w_event :: "ElevatorEvent \<Rightarrow> nat" where
  "w_event e = (if EventType e = LocalHallAssignmentCompleteEvent then 5 else 10)"

fun w_answer :: "srv_output \<Rightarrow> nat" where
  "w_answer (NetworkEventTx e) = 10"
| "w_answer (ElevStateUpdateTx u) = 3"

fun w_in :: "node_in \<Rightarrow> nat" where
  "w_in (ElevatorEventRx e) = w_event e"
| "w_in (MyElevStatesRx st) = 1"
| "w_in (NodeElevStateUpdateRx u) = 3"
| "w_in _ = 10"

fun w_flag :: "program \<Rightarrow> nat multiset" where
  "w_flag (InMaster l) = (if shouldDistributeHallRequests l then {#9#} else {#})"
| "w_flag _ = {#}"

definition weights :: "('m \<Rightarrow> nat) \<Rightarrow> 'm list \<Rightarrow> nat multiset" where
  "weights w xs = image_mset w (mset xs)"

lemma weights_simps [simp]:
  "weights w [] = {#}" "weights w (x # xs) = {#w x#} + weights w xs" "weights w (xs @ ys) = weights w xs + weights w ys"
  by (simp_all add: weights_def)

lemma weights_tl: "xs \<noteq> [] \<Longrightarrow> weights w xs = {#w (hd xs)#} + weights w (tl xs)"
  by (cases xs) simp_all

lemma weights_below: "\<forall>x\<in>set xs. w x < t \<Longrightarrow> \<forall>k\<in>#weights w xs. k < t"
  by (auto simp: weights_def)

definition held :: "nat \<Rightarrow> 'a option \<Rightarrow> nat multiset" where
  "held t x = (case x of None \<Rightarrow> {#} | Some _ \<Rightarrow> {#t#})"

lemma held_simps [simp]: "held t None = {#}" "held t (Some y) = {#t#}"
  by (simp_all add: held_def)

definition lift_weight :: "lift \<Rightarrow> nat multiset" where
  "lift_weight l = weights w_out (node_sends l) + w_flag (snd (lift_node l)) + weights w_update (updates l) +
     weights w_event (car_sends l) + held 1 (sampled l)"

definition weight :: "station \<Rightarrow> nat multiset" where
  "weight s = lift_weight (lf s) + weights w_answer (server_sends s) + weights (\<lambda>_. 0) (hat_sends s) +
     weights (\<lambda>_. 0) (hac_sends s) + weights (\<lambda>_. 0) (ght_sends s) + held 1 (ack_held s) + held 10 (packet s)"

lemma lighter: "J \<noteq> {#} \<Longrightarrow> \<forall>k\<in>#K. \<exists>j\<in>#J. k < j \<Longrightarrow> K < (J :: nat multiset)"
  using one_step_implies_multp [of J K "(<)" "{#}"] by (simp add: less_multiset_def)

lemma lighter_one: "\<forall>k\<in>#K. k < t \<Longrightarrow> K < {#t :: nat#}"
  by (rule lighter) auto

section \<open>The node\<close>

text \<open>What the node sends because of an input, and the flag it is left with, weigh less than the input and the flag before.\<close>

lemma w_out_bound: "w_out x \<le> 7"
  by (cases x) (simp_all add: w_update_def)

lemma w_out_less: "7 < t \<Longrightarrow> \<forall>x\<in>set out. w_out x < t"
  using w_out_bound le_less_trans by blast

lemma w_light [simp]: "w_update (makeLightMessage g) = 1" "w_update zero_update = 1" "w_update (makeCabOrderMessage c) = 1"
  by (simp_all add: w_update_def makeLightMessage_def makeCabOrderMessage_def zero_update_def any_request_def
      mat_at_zero list_ex_iff grid_def floors_def hall_buttons_def)

lemma publish_light: "\<forall>x\<in>set (publish node). w_out x < 3"
  by (simp add: publish_def)

lemma outs_lighter:
  assumes "\<forall>x\<in>set out. w_out x < t" "F' = F \<or> F' = {#}"
  shows "weights w_out out + F' < {#t#} + F"
  using assms(2)
proof
  assume "F' = F"
  with lighter_one [OF weights_below [OF assms(1)]] show ?thesis by (simp only: add_strict_right_mono)
next
  assume "F' = {#}"
  with weights_below [OF assms(1)] show ?thesis by (auto intro!: lighter)
qed

lemma flag_cases: "w_flag p = {#} \<or> w_flag p = {#9#}"
  by (cases p) simp_all

lemma trigger_lighter:
  assumes "w_in i = 10"
  shows "weights w_out out + w_flag p' < {#w_in i#} + w_flag p"
proof (rule lighter)
  from weights_below [OF w_out_less, of 10 out] show "\<forall>k\<in>#weights w_out out + w_flag p'. \<exists>j\<in>#{#w_in i#} + w_flag p. k < j"
    using assms flag_cases [of p'] by auto
qed simp

lemma completed_lighter:
  assumes "EventType e = LocalHallAssignmentCompleteEvent"
    and st: "main_step goos run_hra now rnd s (ElevatorEventRx e) = Some (s', out)"
  shows "(\<forall>x\<in>set out. w_out x < 5) \<and> w_flag (snd s') = w_flag (snd s)"
proof (cases "snd s")
  case InInactive
  with assms show ?thesis by (auto simp: main_step_def)
next
  case (InDisconnected d)
  with assms show ?thesis by (auto simp: main_step_def split: Option.bind_splits if_splits)
next
  case (InMaster l)
  have pub: "w_out x < 5" if "x \<in> set (publish node)" for x node using publish_light [of node] that by auto
  have "\<exists>node. s' = (node, InMaster (fst (state_request now l (shouldDistributeHallRequests l)))) \<and>
    out = snd (state_request now l (shouldDistributeHallRequests l)) @ publish node"
    using assms InMaster
    by (auto simp: main_step_def master_after_event_def case_prod_beta Let_def split: Option.bind_splits if_splits)
  with pub InMaster show ?thesis by (auto simp: state_request_def split: if_splits)
next
  case (InSlave l)
  with assms show ?thesis by (auto simp: main_step_def)
qed

lemma update_lighter:
  assumes st: "main_step goos run_hra now rnd s (NodeElevStateUpdateRx u) = Some (s', out)"
  shows "weights w_out out + w_flag (snd s') < {#3#} + w_flag (snd s)"
proof (cases "snd s")
  case (InMaster l)
  from st InMaster obtain result flag where
    c: "ComputeHallAssignments goos run_hra (shouldDistributeHallRequests l) u (myElevState l)
         (GlobalHallRequests (fst s)) (activeConnReq l) = Some (result, flag)"
    and f: "w_flag (snd s') = (if flag then {#9#} else {#})"
    and o: "out = [ElevLightAndAssignmentUpdateTx (MyAssignment result)] @
           map (\<lambda>(_, assignment). HallAssignmentTx assignment) (OtherAssignments result) @
           [GlobalHallRequestTx (GlobalHallRequestMsg result),
            ElevLightAndAssignmentUpdateTx (makeLightMessage (GlobalHallRequests (fst s)))] @
           map (\<lambda>(_, info). CabRequestInfoTx info) (CabRequestsMsgs result)"
    by (auto simp: main_step_def split: Option.bind_splits)
  show ?thesis
  proof (cases "shouldDistributeHallRequests l \<and> OnlyActiveNodes u")
    case True
    with c have "\<not> flag" by (auto simp: ComputeHallAssignments_def Let_def split: Option.bind_splits)
    moreover have "\<forall>k\<in>#weights w_out out. k < 9"
      by (intro weights_below w_out_less) simp
    ultimately show ?thesis using True InMaster f by (auto intro!: lighter)
  next
    case False
    with c have "flag = shouldDistributeHallRequests l" "MyAssignment result = zero_update" "OtherAssignments result = []"
      by (auto simp: ComputeHallAssignments_def split: if_splits)
    then have "\<forall>x\<in>set out. w_out x < 3" by (auto simp: o)
    from outs_lighter [OF this, of "w_flag (snd s')" "w_flag (snd s)"] f InMaster \<open>flag = _\<close> show ?thesis by simp
  qed
qed (use st in \<open>auto simp: main_step_def\<close>)

lemma sample_lighter:
  assumes "main_step goos run_hra now rnd s (MyElevStatesRx st) = Some (s', out)"
  shows "(\<forall>x\<in>set out. w_out x < 1) \<and> w_flag (snd s') = w_flag (snd s)"
  using assms by (cases "snd s") (auto simp: main_step_def Let_def)

lemma main_lighter:
  assumes "main_step goos run_hra now rnd s i = Some (s', out)"
  shows "weights w_out out + w_flag (snd s') < {#w_in i#} + w_flag (snd s)"
proof (cases "w_in i = 10")
  case True
  then show ?thesis by (rule trigger_lighter)
next
  case False
  then consider e where "i = ElevatorEventRx e" "EventType e = LocalHallAssignmentCompleteEvent"
    | st where "i = MyElevStatesRx st" | u where "i = NodeElevStateUpdateRx u"
    by (cases i) (auto simp: w_event_def split: if_splits)
  then show ?thesis
  proof cases
    case 1
    with completed_lighter [OF 1(2), of goos run_hra now rnd s s' out] assms outs_lighter show ?thesis
      by (simp add: w_event_def)
  next
    case 2
    with sample_lighter [of goos run_hra now rnd s st s' out] assms outs_lighter [of out 1] show ?thesis by simp
  next
    case 3
    with update_lighter assms show ?thesis by simp
  qed
qed

section \<open>The elevator\<close>

definition completes :: "ElevatorEvent list \<Rightarrow> bool" where
  "completes out \<longleftrightarrow> (\<forall>e\<in>set out. EventType e = LocalHallAssignmentCompleteEvent)"

lemma complete_type [simp]: "EventType (makeHallAssignmentCompleteEventMessage be) = LocalHallAssignmentCompleteEvent"
  by (simp add: makeHallAssignmentCompleteEventMessage_def)

lemma hall_loop_events:
  assumes "fold_opt (HallOrder_body msg) cs (s, out) = Some (s', out')" "completes out"
  shows "completes out' \<and> (out' = out \<or> list_ex (\<lambda>(f, b). mat_at (HallAssignments msg) f b) cs)"
  using assms
proof (induction cs arbitrary: s out)
  case Nil
  then show ?case by simp
next
  case (Cons c cs)
  from Cons.prems(1) obtain s1 out1 where
    b: "HallOrder_body msg c (s, out) = Some (s1, out1)" "fold_opt (HallOrder_body msg) cs (s1, out1) = Some (s', out')"
    by (auto split: Option.bind_splits)
  have "completes out1 \<and> (out1 = out \<or> (case c of (f, b) \<Rightarrow> mat_at (HallAssignments msg) f b))"
    using b(1) Cons.prems(2)
    by (auto simp: HallOrder_body_def completes_def split: if_splits Option.bind_splits prod.splits)
  with Cons.IH [OF b(2)] show ?case by auto
qed

lemma cab_loop_events: "fold_opt (CabOrder_body msg) fs (s, out) = Some (s', out') \<Longrightarrow> out' = out"
proof (induction fs arbitrary: s out)
  case Nil
  then show ?case by simp
next
  case (Cons f fs)
  from Cons.prems obtain s1 out1 where
    b: "CabOrder_body msg f (s, out) = Some (s1, out1)" "fold_opt (CabOrder_body msg) fs (s1, out1) = Some (s', out')"
    by (auto split: Option.bind_splits)
  have "out1 = out" using b(1) by (auto simp: CabOrder_body_def split: if_splits Option.bind_splits)
  with Cons.IH [OF b(2)] show ?case by simp
qed

lemma update_events:
  assumes "ElevatorProgram_step s (UpdateRx u) = Some (s', out)"
  shows "\<forall>e\<in>set out. w_event e < w_update u"
proof (cases "OrderType u")
  case HallOrder
  with hall_loop_events [of u "grid hall_buttons" s "[]" s' out] assms show ?thesis
    by (auto simp: completes_def w_update_def w_event_def any_request_def)
next
  case CabOrder
  with cab_loop_events assms show ?thesis by fastforce
next
  case LightUpdate
  with assms show ?thesis by (auto simp: case_prod_beta)
qed

section \<open>Every internal step lowers the weight\<close>

lemma lower: "K < J \<Longrightarrow> Z + K < Z + (J :: nat multiset)"
  by simp

lemma node_handles_lower:
  assumes "node_handles goos run_hra now rnd l i = Some l'" "node_sends l = []"
  shows "lift_weight l' < {#w_in i#} + lift_weight l"
proof -
  from assms obtain n out where
    m: "main_step goos run_hra now rnd (lift_node l) i = Some (n, out)" "l' = l\<lparr>lift_node := n, node_sends := out\<rparr>"
    by (auto simp: node_handles_def split: Option.bind_splits)
  let ?Z = "weights w_update (updates l) + weights w_event (car_sends l) + held 1 (sampled l)"
  have "?Z + (weights w_out out + w_flag (snd n)) < ?Z + ({#w_in i#} + w_flag (snd (lift_node l)))"
    by (rule lower [OF main_lighter [OF m(1)]])
  with m(2) assms(2) show ?thesis by (simp add: lift_weight_def ac_simps)
qed

lemma car_takes_lower:
  assumes "car_handles l (UpdateRx u) = Some l'" "car_sends l = []"
  shows "lift_weight l' < {#w_update u#} + lift_weight l"
proof -
  from assms obtain c out where
    c: "ElevatorProgram_step (lift_car l) (UpdateRx u) = Some (c, out)" "l' = l\<lparr>lift_car := c, car_sends := out\<rparr>"
    by (auto simp: car_handles_def split: Option.bind_splits)
  let ?Z = "weights w_out (node_sends l) + w_flag (snd (lift_node l)) + weights w_update (updates l) + held 1 (sampled l)"
  have "?Z + weights w_event out < ?Z + {#w_update u#}"
    by (rule lower [OF lighter_one [OF weights_below [OF update_events [OF c(1)]]]])
  with c(2) assms(2) show ?thesis by (simp add: lift_weight_def ac_simps)
qed

lemma lift_lower:
  assumes "with_lift s r = Some (s', out)" "\<And>l. r = Some l \<Longrightarrow> lift_weight l < Z + lift_weight (lf s)"
  shows "weight s' < Z + weight s"
proof -
  from assms(1) obtain l where l: "r = Some l" "s' = s\<lparr>lf := l\<rparr>" by (auto simp: with_lift_def)
  let ?R = "weights w_answer (server_sends s) + weights (\<lambda>_. 0) (hat_sends s) + weights (\<lambda>_. 0) (hac_sends s) +
     weights (\<lambda>_. 0) (ght_sends s) + held 1 (ack_held s) + held 10 (packet s)"
  have "?R + lift_weight l < ?R + (Z + lift_weight (lf s))" by (rule lower [OF assms(2) [OF l(1)]])
  with l(2) show ?thesis by (simp add: weight_def ac_simps)
qed

lemma server_weight:
  assumes "server_sends s = []"
  shows "\<exists>K. weight (server_handles now (CommandRx c) s) = weight s + K \<and> (\<forall>k\<in>#K. k < 4)"
    and "weight (server_handles now (ElevStateRx st) s) = weight s"
  using assms by (auto simp: server_handles_def weight_def Let_def)

lemma hat_weight:
  assumes "hat_sends s = []"
  shows "\<exists>K. weight (hat_handles (HatNew a rnd) s) = weight s + K \<and> (\<forall>k\<in>#K. k < 1)"
    and "weight (hat_handles (HatEnable b) s) = weight s" and "weight (hat_handles (HatAck r) s) = weight s"
  using assms by (auto simp: hat_handles_def weight_def Let_def split: option.splits)

lemma hac_weight:
  assumes "hac_sends s = []"
  shows "\<exists>K. weight (hac_handles (HacNew a rnd) s) = weight s + K \<and> (\<forall>k\<in>#K. k < 1)"
    and "weight (hac_handles (HacEnable b) s) = weight s" and "weight (hac_handles (HacAck r) s) = weight s"
  using assms by (auto simp: hac_handles_def weight_def Let_def)

lemma ght_weight:
  assumes "ght_sends s = []"
  shows "weight (ght_handles (GhtUpdate g) s) = weight s" "weight (ght_handles (GhtEnable b) s) = weight s"
  using assms by (auto simp: ght_handles_def weight_def)

lemma send_out_weight:
  assumes "can_send s x"
  shows "\<exists>K. weight (fst (send_out now rnd x s)) = weight s + K \<and> (\<forall>k\<in>#K. k < w_out x)"
proof (cases x)
  case (commandToServerTx c)
  with server_weight(1) [of s now c] assms show ?thesis by simp
next
  case (HallAssignmentTx a)
  with hat_weight(1) [of s a rnd] assms show ?thesis by simp
next
  case (HallAssignmentCompleteTx c)
  with hac_weight(1) [of s c rnd] assms show ?thesis by simp
qed (use assms hat_weight(2) hac_weight(2) ght_weight in auto)

lemma node_sends_weight:
  assumes "node_sends l = x # xs"
  shows "lift_weight (l\<lparr>node_sends := xs, updates := updates l @ updates_of [x]\<rparr>) + {#w_out x#} =
      lift_weight l + weights w_update (updates_of [x])"
    and "\<forall>k\<in>#weights w_update (updates_of [x]). k < w_out x"
proof -
  show "lift_weight (l\<lparr>node_sends := xs, updates := updates l @ updates_of [x]\<rparr>) + {#w_out x#} =
      lift_weight l + weights w_update (updates_of [x])"
    using assms by (simp add: lift_weight_def ac_simps)
  show "\<forall>k\<in>#weights w_update (updates_of [x]). k < w_out x" by (cases x) simp_all
qed

lemma sends_out_lower:
  assumes can: "st_can now s NodeSendsOut" and st: "st_step goos run_hra now rnd s NodeSendsOut = Some (s', out)"
  shows "weight s' < weight s"
proof -
  from can obtain x xs where x: "node_sends (lf s) = x # xs" "can_send s x" by (cases "node_sends (lf s)") auto
  let ?l = "(lf s)\<lparr>node_sends := xs, updates := updates (lf s) @ updates_of [x]\<rparr>"
  let ?U = "weights w_update (updates_of [x])"
  have "s' = fst (send_out now rnd x (s\<lparr>lf := ?l\<rparr>))" using st x(1) by simp
  moreover have "\<exists>K. weight (fst (send_out now rnd x (s\<lparr>lf := ?l\<rparr>))) = weight (s\<lparr>lf := ?l\<rparr>) + K \<and> (\<forall>k\<in>#K. k < w_out x)"
  proof (cases x)
    case (ElevLightAndAssignmentUpdateTx u)
    then show ?thesis by auto
  qed (rule send_out_weight; use x(2) in simp)+
  ultimately obtain K where K: "weight s' = weight (s\<lparr>lf := ?l\<rparr>) + K" "\<forall>k\<in>#K. k < w_out x" by blast
  have w: "weight (s\<lparr>lf := ?l\<rparr>) + {#w_out x#} = weight s + ?U"
    using node_sends_weight(1) [OF x(1)] by (simp add: weight_def ac_simps)
  have "?U + K < {#w_out x#}" using K(2) node_sends_weight(2) [OF x(1)] by (intro lighter_one) auto
  then have "weight (s\<lparr>lf := ?l\<rparr>) + (?U + K) < weight (s\<lparr>lf := ?l\<rparr>) + {#w_out x#}" by (rule lower)
  also have "\<dots> = weight s + ?U" by (rule w)
  also have "weight (s\<lparr>lf := ?l\<rparr>) + (?U + K) = weight s' + ?U" unfolding K(1) by (simp only: ac_simps)
  finally show ?thesis by (simp only: add_less_cancel_right)
qed

lemma internal_lower:
  assumes can: "st_can now s a" "internal a" and st: "st_step goos run_hra now rnd s a = Some (s', out)"
  shows "weight s' < weight s"
proof -
  have recv: "weight s' < {#w_in i#} + weight t"
    if "with_lift t (lift_step goos run_hra now rnd (lf t) (NodeReceives i)) = Some (s', out)" "node_sends (lf t) = []" for t i
    using node_handles_lower [OF _ that(2), of goos run_hra now rnd i] by (intro lift_lower [OF that(1)]) simp
  show ?thesis
  proof (cases a)
    case (LiftActs la)
    have "lift_weight l < {#} + lift_weight (lf s)" if "lift_step goos run_hra now rnd (lf s) la = Some l" for l
    proof (cases la)
      case NodeTakesEvent
      with can LiftActs have "node_sends (lf s) = []" "car_sends (lf s) \<noteq> []" by simp_all
      with node_handles_lower [of goos run_hra now rnd "(lf s)\<lparr>car_sends := tl (car_sends (lf s))\<rparr>"] that NodeTakesEvent
      show ?thesis by (fastforce simp: lift_weight_def weights_tl ac_simps)
    next
      case NodeTakesSample
      with can LiftActs have "node_sends (lf s) = []" "sampled (lf s) \<noteq> None" by simp_all
      with node_handles_lower [of goos run_hra now rnd "(lf s)\<lparr>sampled := None\<rparr>"] that NodeTakesSample
      show ?thesis by (fastforce simp: lift_weight_def ac_simps)
    next
      case CarTakesUpdate
      with can LiftActs have "car_sends (lf s) = []" "updates (lf s) \<noteq> []" by simp_all
      with car_takes_lower [of "(lf s)\<lparr>updates := tl (updates (lf s))\<rparr>"] that CarTakesUpdate
      show ?thesis by (fastforce simp: lift_weight_def weights_tl ac_simps)
    qed (use can LiftActs in simp_all)
    from lift_lower [OF _ this] st LiftActs show ?thesis by fastforce
  next
    case NodeSendsOut
    with sends_out_lower can(1) st show ?thesis by blast
  next
    case ServerSendsOut
    let ?x = "hd (server_sends s)"
    have "w_in (answer_input ?x) = w_answer ?x" by (cases ?x) simp_all
    moreover have "weight s = {#w_answer ?x#} + weight (s\<lparr>server_sends := tl (server_sends s)\<rparr>)"
      using can(1) ServerSendsOut weights_tl [of "server_sends s" w_answer] by (simp add: weight_def ac_simps)
    ultimately show ?thesis
      using recv [of "s\<lparr>server_sends := tl (server_sends s)\<rparr>" "answer_input ?x"] st can(1) ServerSendsOut
      by (simp add: node_ready_def)
  next
    case HatSendsOut
    with can(1) st weights_tl [of "hat_sends s" "\<lambda>_. 0"] show ?thesis by (auto simp: weight_def ac_simps)
  next
    case HacSendsOut
    with can(1) st weights_tl [of "hac_sends s" "\<lambda>_. 0"] show ?thesis by (auto simp: weight_def ac_simps)
  next
    case GhtSendsOut
    with can(1) st weights_tl [of "ght_sends s" "\<lambda>_. 0"] show ?thesis by (auto simp: weight_def ac_simps)
  next
    case AckPassedOn
    then obtain r where r: "ack_held s = Some r" using can(1) by (auto split: option.splits)
    let ?t = "s\<lparr>ack_held := None\<rparr>"
    have "weight s' = weight ?t"
      using can(1) st AckPassedOn r hat_weight(3) [of ?t] hac_weight(3) [of ?t]
      by (auto split: option.splits ack_channel.splits)
    moreover have "weight s = {#1#} + weight ?t" using r by (simp add: weight_def ac_simps)
    ultimately show ?thesis by simp
  next
    case PacketPassedOn
    then obtain m where m: "packet s = Some m" using can(1) by (auto split: option.splits)
    let ?t = "s\<lparr>packet := None\<rparr>"
    have w: "weight s = {#10#} + weight ?t" using m by (simp add: weight_def ac_simps)
    show ?thesis
    proof (cases "packet_input m")
      case None
      then consider r where "m = NetAck r" | e where "m = NetElevState e" by (cases m) auto
      then show ?thesis
      proof cases
        case 1
        then have "weight s' = {#1#} + weight ?t" using can(1) st PacketPassedOn m by (auto simp: weight_def ac_simps)
        moreover have "{#1#} < {#10 :: nat#}" by (rule lighter_one) simp
        ultimately show ?thesis using w by simp
      next
        case 2
        with can(1) st PacketPassedOn m server_weight(2) [of ?t now e] w show ?thesis by simp
      qed
    next
      case (Some i)
      then have "w_in i = 10" by (cases m) auto
      moreover have "node_sends (lf ?t) = []" using can(1) PacketPassedOn m Some by (cases m) (auto simp: node_ready_def)
      moreover have "with_lift ?t (lift_step goos run_hra now rnd (lf ?t) (NodeReceives i)) = Some (s', out)"
        using st PacketPassedOn m Some by (cases m) auto
      ultimately show ?thesis using recv [of ?t i] w by simp
    qed
  qed (use can in simp_all)
qed

section \<open>Jams\<close>

text \<open>
  The node waits for room in the full update channel while its elevator waits to hand over an
  event; or it waits to give its state server a command while the server waits to answer.
\<close>

definition update_jam :: "station \<Rightarrow> bool" where
  "update_jam s \<longleftrightarrow> deadlocked (lf s)"

definition server_jam :: "station \<Rightarrow> bool" where
  "server_jam s \<longleftrightarrow> server_sends s \<noteq> [] \<and>
     (case node_sends (lf s) of commandToServerTx c # rest \<Rightarrow> True | _ \<Rightarrow> False)"

definition jammed :: "station \<Rightarrow> bool" where
  "jammed s \<longleftrightarrow> update_jam s \<or> server_jam s"

text \<open>Nothing left to pass on.\<close>

definition quiet :: "station \<Rightarrow> bool" where
  "quiet s \<longleftrightarrow> node_sends (lf s) = [] \<and> updates (lf s) = [] \<and> car_sends (lf s) = [] \<and> sampled (lf s) = None \<and>
     server_sends s = [] \<and> hat_sends s = [] \<and> hac_sends s = [] \<and> ght_sends s = [] \<and>
     ack_held s = None \<and> packet s = None"

lemma jam_blocks:
  assumes "jammed s"
  shows "node_sends (lf s) \<noteq> []" "\<not> can_send s (hd (node_sends (lf s)))"
  using assms by (auto simp: jammed_def update_jam_def server_jam_def deadlocked_def split: list.splits node_out.splits)

lemma jammed_server:
  "jammed s \<Longrightarrow> server_sends s = [] \<Longrightarrow> update_jam s"
  by (simp add: jammed_def server_jam_def)

text \<open>A jammed node never moves again.\<close>

lemma jam_step:
  assumes j: "jammed s" and can: "st_can now s a" and st: "st_step goos run_hra now rnd s a = Some (s', out)"
  shows "jammed s' \<and> lift_node (lf s') = lift_node (lf s) \<and> node_sends (lf s') = node_sends (lf s)"
proof (cases a)
  case (LiftActs la)
  have "lift_node (lf s') = lift_node (lf s) \<and> node_sends (lf s') = node_sends (lf s) \<and> server_sends s' = server_sends s"
    using LiftActs jam_blocks [OF j] can st
    by (cases la) (auto simp: with_lift_def car_handles_def split: Option.bind_splits)
  moreover have "update_jam s'" if "update_jam s"
  proof -
    have "la = TakeSample" using that can LiftActs deadlocked_stuck by (auto simp: update_jam_def)
    with that st LiftActs show ?thesis by (auto simp: with_lift_def update_jam_def deadlocked_def)
  qed
  ultimately show ?thesis using j by (auto simp: jammed_def server_jam_def)
next
  case NodeSendsOut
  with can jam_blocks [OF j] show ?thesis by simp
next
  case (ServerTimer i)
  with can st jammed_server [OF j] show ?thesis by (auto simp: server_handles_def jammed_def update_jam_def Let_def case_prod_beta)
next
  case ServerSendsOut
  with can jam_blocks [OF j] show ?thesis by (simp add: node_ready_def)
next
  case (HatTimer k)
  with st j show ?thesis by (auto simp: hat_handles_def jammed_def update_jam_def server_jam_def case_prod_beta Let_def)
next
  case (HacTimer k)
  with st j show ?thesis by (auto simp: hac_handles_def jammed_def update_jam_def server_jam_def case_prod_beta Let_def)
next
  case GhtTimer
  with st j show ?thesis by (auto simp: ght_handles_def jammed_def update_jam_def server_jam_def)
next
  case AckPassedOn
  have hat: "jammed (hat_handles i t) = jammed t" "lf (hat_handles i t) = lf t" for i t
    by (simp_all add: hat_handles_def jammed_def update_jam_def server_jam_def case_prod_beta Let_def)
  have hac: "jammed (hac_handles i t) = jammed t" "lf (hac_handles i t) = lf t" for i t
    by (simp_all add: hac_handles_def jammed_def update_jam_def server_jam_def case_prod_beta Let_def)
  have "jammed (s\<lparr>ack_held := None\<rparr>)" using j by (simp add: jammed_def update_jam_def server_jam_def)
  with AckPassedOn st hat hac show ?thesis by (auto simp: Let_def split: option.splits ack_channel.splits)
next
  case PacketPassedOn
  then obtain m where m: "packet s = Some m" using can by (auto split: option.splits)
  with can jam_blocks [OF j] PacketPassedOn consider r where "m = NetAck r" | e where "m = NetElevState e"
    by (cases m) (auto simp: node_ready_def)
  then show ?thesis
  proof cases
    case 1
    with st j m PacketPassedOn show ?thesis by (auto simp: jammed_def update_jam_def server_jam_def)
  next
    case 2
    with can st jammed_server [OF j] m PacketPassedOn show ?thesis
      by (auto simp: server_handles_def jammed_def update_jam_def Let_def split: if_splits)
  qed
qed (use st j in \<open>auto simp: jammed_def update_jam_def server_jam_def\<close>)

text \<open>Where no internal step is possible, everything has been passed on or the station is jammed.\<close>

lemma receives_answer: "receives p (answer_input x)"
  by (cases x; cases p) simp_all

lemma receives_packet: "packet_input m \<noteq> None \<Longrightarrow> receives p (the (packet_input m))"
  by (cases p; cases m) simp_all

lemma packet_can:
  assumes "node_sends (lf s) = []" "ack_held s = None" "server_sends s = []" "packet s \<noteq> None"
  shows "st_can now s PacketPassedOn"
proof -
  obtain m where m: "packet s = Some m" using assms(4) by blast
  with assms(1-3) show ?thesis by (cases m; simp add: node_ready_def receives_packet [of m, simplified])
qed

lemma stuck_rest:
  assumes s: "station_in H C n s" and stuck: "\<And>a. internal a \<Longrightarrow> \<not> st_can now s a"
  shows "quiet s \<or> jammed s"
proof -
  have no: "hat_sends s = []" "hac_sends s = []" "ght_sends s = []"
    using stuck [of HatSendsOut] stuck [of HacSendsOut] stuck [of GhtSendsOut] by simp_all
  have ack: "ack_held s = None"
    using stuck [of AckPassedOn] s no
    by (cases "ack_held s") (auto simp: station_in_def ack_expected_def id_routes)
  have up: "car_sends (lf s) = [] \<Longrightarrow> updates (lf s) = []" using stuck [of "LiftActs CarTakesUpdate"] by auto
  show ?thesis
  proof (cases "node_sends (lf s)")
    case Nil
    have "car_sends (lf s) = []" "sampled (lf s) = None"
      using stuck [of "LiftActs NodeTakesEvent"] stuck [of "LiftActs NodeTakesSample"] Nil by simp_all
    moreover have srv: "server_sends s = []"
      using stuck [of ServerSendsOut] Nil receives_answer by (simp add: node_ready_def)
    moreover have "packet s = None"
      using stuck [of PacketPassedOn] packet_can [OF Nil ack srv] unfolding internal.simps by blast
    ultimately show ?thesis using Nil no ack up by (simp add: quiet_def)
  next
    case (Cons x xs)
    have len: "length (updates (lf s)) \<le> UPDATE_BUFFER" using s by (auto simp: station_in_def lift_in_def lift_ok_def)
    have "\<not> can_send s x" using stuck [of NodeSendsOut] Cons by simp
    with Cons no len up show ?thesis
      by (cases x) (auto simp: jammed_def update_jam_def server_jam_def deadlocked_def UPDATE_BUFFER_def)
  qed
qed

lemma quiet_stuck: "quiet s \<Longrightarrow> internal a \<Longrightarrow> \<not> st_can now s a"
  by (cases a rule: internal.cases) (auto simp: quiet_def)

section \<open>Settling\<close>

definition st_acts :: "string \<Rightarrow> hra_runner \<Rightarrow> Time \<Rightarrow> uint64 \<Rightarrow> st_act list \<Rightarrow> station \<Rightarrow> station option" where
  "st_acts goos run_hra now rnd =
     fold_opt (\<lambda>a s. if st_can now s a then map_option fst (st_step goos run_hra now rnd s a) else None)"

lemma internal_in: "internal a \<Longrightarrow> st_act_in H C n a"
  by (cases a rule: internal.cases) simp_all

text \<open>Internal steps under any circumstances, and under fixed ones from within the invariant.\<close>

interpretation any_internal: lowering
  "\<lambda>s (goos, run_hra, now, rnd, a). internal a \<and> st_can now s a"
  "\<lambda>s (goos, run_hra, now, rnd, a). map_option fst (st_step goos run_hra now rnd s a)" weight
  by unfold_locales (auto dest: internal_lower)

interpretation settle: settling
  "\<lambda>s a. internal a \<and> st_can now s a" "\<lambda>s a. map_option fst (st_step goos run_hra now rnd s a)" weight
  "\<lambda>s. station_in H C n s \<and> hra_within run_hra \<and> hra_executable goos \<noteq> None \<and> rnd < MSG_ID_PARTITION_SIZE"
  for goos run_hra now rnd H C n
proof
  fix s a s'
  assume "internal a \<and> st_can now s a" "map_option fst (st_step goos run_hra now rnd s a) = Some s'"
  then show "weight s' < weight s" by (auto dest: internal_lower)
next
  fix s a
  assume ok: "station_in H C n s \<and> hra_within run_hra \<and> hra_executable goos \<noteq> None \<and> rnd < MSG_ID_PARTITION_SIZE"
    and a: "internal a \<and> st_can now s a"
  with st_step_in [of H C n s now a run_hra goos rnd] internal_in [of a H C n]
  show "\<exists>s'. map_option fst (st_step goos run_hra now rnd s a) = Some s' \<and>
      (station_in H C n s' \<and> hra_within run_hra \<and> hra_executable goos \<noteq> None \<and> rnd < MSG_ID_PARTITION_SIZE)" by auto
qed

lemma internal_acts:
  "fold_opt (\<lambda>a s. if internal a \<and> st_can now s a then map_option fst (st_step goos run_hra now rnd s a) else None) as s = Some s' \<Longrightarrow>
    list_all internal as \<and> st_acts goos run_hra now rnd as s = Some s'"
  unfolding st_acts_def by (induction as arbitrary: s) (auto split: Option.bind_splits if_splits)

lemma station_comes_to_rest:
  assumes "station_in H C n s" "hra_within run_hra" "hra_executable goos \<noteq> None" "rnd < MSG_ID_PARTITION_SIZE"
  shows "\<exists>as s'. list_all internal as \<and> st_acts goos run_hra now rnd as s = Some s' \<and> (quiet s' \<or> jammed s')"
proof -
  from settle.settles [of H C n s run_hra goos rnd now] assms obtain as s' where
    s': "fold_opt (\<lambda>a s. if internal a \<and> st_can now s a then map_option fst (st_step goos run_hra now rnd s a) else None) as s = Some s'"
      "station_in H C n s'" "\<forall>a. \<not> (internal a \<and> st_can now s' a)" by blast
  with internal_acts [OF s'(1)] stuck_rest [OF s'(2), of now] show ?thesis by blast
qed

section \<open>Properties\<close>

text \<open>C15: A station cannot keep itself busy: the steps by which its goroutines pass on what they hold,
  with no timer, button, sensor or packet coming in, end whatever their order, their instants
  and the assigner's answers, from any state at all.\<close>

theorem internal_steps_end:
  "wf {(s', s). \<exists>goos run_hra now rnd a out. internal a \<and> st_can now s a \<and>
     st_step goos run_hra now rnd s a = Some (s', out)}"
proof -
  have "{(s', s). \<exists>goos run_hra now rnd a out. internal a \<and> st_can now s a \<and>
       st_step goos run_hra now rnd s a = Some (s', out)} \<subseteq>
    {(s', s). \<exists>x. (case x of (goos, run_hra, now, rnd, a) \<Rightarrow> internal a \<and> st_can now s a) \<and>
       (case x of (goos, run_hra, now, rnd, a) \<Rightarrow> map_option fst (st_step goos run_hra now rnd s a)) = Some s'}" by force
  with any_internal.steps_end show ?thesis by (rule wf_subset)
qed

text \<open>C14: A station of the running system that is left alone comes to rest: its goroutines can carry
  out what is outstanding until nothing is left or the node is jammed, against its elevator over
  the update channel or against its state server; an internal step is impossible only in these
  two situations. A jammed node never moves again, whatever the station does or receives.\<close>

theorem station_settles:
  assumes "sys_run goos run_hra S" "hra_within run_hra" "hra_executable goos \<noteq> None"
    and "stations S n = Some s" "rnd < MSG_ID_PARTITION_SIZE"
  shows "(\<exists>as s'. list_all internal as \<and> st_acts goos run_hra now rnd as s = Some s' \<and> (quiet s' \<or> jammed s')) \<and>
    ((\<forall>a. internal a \<longrightarrow> \<not> st_can now s a) \<longrightarrow> quiet s \<or> jammed s) \<and>
    (jammed s \<longrightarrow> st_can later s a \<longrightarrow> st_step goos run_hra later draw s a = Some (s', out) \<longrightarrow>
       jammed s' \<and> lift_node (lf s') = lift_node (lf s) \<and> node_sends (lf s') = node_sends (lf s))"
proof -
  note s = sys_okD(1) [OF sys_run_ok [OF assms(1-3)] assms(4)]
  show ?thesis
    using station_comes_to_rest [OF s assms(2,3,5), of now] stuck_rest [OF s, of now] jam_step [of s later a goos run_hra draw s' out]
    by blast
qed

text \<open>
  The second jam: two copies of one connection request are enough. The master asks the server
  for all states; while the server offers them, the master takes the other copy and asks again.
\<close>

definition twice_asked :: "sys_act list" where
  "twice_asked =
     [Arrive 2 first_request, Act 2 0 9 PacketPassedOn, Act 2 0 9 NodeSendsOut,
      Arrive 2 first_request, Act 2 0 9 PacketPassedOn]"

text \<open>C17: The node and its state server can deadlock in the running system: a master that takes a second
  connection request before the server's answer to the first waits to send the server a command
  while the server waits to send it the answer.\<close>

theorem server_deadlock_reachable:
  "\<exists>S s. sys_run ''linux'' run_hra S \<and> stations S 2 = Some s \<and> State (fst (lift_node (lf s))) = Master \<and>
     node_sends (lf s) = [commandToServerTx ''getAllElevStates''] \<and>
     (\<exists>u. server_sends s = [ElevStateUpdateTx u]) \<and> jammed s"
proof -
  obtain S s where S: "sys_acts run_hra (meeting @ twice_asked) sys_init = Some S" "stations S 2 = Some s"
    "State (fst (lift_node (lf s))) = Master" "node_sends (lf s) = [commandToServerTx ''getAllElevStates'']"
    "\<exists>u. server_sends s = [ElevStateUpdateTx u]"
    by (simp add: sys_run_defs twice_asked_def small_draw dark replicate_5 srv_init_def hat_init_def ght_init_def)
  moreover from S(4,5) have "jammed s" by (auto simp: jammed_def server_jam_def)
  ultimately show ?thesis using sys_acts_run [OF S(1) sys_start] by blast
qed

theorem station_settles_witness:
  "\<exists>S s as s'. sys_acts everything_to_all (meeting @ calls_at_2) sys_init = Some S \<and> stations S 2 = Some s \<and>
     st_acts ''linux'' everything_to_all 0 9 as s = Some s' \<and> (quiet s' \<or> jammed s')"
proof -
  obtain S s where S: "sys_acts everything_to_all (meeting @ calls_at_2) sys_init = Some S" "stations S 2 = Some s"
    using calls_run by blast
  from station_settles [OF sys_acts_run [OF S(1) sys_start] hra_within_everything linux_executable S(2) small_draw, of 0] S
  show ?thesis by blast
qed

text \<open>
  A third node that boots later hears the same request of node 1, and nothing from node 2, which
  is no longer asking.
\<close>

definition third_node :: "sys_act list" where
  "third_node =
     [Boot 3 dark_plant, Act 3 0 9 (LiftActs NodeTakesEvent), Arrive 3 first_request, Act 3 0 9 PacketPassedOn,
      Act 3 0 9 (LiftActs (NodeReceives DecisionTimeout))]"

text \<open>C16: Two masters can arise in the running system, each by the election alone, and neither gives way: a
  master throws away the global hall requests, the hall assignments and the cab calls another
  master broadcasts, so hearing each other changes nothing for either.\<close>

theorem two_masters_persist:
  "(\<exists>S s2 s3. sys_run ''linux'' run_hra S \<and> stations S 2 = Some s2 \<and> stations S 3 = Some s3 \<and>
     State (fst (lift_node (lf s2))) = Master \<and> State (fst (lift_node (lf s3))) = Master) \<and>
   main_step goos run_hra now rnd (node, InMaster l) (GlobalHallRequestRx g) = Some ((node, InMaster l), []) \<and>
   main_step goos run_hra now rnd (node, InMaster l) (HallAssignmentsRx a) = Some ((node, InMaster l), []) \<and>
   main_step goos run_hra now rnd (node, InMaster l) (CabRequestInfoRx c) = Some ((node, InMaster l), [])"
proof (intro conjI)
  obtain S s2 s3 where S: "sys_acts run_hra (meeting @ third_node) sys_init = Some S" "stations S 2 = Some s2"
    "stations S 3 = Some s3" "State (fst (lift_node (lf s2))) = Master" "State (fst (lift_node (lf s3))) = Master"
    by (simp add: sys_run_defs third_node_def small_draw dark replicate_5 srv_init_def hat_init_def ght_init_def)
  with sys_acts_run [OF S(1) sys_start] show "\<exists>S s2 s3. sys_run ''linux'' run_hra S \<and> stations S 2 = Some s2 \<and> stations S 3 = Some s3 \<and>
     State (fst (lift_node (lf s2))) = Master \<and> State (fst (lift_node (lf s3))) = Master" by blast
qed (simp_all add: main_step_def)

end
