(* ===== verification/Recovery.thy ===== *)
theory Recovery
  imports Station_Rest
begin

text \<open>
  Two journeys through the whole system, given as the steps that make them: a hall call pressed at
  a slave gets to its master, and a node that crashed gets its cab calls back from the master.
\<close>

section \<open>Steps of one station\<close>

definition trace_step :: "hra_runner \<Rightarrow> Time \<Rightarrow> uint64 \<Rightarrow> st_act \<Rightarrow> station \<times> net_msg list \<Rightarrow> (station \<times> net_msg list) option" where
  "trace_step run_hra now rnd a sm = (case sm of (s, msgs) \<Rightarrow>
     if clock s \<le> now \<and> st_can now s a
     then do { (s', out) \<leftarrow> st_step ''linux'' run_hra now rnd s a; Some (s'\<lparr>clock := now\<rparr>, msgs @ out) }
     else None)"

definition st_trace :: "hra_runner \<Rightarrow> Time \<Rightarrow> uint64 \<Rightarrow> st_act list \<Rightarrow> station \<Rightarrow> (station \<times> net_msg list) option" where
  "st_trace run_hra now rnd as s = fold_opt (trace_step run_hra now rnd) as (s, [])"

lemma sys_acts_append:
  "sys_acts run_hra (as @ bs) S = do { S' \<leftarrow> sys_acts run_hra as S; sys_acts run_hra bs S' }"
  by (simp add: sys_acts_def fold_opt_append)

lemma upd_eta: "(\<lambda>a. if a = n then Some x else f a) = f(n \<mapsto> x)"
  by auto

lemma trace_acts:
  assumes "st_trace run_hra now rnd as s = Some (s', msgs)" "stations S n = Some s" "rnd < MSG_ID_PARTITION_SIZE"
  shows "\<exists>ps. sys_acts run_hra (map (Act n now rnd) as) S =
    Some (S\<lparr>stations := (stations S)(n \<mapsto> s'), ether := ether S @ msgs, presses := presses S @ ps\<rparr>)"
  using assms
proof (induction as arbitrary: s' msgs rule: rev_induct)
  case Nil
  then have "(stations S)(n \<mapsto> s') = stations S" "msgs = []" by (auto simp: st_trace_def trace_step_def fun_upd_idem)
  then show ?case by (intro exI [of _ "[]"]) (simp add: sys_acts_def)
next
  case (snoc a as)
  from snoc.prems(1) obtain s1 m1 out s2 where
    s1: "st_trace run_hra now rnd as s = Some (s1, m1)" "clock s1 \<le> now" "st_can now s1 a"
      "st_step ''linux'' run_hra now rnd s1 a = Some (s2, out)" "s' = s2\<lparr>clock := now\<rparr>" "msgs = m1 @ out"
    by (auto simp: st_trace_def trace_step_def fold_opt_append split: Option.bind_splits if_splits)
  from snoc.IH [OF s1(1) snoc.prems(2,3)] obtain ps where
    S1: "sys_acts run_hra (map (Act n now rnd) as) S =
      Some (S\<lparr>stations := (stations S)(n \<mapsto> s1), ether := ether S @ m1, presses := presses S @ ps\<rparr>)" by blast
  then show ?case
    using s1(2-6) snoc.prems(3)
    by (intro exI [of _ "ps @ map (Pair n) (pressed_by a)"]) (simp add: sys_acts_append S1, simp add: sys_acts_def upd_eta)
qed

section \<open>A hall call gets to the master\<close>

lemma hall_not_cab: "hall_call_on_panel f b \<Longrightarrow> b \<noteq> ButtonCab \<and> in_floors f \<and> in_buttons b"
  by (auto simp: hall_call_on_panel_def in_buttons_def)

lemma station_eta: "lf s = l \<Longrightarrow> s\<lparr>lf := l\<rparr> = s"
  by (rule station.equality) simp_all

lemma slave_press:
  assumes "snd (lift_node (lf s)) = InSlave l" "node_sends (lf s) = []" "car_sends (lf s) = []"
    and "hall_call_on_panel f b" "clock s \<le> now"
  shows "st_trace run_hra now rnd
      [LiftActs (CarReceives (ButtonRx (mk_event f b))), LiftActs NodeTakesEvent, NodeSendsOut] s =
    Some (s\<lparr>clock := now\<rparr>, [NetNewCall \<lparr>nhr_Floor = f, nhr_HallButton = b\<rparr>])"
proof -
  obtain node where n: "lift_node (lf s) = (node, InSlave l)" using assms(1) by (cases "lift_node (lf s)") simp
  have "(lf s)\<lparr>lift_node := (node, InSlave l), node_sends := [], car_sends := []\<rparr> = lf s"
    using assms(2,3) n by (intro lift.equality) simp_all
  with assms(2-5) n hall_not_cab [OF assms(4)] show ?thesis
    by (simp add: st_trace_def trace_step_def with_lift_def car_handles_def node_handles_def main_step_def enabled_def wf_input_def
        makeHallButtonEventMessage_def station_eta)
qed

text \<open>The master takes the call and its transmitter broadcasts the new matrix.\<close>

lemma master_hears:
  assumes "snd (lift_node (lf t)) = InMaster k" "node_sends (lf t) = []" "ght_sends t = []" "ght_enable (st_ght t)"
    and wf: "wf_mat NUM_FLOORS 2 (GlobalHallRequests (fst (lift_node (lf t))))"
    and "packet t = Some (NetNewCall \<lparr>nhr_Floor = f, nhr_HallButton = b\<rparr>)" "hall_call_on_panel f b" "clock t \<le> now"
  defines "g \<equiv> mat_put (GlobalHallRequests (fst (lift_node (lf t)))) f b True"
  shows "\<exists>t'. st_trace run_hra now rnd [PacketPassedOn, NodeSendsOut, GhtTimer, GhtSendsOut] t =
      Some (t', [NetGlobal \<lparr>ghr_HallRequests = g\<rparr>]) \<and>
    GlobalHallRequests (fst (lift_node (lf t'))) = g \<and> mat_at g f b"
proof -
  obtain node where n: "lift_node (lf t) = (node, InMaster k)" using assms(1) by (cases "lift_node (lf t)") simp
  have b: "b \<noteq> ButtonCab" "in_floors f" "0 \<le> b" "b < 2" using assms(7) by (auto simp: hall_call_on_panel_def)
  have "mat_set (GlobalHallRequests node) f b True = Some (mat_put (GlobalHallRequests node) f b True)"
    using wf n b by (intro mat_set_inrange) (auto simp: in_floors_def)
  moreover have "mat_at g f b" unfolding g_def using wf n b by (subst mat_at_put) (auto simp: in_floors_def)
  ultimately show ?thesis
    using assms(2-4,6,8) n b(1)
    by (simp add: st_trace_def trace_step_def with_lift_def node_handles_def main_step_def node_ready_def ProcessNewHallRequest_def
        case_prod_beta Let_def publish_def ght_handles_def g_def)
qed

text \<open>A slave that hears new requests shows them on its panel.\<close>

lemma slave_lights:
  assumes "snd (lift_node (lf s)) = InSlave l" "node_sends (lf s) = []" "updates (lf s) = []" "car_sends (lf s) = []"
    and "packet s = Some (NetGlobal \<lparr>ghr_HallRequests = g\<rparr>)" "clock s \<le> now"
    and ch: "hasChanged g (GlobalHallRequests (fst (lift_node (lf s))))" and f: "in_floors f" "b = ButtonHallUp \<or> b = ButtonHallDown"
  shows "\<exists>s'. st_trace run_hra now rnd [PacketPassedOn, NodeSendsOut, LiftActs CarTakesUpdate] s = Some (s', []) \<and>
    lamp (pnl (hw (lift_car (lf s')))) f b = mat_at g f b"
proof -
  obtain node where n: "lift_node (lf s) = (node, InSlave l)" using assms(1) by (cases "lift_node (lf s)") simp
  let ?e = "(elev (lift_car (lf s)))\<lparr>HallLightStates := g\<rparr>"
  have "lamp (pnl (apply_effects (map Hw (SetAllLights ?e)) (hw (lift_car (lf s))))) f b = mat_at g f b"
    using apply_lights(5) [of ?e "hw (lift_car (lf s))"] f
    by (auto simp: lights_shown_def in_floors_def buttons_def lights_of_def)
  with assms(2-6) ch n show ?thesis
    by (simp add: st_trace_def trace_step_def with_lift_def node_handles_def car_handles_def main_step_def node_ready_def UPDATE_BUFFER_def
        Let_def makeLightMessage_def SetHallLights_def)
qed

lemma sys_acts_arrive:
  assumes "stations S n = Some s" "m \<in> set (ether S)" "packet s = None"
  shows "sys_acts run_hra [Arrive n m] S = Some (S\<lparr>stations := (stations S)(n \<mapsto> s\<lparr>packet := Some m\<rparr>)\<rparr>)"
  using assms by (simp add: sys_acts_def)

text \<open>The steps of one station, and the arrival of a message with the steps of its receiver, as part of a run.\<close>

lemma act_trace:
  assumes "stations S n = Some s" "rnd < MSG_ID_PARTITION_SIZE" "st_trace run_hra now rnd as s = Some (s', msgs)"
  shows "\<exists>S'. sys_acts run_hra (map (Act n now rnd) as) S = Some S' \<and> stations S' = (stations S)(n \<mapsto> s') \<and> ether S' = ether S @ msgs"
  using trace_acts [OF assms(3,1,2)] by fastforce

lemma arrive_trace:
  assumes "stations S n = Some s" "msg \<in> set (ether S)" "packet s = None" "rnd < MSG_ID_PARTITION_SIZE"
    and "st_trace run_hra now rnd as (s\<lparr>packet := Some msg\<rparr>) = Some (s', msgs)"
  shows "\<exists>S'. sys_acts run_hra (Arrive n msg # map (Act n now rnd) as) S = Some S' \<and>
    stations S' = (stations S)(n \<mapsto> s') \<and> ether S' = ether S @ msgs"
proof -
  let ?S = "S\<lparr>stations := (stations S)(n \<mapsto> s\<lparr>packet := Some msg\<rparr>)\<rparr>"
  have "stations ?S n = Some (s\<lparr>packet := Some msg\<rparr>)" by simp
  from act_trace [OF this assms(4,5)] obtain S' where
    S': "sys_acts run_hra (map (Act n now rnd) as) ?S = Some S'" "stations S' = (stations S)(n \<mapsto> s')" "ether S' = ether S @ msgs"
    by auto
  have "sys_acts run_hra ([Arrive n msg] @ map (Act n now rnd) as) S = Some S'"
    unfolding sys_acts_append sys_acts_arrive [OF assms(1-3)] using S'(1) by simp
  with S'(2,3) show ?thesis by simp
qed

section \<open>A node gets its cab calls back\<close>

lemma four: "length xs = 4 \<Longrightarrow> \<exists>a b c d. xs = [a, b, c, d]"
  by (auto simp: eval_nat_numeral length_Suc_conv)

lemma in_four: "in_floors f \<Longrightarrow> f = 0 \<or> f = 1 \<or> f = 2 \<or> f = 3"
  by (auto simp: in_floors_def)

text \<open>The cab calls a car is given before it has seen a floor.\<close>

lemma cab_order_at_boot:
  assumes "length cs = 4"
  shows "\<exists>c. ElevatorProgram_step (fst (ElevatorProgram_init pl)) (UpdateRx (makeCabOrderMessage cs)) = Some (c, []) \<and>
    (\<forall>f. in_floors f \<longrightarrow> req (elev c) f ButtonCab = cs ! nat f)"
proof -
  obtain w x y z where cs: "cs = [w, x, y, z]" using four [OF assms] by blast
  show ?thesis
    by (cases w; cases x; cases y; cases z)
      (auto simp: cs makeCabOrderMessage_def ElevatorProgram_init_def CabOrder_body_def floors_def
        OnRequestButtonPress_def HandleButtonEvent_def InitFSM_def NewElevator_def OnInitBetweenFloors_def
        zero_mat_def mat_set_def arr_get_def arr_set_def replicate_4 req_def mat_at_def dest!: in_four)
qed

lemma boot_asks:
  assumes "0 \<le> now"
  shows "\<exists>s d. st_trace run_hra now rnd [LiftActs NodeTakesEvent, LiftActs (NodeReceives ConnectionRequestTick), NodeSendsOut]
      (station_init n pl) =
    Some (s, [NetConnReq \<lparr>cr_TOLC = 0, cr_NodeID = n, cr_MessageID = fst (GenerateMessageID CONNECTION_REQ rnd)\<rparr>]) \<and>
    snd (lift_node (lf s)) = InDisconnected d \<and> ID (fst (lift_node (lf s))) = n \<and> TOLC (fst (lift_node (lf s))) = 0 \<and>
    node_sends (lf s) = [] \<and> updates (lf s) = [] \<and> car_sends (lf s) = [] \<and> server_sends s = [] \<and> hac_sends s = [] \<and>
    packet s = None \<and> clock s = now \<and> lift_car (lf s) = fst (ElevatorProgram_init pl)"
  using assms
  by (simp add: st_trace_def trace_step_def station_init_def lift_init_def with_lift_def node_handles_def main_step_def main_init_def
      MakeNode_def ElevatorProgram_init_def makeDoorStuckMessage_def DisconnectedProgram_entry_def wf_outside_def
      wf_node_in_def zero_Time_def)

lemma boot_restores:
  assumes "snd (lift_node (lf s)) = InDisconnected d" "ID (fst (lift_node (lf s))) = n" "TOLC (fst (lift_node (lf s))) = 0"
    and "node_sends (lf s) = []" "updates (lf s) = []" "car_sends (lf s) = []" "server_sends s = []" "hac_sends s = []"
    and "packet s = Some (NetCabInfo \<lparr>cri_CabRequest = cs, cri_ReceiverNodeID = n\<rparr>)" "clock s \<le> now"
    and "lift_car (lf s) = fst (ElevatorProgram_init pl)" "length cs = 4"
  shows "\<exists>s'. st_trace run_hra now rnd [PacketPassedOn, NodeSendsOut, NodeSendsOut, NodeSendsOut, LiftActs CarTakesUpdate] s =
      Some (s', []) \<and> (\<forall>f. in_floors f \<longrightarrow> req (elev (lift_car (lf s'))) f ButtonCab = cs ! nat f)"
proof -
  obtain node where nd: "lift_node (lf s) = (node, InDisconnected d)" using assms(1) by (cases "lift_node (lf s)") simp
  from cab_order_at_boot [OF assms(12), of pl] obtain c where
    c: "ElevatorProgram_step (fst (ElevatorProgram_init pl)) (UpdateRx (makeCabOrderMessage cs)) = Some (c, [])"
      "\<forall>f. in_floors f \<longrightarrow> req (elev c) f ButtonCab = cs ! nat f" by blast
  show ?thesis
    using assms(2-11) nd c
    by (simp add: st_trace_def trace_step_def with_lift_def node_handles_def car_handles_def main_step_def node_ready_def UPDATE_BUFFER_def
        Let_def SlaveProgram_entry_def IsZero_def server_handles_def hac_handles_def case_prod_beta
        del: ElevatorProgram_step.simps)
qed

text \<open>The master that takes the request asks its server and sends what the server knows, to all who asked.\<close>

lemma trace_acc:
  "fold_opt (trace_step run_hra now rnd) as (s, m) =
     map_option (\<lambda>(s', msgs). (s', m @ msgs)) (fold_opt (trace_step run_hra now rnd) as (s, []))"
proof (induction as arbitrary: s m)
  case Nil
  show ?case by simp
next
  case (Cons a as)
  show ?case
  proof (cases "trace_step run_hra now rnd a (s, [])")
    case None
    then have "trace_step run_hra now rnd a (s, m) = None" by (auto simp: trace_step_def split: if_splits Option.bind_splits)
    with None show ?thesis by simp
  next
    case (Some y)
    then obtain s1 out where y: "trace_step run_hra now rnd a (s, []) = Some (s1, out)" by (cases y) simp
    then have "trace_step run_hra now rnd a (s, m) = Some (s1, m @ out)"
      by (auto simp: trace_step_def split: if_splits Option.bind_splits)
    with y Cons.IH [of s1 "m @ out"] Cons.IH [of s1 out] show ?thesis
      by (simp add: option.map_comp comp_def case_prod_beta)
  qed
qed

lemma trace_append:
  assumes "st_trace run_hra now rnd as s = Some (s1, m1)" "st_trace run_hra now rnd bs s1 = Some (s2, m2)"
  shows "st_trace run_hra now rnd (as @ bs) s = Some (s2, m1 @ m2)"
  using assms trace_acc [of run_hra now rnd bs s1 m1] by (simp add: st_trace_def fold_opt_append)

lemma sends_cab_infos:
  assumes "node_sends (lf t) = map (\<lambda>(_, info). CabRequestInfoTx info) cs" "clock t \<le> now"
  shows "\<exists>t'. st_trace run_hra now rnd (replicate (length cs) NodeSendsOut) t =
    Some (t', map (\<lambda>(_, info). NetCabInfo info) cs)"
  using assms
proof (induction cs arbitrary: t)
  case Nil
  then show ?case by (simp add: st_trace_def trace_step_def)
next
  case (Cons c cs)
  let ?l = "(lf t)\<lparr>node_sends := map (\<lambda>(_, info). CabRequestInfoTx info) cs\<rparr>"
  obtain k info where c: "c = (k, info)" by fastforce
  have "updates (lf t) = updates ?l" by simp
  with Cons.prems c have first: "st_trace run_hra now rnd [NodeSendsOut] t = Some (t\<lparr>lf := ?l, clock := now\<rparr>, [NetCabInfo info])"
    by (simp add: st_trace_def trace_step_def)
  from Cons.IH [of "t\<lparr>lf := ?l, clock := now\<rparr>"] obtain t' where
    "st_trace run_hra now rnd (replicate (length cs) NodeSendsOut) (t\<lparr>lf := ?l, clock := now\<rparr>) =
      Some (t', map (\<lambda>(_, info). NetCabInfo info) cs)" by auto
  from trace_append [OF first this] c show ?case by simp
qed

lemma master_answers:
  assumes "snd (lift_node (lf t)) = InMaster k" "node_sends (lf t) = []" "updates (lf t) = []" "server_sends t = []"
    and "ght_sends t = []" "packet t = Some (NetConnReq r)" "cr_NodeID r \<noteq> ID (fst (lift_node (lf t)))" "clock t \<le> now"
  defines "cs \<equiv> cab_requests_loop (knownNodes (st_server t)) (AList.update (cr_NodeID r) r (activeConnReq k)) []"
  shows "\<exists>t'. st_trace run_hra now rnd
      ([PacketPassedOn, NodeSendsOut, ServerSendsOut, NodeSendsOut, NodeSendsOut, NodeSendsOut] @ replicate (length cs) NodeSendsOut) t =
    Some (t', map (\<lambda>(_, info). NetCabInfo info) cs)"
proof -
  obtain node where nd: "lift_node (lf t) = (node, InMaster k)" using assms(1) by (cases "lift_node (lf t)") simp
  have "\<exists>t1. st_trace run_hra now rnd [PacketPassedOn, NodeSendsOut, ServerSendsOut, NodeSendsOut, NodeSendsOut, NodeSendsOut] t = Some (t1, []) \<and>
    node_sends (lf t1) = map (\<lambda>(_, info). CabRequestInfoTx info) cs \<and> clock t1 \<le> now"
    using assms(2-8) nd
    by (simp add: st_trace_def trace_step_def with_lift_def node_handles_def main_step_def node_ready_def UPDATE_BUFFER_def
        Let_def server_handles_def ght_handles_def case_prod_beta ComputeHallAssignments_def
        makeAllElevStatesUpdateMessage_def zero_result_def cs_def)
  then obtain t1 where t1: "st_trace run_hra now rnd [PacketPassedOn, NodeSendsOut, ServerSendsOut, NodeSendsOut, NodeSendsOut, NodeSendsOut] t = Some (t1, [])"
    "node_sends (lf t1) = map (\<lambda>(_, info). CabRequestInfoTx info) cs" "clock t1 \<le> now" by blast
  from sends_cab_infos [OF t1(2,3)] obtain t' where
    "st_trace run_hra now rnd (replicate (length cs) NodeSendsOut) t1 = Some (t', map (\<lambda>(_, info). NetCabInfo info) cs)" by blast
  from trace_append [OF t1(1) this] show ?thesis by simp
qed

text \<open>The answers of a master \<open>t\<close> with outstanding requests \<open>reqs\<close> to the request \<open>r\<close>.\<close>

definition cab_answers :: "station \<Rightarrow> (int, ConnectionReq) gomap \<Rightarrow> ConnectionReq \<Rightarrow> net_msg list" where
  "cab_answers t reqs r =
     map (\<lambda>(_, info). NetCabInfo info) (cab_requests_loop (knownNodes (st_server t)) (AList.update (cr_NodeID r) r reqs) [])"

lemma master_tells:
  assumes s: "station_in H C m t" and k: "snd (lift_node (lf t)) = InMaster k" "quiet t" "clock t \<le> now"
    and r: "cr_NodeID r = n" "n \<noteq> m" and known: "map_of (knownNodes (st_server t)) n = Some st"
  defines "infos \<equiv> cab_answers t (activeConnReq k) r"
  shows "\<exists>t'. st_trace run_hra now rnd
      ([PacketPassedOn, NodeSendsOut, ServerSendsOut, NodeSendsOut, NodeSendsOut, NodeSendsOut] @ replicate (length infos) NodeSendsOut)
      (t\<lparr>packet := Some (NetConnReq r)\<rparr>) = Some (t', infos)"
    and "NetCabInfo \<lparr>cri_CabRequest = es_CabRequests st, cri_ReceiverNodeID = n\<rparr> \<in> set infos" and "length (es_CabRequests st) = 4"
proof -
  let ?cs = "cab_requests_loop (knownNodes (st_server t)) (AList.update n r (activeConnReq k)) []"
  have nid: "ID (fst (lift_node (lf t))) = m" and reqs: "valid_map (activeConnReq k)"
    using s k(1) by (auto simp: station_in_def lift_in_def lift_ok_def main_ok_def master_inv_def)
  from master_answers [of "t\<lparr>packet := Some (NetConnReq r)\<rparr>" k r now run_hra rnd] k nid r
  show "\<exists>t'. st_trace run_hra now rnd
      ([PacketPassedOn, NodeSendsOut, ServerSendsOut, NodeSendsOut, NodeSendsOut, NodeSendsOut] @ replicate (length infos) NodeSendsOut)
      (t\<lparr>packet := Some (NetConnReq r)\<rparr>) = Some (t', infos)"
    by (auto simp: quiet_def infos_def cab_answers_def)
  have "map_of ?cs n = Some \<lparr>cri_CabRequest = es_CabRequests st, cri_ReceiverNodeID = n\<rparr>"
    using cab_requests_lookup [of "AList.update n r (activeConnReq k)" "knownNodes (st_server t)" "[]" n] reqs known
    by (simp add: map_laws)
  then show "NetCabInfo \<lparr>cri_CabRequest = es_CabRequests st, cri_ReceiverNodeID = n\<rparr> \<in> set infos"
    using r(1) by (force dest: map_of_SomeD simp: infos_def cab_answers_def)
  show "length (es_CabRequests st) = 4"
    using s known by (auto simp: station_in_def server_in_def states_in_def cabs_in_def)
qed

section \<open>Properties\<close>

text \<open>
  The journey of a press at node \<open>n\<close>: the driver reports it, node \<open>n\<close> broadcasts the new call; node \<open>m\<close> hears
  it and broadcasts the calls \<open>g\<close>; node \<open>n\<close> hears these and its elevator shows them.
\<close>

definition press_journey :: "int \<Rightarrow> int \<Rightarrow> int \<Rightarrow> ButtonType \<Rightarrow> hall_matrix \<Rightarrow> Time \<Rightarrow> uint64 \<Rightarrow> sys_act list" where
  "press_journey n m f b g now rnd =
     map (Act n now rnd) [LiftActs (CarReceives (ButtonRx (mk_event f b))), LiftActs NodeTakesEvent, NodeSendsOut] @
     (Arrive m (NetNewCall \<lparr>nhr_Floor = f, nhr_HallButton = b\<rparr>) #
        map (Act m now rnd) [PacketPassedOn, NodeSendsOut, GhtTimer, GhtSendsOut]) @
     (Arrive n (NetGlobal \<lparr>ghr_HallRequests = g\<rparr>) #
        map (Act n now rnd) [PacketPassedOn, NodeSendsOut, LiftActs CarTakesUpdate])"

text \<open>C3: A hall button pressed at a slave gets its light, and the light means that the master knows: from
  any reachable state of the system in which the slave's and its master's goroutines are at rest,
  this very run can be taken: the slave's driver reports the press, the slave broadcasts the call
  and nothing else, the master hears that message and broadcasts its calls with this one among
  them, and the slave hears those. No other step is taken and exactly these two messages are sent. Then the
  master has the call among the global hall requests and the lamp at the slave's button is lit.\<close>

theorem press_reaches_master_and_lamp:
  assumes "sys_run ''linux'' run_hra S" "hra_within run_hra"
    and st: "stations S n = Some s" "stations S m = Some t" "n \<noteq> m"
    and roles: "snd (lift_node (lf s)) = InSlave l" "snd (lift_node (lf t)) = InMaster k" "ght_enable (st_ght t)"
    and rest: "quiet s" "quiet t" "clock s \<le> now" "clock t \<le> now"
    and call: "hall_call_on_panel f b" "\<not> mat_at (GlobalHallRequests (fst (lift_node (lf s)))) f b"
    and draw: "rnd < MSG_ID_PARTITION_SIZE"
  defines "g \<equiv> mat_put (GlobalHallRequests (fst (lift_node (lf t)))) f b True"
  shows "\<exists>S' s' t'. sys_acts run_hra (press_journey n m f b g now rnd) S = Some S' \<and>
    ether S' = ether S @ [NetNewCall \<lparr>nhr_Floor = f, nhr_HallButton = b\<rparr>, NetGlobal \<lparr>ghr_HallRequests = g\<rparr>] \<and>
    stations S' n = Some s' \<and> stations S' m = Some t' \<and>
    GlobalHallRequests (fst (lift_node (lf t'))) = g \<and> mat_at g f b \<and> lamp (pnl (hw (lift_car (lf s')))) f b"
proof -
  let ?r = "NetNewCall \<lparr>nhr_Floor = f, nhr_HallButton = b\<rparr>" and ?global = "NetGlobal \<lparr>ghr_HallRequests = g\<rparr>"
  let ?t = "t\<lparr>packet := Some ?r\<rparr>" and ?s = "s\<lparr>clock := now\<rparr>"
  have fb: "in_floors f" "b = ButtonHallUp \<or> b = ButtonHallDown" using call(1) by (simp_all add: hall_call_on_panel_def)
  have wf: "wf_mat NUM_FLOORS 2 (GlobalHallRequests (fst (lift_node (lf t))))"
    using sys_lift [OF assms(1,2) linux_executable st(2)] by (simp add: lift_in_def node_calls_in_def mat_in_def)
  from slave_press [where rnd = rnd, OF roles(1) _ _ call(1) rest(3)] rest(1) have
    press: "st_trace run_hra now rnd [LiftActs (CarReceives (ButtonRx (mk_event f b))), LiftActs NodeTakesEvent, NodeSendsOut] s =
      Some (?s, [?r])" by (simp add: quiet_def)
  from act_trace [OF st(1) draw press] obtain S1 where
    S1: "sys_acts run_hra (map (Act n now rnd) [LiftActs (CarReceives (ButtonRx (mk_event f b))), LiftActs NodeTakesEvent, NodeSendsOut]) S = Some S1"
      "stations S1 = (stations S)(n \<mapsto> ?s)" "ether S1 = ether S @ [?r]" by blast
  from master_hears [where rnd = rnd, of ?t k f b now run_hra] roles rest(2,4) wf call(1) obtain t' where
    t': "st_trace run_hra now rnd [PacketPassedOn, NodeSendsOut, GhtTimer, GhtSendsOut] ?t = Some (t', [?global])"
      "GlobalHallRequests (fst (lift_node (lf t'))) = g" "mat_at g f b" by (auto simp: quiet_def g_def)
  from arrive_trace [OF _ _ _ draw t'(1), of S1 m] st rest(2) S1(2,3) obtain S2 where
    S2: "sys_acts run_hra (Arrive m ?r # map (Act m now rnd) [PacketPassedOn, NodeSendsOut, GhtTimer, GhtSendsOut]) S1 = Some S2"
      "stations S2 = (stations S)(n \<mapsto> ?s, m \<mapsto> t')" "ether S2 = ether S @ [?r, ?global]" by (auto simp: quiet_def)
  have ch: "hasChanged g (GlobalHallRequests (fst (lift_node (lf s))))"
    using call(2) t'(3) fb by (auto simp: hasChanged_def list_ex_iff in_floors_def)
  from slave_lights [of "?s\<lparr>packet := Some ?global\<rparr>" l g now f b run_hra rnd] roles(1) rest(1) ch fb
  obtain s' where s': "st_trace run_hra now rnd [PacketPassedOn, NodeSendsOut, LiftActs CarTakesUpdate]
      (?s\<lparr>packet := Some ?global\<rparr>) = Some (s', [])"
      "lamp (pnl (hw (lift_car (lf s')))) f b" using t'(3) by (auto simp: quiet_def)
  from arrive_trace [OF _ _ _ draw s'(1), of S2 n] st(3) rest(1) S2(2,3) obtain S' where
    S': "sys_acts run_hra (Arrive n ?global # map (Act n now rnd) [PacketPassedOn, NodeSendsOut, LiftActs CarTakesUpdate]) S2 = Some S'"
      "stations S' n = Some s'" "stations S' m = Some t'" "ether S' = ether S @ [?r, ?global]" by (auto simp: quiet_def)
  have "sys_acts run_hra (press_journey n m f b g now rnd) S = Some S'"
    unfolding press_journey_def sys_acts_append S1(1) bind.bind_lunit S2(1) S'(1) ..
  with S'(2-4) s'(2) t'(2,3) show ?thesis by blast
qed

text \<open>Node 1 becomes a slave of node 2: the master answers its request with its cab calls.\<close>

definition no_cab_calls :: net_msg where
  "no_cab_calls = NetCabInfo \<lparr>cri_CabRequest = replicate 4 False, cri_ReceiverNodeID = 1\<rparr>"

definition joining :: "sys_act list" where
  "joining =
     [Act 2 0 9 (LiftActs CarTakesUpdate), Arrive 2 first_request, Act 2 0 9 PacketPassedOn, Act 2 0 9 NodeSendsOut,
      Act 2 0 9 ServerSendsOut, Act 2 0 9 NodeSendsOut, Act 2 0 9 NodeSendsOut, Act 2 0 9 NodeSendsOut, Act 2 0 9 NodeSendsOut,
      Act 2 0 9 (LiftActs CarTakesUpdate), Act 2 0 9 (LiftActs CarTakesUpdate),
      Arrive 1 no_cab_calls, Act 1 0 9 PacketPassedOn,
      Act 1 0 9 NodeSendsOut, Act 1 0 9 NodeSendsOut, Act 1 0 9 NodeSendsOut, Act 1 0 9 (LiftActs CarTakesUpdate)]"

lemmas joining_defs = joining_def no_cab_calls_def small_draw dark replicate_5 srv_init_def hat_init_def ght_init_def
  quiet_def ComputeHallAssignments_def makeAllElevStatesUpdateMessage_def zero_result_def
  makeLightMessage_def makeCabOrderMessage_def zero_update_def SetHallLights_def HallOrder_body_def CabOrder_body_def
  SlaveProgram_entry_def hac_handles_def InitFSM_def NewElevator_def OnInitBetweenFloors_def req_def

lemma joining_run:
  "\<exists>S s t l k. sys_acts run_hra (meeting @ joining) sys_init = Some S \<and> stations S 1 = Some s \<and> stations S 2 = Some t \<and>
     snd (lift_node (lf s)) = InSlave l \<and> snd (lift_node (lf t)) = InMaster k \<and> ght_enable (st_ght t) \<and>
     quiet s \<and> quiet t \<and> clock s \<le> 0 \<and> clock t \<le> 0 \<and>
     \<not> mat_at (GlobalHallRequests (fst (lift_node (lf s)))) 2 ButtonHallUp"
  by (simp add: sys_run_defs joining_defs)

theorem press_reaches_master_and_lamp_witness:
  "\<exists>g S s t. sys_acts everything_to_all ((meeting @ joining) @ press_journey 1 2 2 ButtonHallUp g 0 9) sys_init = Some S \<and>
     stations S 1 = Some s \<and> stations S 2 = Some t \<and>
     mat_at (GlobalHallRequests (fst (lift_node (lf t)))) 2 ButtonHallUp \<and> lamp (pnl (hw (lift_car (lf s)))) 2 ButtonHallUp"
proof -
  obtain S s t l k where S: "sys_acts everything_to_all (meeting @ joining) sys_init = Some S" "stations S 1 = Some s"
    "stations S 2 = Some t" and roles: "snd (lift_node (lf s)) = InSlave l" "snd (lift_node (lf t)) = InMaster k" "ght_enable (st_ght t)"
    and rest: "quiet s" "quiet t" "clock s \<le> 0" "clock t \<le> 0"
    and new: "\<not> mat_at (GlobalHallRequests (fst (lift_node (lf s)))) 2 ButtonHallUp" using joining_run by blast
  have "hall_call_on_panel 2 ButtonHallUp" by (simp add: hall_call_on_panel_def in_floors_def)
  from press_reaches_master_and_lamp [OF sys_acts_run [OF S(1) sys_start] hra_within_everything S(2,3) _ roles rest this new small_draw]
  show ?thesis unfolding sys_acts_append [of _ "meeting @ joining"] S(1) bind.bind_lunit by fastforce
qed

text \<open>
  The journey of a restarted node \<open>n\<close> with the request \<open>r\<close>: it boots and asks for a connection; the master
  \<open>m\<close> hears that and sends as many answers as its server knows of; node \<open>n\<close> hears the one that is
  meant for it, with the cab calls \<open>cs\<close>, and its elevator takes them.
\<close>

definition restart_request :: "int \<Rightarrow> uint64 \<Rightarrow> ConnectionReq" where
  "restart_request n rnd = \<lparr>cr_TOLC = 0, cr_NodeID = n, cr_MessageID = fst (GenerateMessageID CONNECTION_REQ rnd)\<rparr>"

definition restart_journey :: "int \<Rightarrow> plant \<Rightarrow> int \<Rightarrow> nat \<Rightarrow> bool list \<Rightarrow> Time \<Rightarrow> uint64 \<Rightarrow> sys_act list" where
  "restart_journey n pl m infos cs now rnd =
     [Boot n pl] @
     map (Act n now rnd) [LiftActs NodeTakesEvent, LiftActs (NodeReceives ConnectionRequestTick), NodeSendsOut] @
     (Arrive m (NetConnReq (restart_request n rnd)) #
        map (Act m now rnd) ([PacketPassedOn, NodeSendsOut, ServerSendsOut, NodeSendsOut, NodeSendsOut, NodeSendsOut] @
          replicate infos NodeSendsOut)) @
     (Arrive n (NetCabInfo \<lparr>cri_CabRequest = cs, cri_ReceiverNodeID = n\<rparr>) #
        map (Act n now rnd) [PacketPassedOn, NodeSendsOut, NodeSendsOut, NodeSendsOut, LiftActs CarTakesUpdate])"

text \<open>C6: Cab calls survive a crash: when a node crashes and starts again while a master is at rest, then from any
  reachable state this very run can be taken: the node boots, asks for a connection and does
  nothing else, the master hears the request and sends its answers, one of them with the cab calls of
  the last state its server knew of that node, and the node hears that one. No other step is taken, no
  button is pressed, and no other messages are sent. Then the car has exactly those cab calls.\<close>

theorem cab_calls_survive_crash:
  assumes "sys_run ''linux'' run_hra S" "hra_within run_hra"
    and st: "stations S m = Some t" "n \<noteq> m"
    and master: "snd (lift_node (lf t)) = InMaster k" "quiet t" "clock t \<le> now" "0 \<le> now"
    and known: "map_of (knownNodes (st_server t)) n = Some st" and pl: "\<not> door_lamp (pnl pl)"
    and draw: "rnd < MSG_ID_PARTITION_SIZE"
  defines "infos \<equiv> cab_answers t (activeConnReq k) (restart_request n rnd)"
  shows "\<exists>S' s'. sys_acts run_hra (restart_journey n pl m (length infos) (es_CabRequests st) now rnd) S = Some S' \<and>
    ether S' = ether S @ NetConnReq (restart_request n rnd) # infos \<and>
    NetCabInfo \<lparr>cri_CabRequest = es_CabRequests st, cri_ReceiverNodeID = n\<rparr> \<in> set infos \<and>
    stations S' n = Some s' \<and>
    (\<forall>f. in_floors f \<longrightarrow> req (elev (lift_car (lf s'))) f ButtonCab = es_CabRequests st ! nat f)"
proof -
  let ?r = "restart_request n rnd" and ?info = "\<lparr>cri_CabRequest = es_CabRequests st, cri_ReceiverNodeID = n\<rparr>"
  let ?S0 = "S\<lparr>stations := (stations S)(n \<mapsto> station_init n pl)\<rparr>"
  have boot: "sys_acts run_hra [Boot n pl] S = Some ?S0" using pl by (simp add: sys_acts_def)
  from boot_asks [OF master(4), of run_hra rnd n pl] obtain s d where
    s: "st_trace run_hra now rnd [LiftActs NodeTakesEvent, LiftActs (NodeReceives ConnectionRequestTick), NodeSendsOut]
      (station_init n pl) = Some (s, [NetConnReq ?r])"
      "snd (lift_node (lf s)) = InDisconnected d" "ID (fst (lift_node (lf s))) = n" "TOLC (fst (lift_node (lf s))) = 0"
      "node_sends (lf s) = []" "updates (lf s) = []" "car_sends (lf s) = []" "server_sends s = []" "hac_sends s = []"
      "packet s = None" "clock s = now" "lift_car (lf s) = fst (ElevatorProgram_init pl)" unfolding restart_request_def by blast
  from act_trace [OF _ draw s(1), of ?S0 n] obtain S1 where
    S1: "sys_acts run_hra (map (Act n now rnd) [LiftActs NodeTakesEvent, LiftActs (NodeReceives ConnectionRequestTick), NodeSendsOut]) ?S0 = Some S1"
      "stations S1 = (stations S)(n \<mapsto> s)" "ether S1 = ether S @ [NetConnReq ?r]" by auto
  have rn: "cr_NodeID ?r = n" by (simp add: restart_request_def)
  note tells = master_tells [
    OF sys_okD(1) [OF sys_run_ok [OF assms(1,2) linux_executable] st(1)] master(1-3) rn st(2) known, folded infos_def]
  from tells(1) [where run_hra = run_hra and rnd = rnd] obtain t' where t': "st_trace run_hra now rnd ([PacketPassedOn, NodeSendsOut, ServerSendsOut, NodeSendsOut, NodeSendsOut,
      NodeSendsOut] @ replicate (length infos) NodeSendsOut) (t\<lparr>packet := Some (NetConnReq ?r)\<rparr>) = Some (t', infos)" by blast
  from arrive_trace [OF _ _ _ draw t', of S1 m] st master(2) S1(2,3) obtain S2 where
    S2: "sys_acts run_hra (Arrive m (NetConnReq ?r) # map (Act m now rnd) ([PacketPassedOn, NodeSendsOut, ServerSendsOut, NodeSendsOut,
      NodeSendsOut, NodeSendsOut] @ replicate (length infos) NodeSendsOut)) S1 = Some S2"
      "stations S2 n = Some s" "ether S2 = ether S @ NetConnReq ?r # infos" by (auto simp: quiet_def)
  from boot_restores [of "s\<lparr>packet := Some (NetCabInfo ?info)\<rparr>" d n "es_CabRequests st" now pl run_hra rnd] s tells(3) obtain s' where
    s': "st_trace run_hra now rnd [PacketPassedOn, NodeSendsOut, NodeSendsOut, NodeSendsOut, LiftActs CarTakesUpdate]
      (s\<lparr>packet := Some (NetCabInfo ?info)\<rparr>) = Some (s', [])"
      "\<forall>f. in_floors f \<longrightarrow> req (elev (lift_car (lf s'))) f ButtonCab = es_CabRequests st ! nat f" by auto
  have "NetCabInfo ?info \<in> set (ether S2)" using tells(2) S2(3) by simp
  from arrive_trace [OF S2(2) this s(10) draw s'(1)] obtain S' where
    S': "sys_acts run_hra (Arrive n (NetCabInfo ?info) # map (Act n now rnd) [PacketPassedOn, NodeSendsOut, NodeSendsOut, NodeSendsOut,
      LiftActs CarTakesUpdate]) S2 = Some S'" "stations S' n = Some s'" "ether S' = ether S2" by auto
  have "sys_acts run_hra (restart_journey n pl m (length infos) (es_CabRequests st) now rnd) S = Some S'"
    unfolding restart_journey_def sys_acts_append boot bind.bind_lunit S1(1) S2(1) S'(1) ..
  with S'(2,3) S2(3) s'(2) tells(2) show ?thesis by auto
qed

text \<open>A cab button is pressed in the slave's car, and its state gets to the master's server.\<close>

definition car_with_call :: Elevator where
  "car_with_call = put_req (NewElevator\<lparr>Dir := DirectionDown, Behavior := Moving\<rparr>) 3 ButtonCab True"

definition telling :: "sys_act list" where
  "telling =
     [Act 1 0 9 (LiftActs (CarReceives (ButtonRx (mk_event 3 ButtonCab)))), Act 1 0 9 (LiftActs TakeSample),
      Act 1 0 9 (LiftActs NodeTakesSample), Act 1 0 9 NodeSendsOut,
      Arrive 2 (NetElevState \<lparr>nes_NodeID = 1, nes_ElevState = transmitElevatorState car_with_call\<rparr>),
      Act 2 0 9 PacketPassedOn]"

lemma telling_run:
  "\<exists>S t k st. sys_acts run_hra (meeting @ joining @ telling) sys_init = Some S \<and> stations S 2 = Some t \<and>
     snd (lift_node (lf t)) = InMaster k \<and> quiet t \<and> clock t \<le> 0 \<and>
     map_of (knownNodes (st_server t)) 1 = Some st \<and> es_CabRequests st ! nat 3"
  by (simp add: sys_run_defs joining_defs telling_def car_with_call_def put_req_def mat_put_def transmitElevatorState_def
      GetCabRequestsAsElevState_def OnRequestButtonPress_def HandleButtonEvent_def replicate_4)

theorem cab_calls_survive_crash_witness:
  "\<exists>infos cs S s. sys_acts everything_to_all ((meeting @ joining @ telling) @ restart_journey 1 dark_plant 2 infos cs 0 9) sys_init =
       Some S \<and> stations S 1 = Some s \<and> req (elev (lift_car (lf s))) 3 ButtonCab"
proof -
  obtain S t k st where S: "sys_acts everything_to_all (meeting @ joining @ telling) sys_init = Some S" "stations S 2 = Some t"
    "snd (lift_node (lf t)) = InMaster k" "quiet t" "clock t \<le> 0" "map_of (knownNodes (st_server t)) 1 = Some st"
    and cab: "es_CabRequests st ! nat 3" using telling_run by blast
  from cab_calls_survive_crash [OF sys_acts_run [OF S(1) sys_start] hra_within_everything S(2) _ S(3-5) order_refl S(6) dark small_draw]
  obtain infos S' s' where S': "sys_acts everything_to_all (restart_journey 1 dark_plant 2 infos (es_CabRequests st) 0 9) S = Some S'"
    "stations S' 1 = Some s'" "\<forall>f. in_floors f \<longrightarrow> req (elev (lift_car (lf s'))) f ButtonCab = es_CabRequests st ! nat f" by auto
  then have "req (elev (lift_car (lf s'))) 3 ButtonCab" using cab by (simp add: in_floors_def)
  with S'(1,2) show ?thesis unfolding sys_acts_append [of _ "meeting @ joining @ telling"] S(1) bind.bind_lunit by blast
qed

end
