(* ===== verification/Assignment.thy ===== *)
theory Assignment
  imports Recovery
begin

text \<open>
  The journey of a hall call from the master that hears of it to the elevator that is to serve it:
  the master asks its server for the active nodes, has the assigner distribute the calls, and
  sends every node its assignment, which a slave accepts once it knows the calls from the master's
  global hall requests.
\<close>

section \<open>The master\<close>

lemma master_distributes:
  assumes nd: "lift_node (lf t) = (node, InMaster k)" and "node_sends (lf t) = []" "updates (lf t) = []" "server_sends t = []"
    and "ght_sends t = []" "ght_enable (st_ght t)" "hat_sends t = []"
    and "packet t = Some (NetNewCall \<lparr>nhr_Floor = f, nhr_HallButton = b\<rparr>)" "hall_call_on_panel f b" "clock t \<le> now"
    and wf: "wf_mat NUM_FLOORS 2 (GlobalHallRequests node)"
    and ask: "STATE_REQUEST_INTERVAL < Since now (lastStateRequest k)"
  defines "g \<equiv> mat_put (GlobalHallRequests node) f b True"
  assumes hra: "HRAalgorithm ''linux'' run_hra
      (AList.update (nes_NodeID (myElevState k)) (nes_ElevState (myElevState k))
        (findActiveNodes now (knownNodes (st_server t)) (lastSeen (st_server t)))) g = Some assigned"
  defines "r \<equiv> assignments_loop (nes_NodeID (myElevState k)) g assigned zero_result"
  shows "\<exists>t' rest. st_trace run_hra now rnd
      [PacketPassedOn, NodeSendsOut, NodeSendsOut, NodeSendsOut, GhtTimer, GhtSendsOut, ServerSendsOut, NodeSendsOut] t =
      Some (t', [NetGlobal \<lparr>ghr_HallRequests = g\<rparr>]) \<and>
    node_sends (lf t') = map (\<lambda>(_, a). HallAssignmentTx a) (OtherAssignments r) @ rest \<and>
    hat_sends t' = [] \<and> st_hat t' = st_hat t \<and> clock t' = now"
proof -
  have b: "b \<noteq> ButtonCab" "in_floors f" "0 \<le> b" "b < 2" using assms(9) by (auto simp: hall_call_on_panel_def)
  have put: "mat_set (GlobalHallRequests node) f b True = Some g"
    unfolding g_def using wf b by (intro mat_set_inrange) (auto simp: in_floors_def)
  let ?u = "makeActiveElevStatesUpdateMessage (findActiveNodes now (knownNodes (st_server t)) (lastSeen (st_server t)))"
  let ?r = "r\<lparr>GlobalHallRequestMsg := \<lparr>ghr_HallRequests = g\<rparr>\<rparr>"
  have "ComputeHallAssignments ''linux'' run_hra True ?u (myElevState k) g (activeConnReq k) = Some (?r, False)"
    using hra by (simp add: ComputeHallAssignments_def makeActiveElevStatesUpdateMessage_def r_def)
  then show ?thesis
    using assms(2-8,10) b(1) put ask
    by (simp add: st_trace_def trace_step_def nd with_lift_def node_handles_def main_step_def node_ready_def ProcessNewHallRequest_def
        case_prod_beta Let_def publish_def state_request_def ght_handles_def server_handles_def UPDATE_BUFFER_def)
qed

text \<open>The transmitter takes the assignments one after the other and broadcasts each.\<close>

definition with_id :: "uint64 \<Rightarrow> NewHallAssignments \<Rightarrow> NewHallAssignments" where
  "with_id rnd a = a\<lparr>nha_MessageID := fst (GenerateMessageID NEW_HALL_ASSIGNMENT rnd)\<rparr>"

lemma sends_assignments:
  assumes "node_sends (lf t) = map (\<lambda>(_, a). HallAssignmentTx a) cs @ rest" "hat_sends t = []" "hat_enable (st_hat t)" "clock t \<le> now"
  shows "\<exists>t'. st_trace run_hra now rnd (concat (replicate (length cs) [NodeSendsOut, HatSendsOut])) t =
    Some (t', map (\<lambda>(_, a). NetAssignment (with_id rnd a)) cs)"
  using assms
proof (induction cs arbitrary: t)
  case Nil
  then show ?case by (simp add: st_trace_def trace_step_def)
next
  case (Cons c cs)
  obtain k a where c: "c = (k, a)" by fastforce
  have "\<exists>t1. st_trace run_hra now rnd [NodeSendsOut, HatSendsOut] t = Some (t1, [NetAssignment (with_id rnd a)]) \<and>
    node_sends (lf t1) = map (\<lambda>(_, a). HallAssignmentTx a) cs @ rest \<and> hat_sends t1 = [] \<and> hat_enable (st_hat t1) \<and> clock t1 \<le> now"
    using Cons.prems c by (simp add: st_trace_def trace_step_def hat_handles_def Let_def with_id_def)
  then obtain t1 where t1: "st_trace run_hra now rnd [NodeSendsOut, HatSendsOut] t = Some (t1, [NetAssignment (with_id rnd a)])"
    "node_sends (lf t1) = map (\<lambda>(_, a). HallAssignmentTx a) cs @ rest" "hat_sends t1 = []" "hat_enable (st_hat t1)" "clock t1 \<le> now"
    by blast
  from Cons.IH [OF t1(2-5)] obtain t' where
    "st_trace run_hra now rnd (concat (replicate (length cs) [NodeSendsOut, HatSendsOut])) t1 =
      Some (t', map (\<lambda>(_, a). NetAssignment (with_id rnd a)) cs)" by blast
  from trace_append [OF t1(1) this] c show ?case by auto
qed

section \<open>The slave\<close>

lemma slave_learns:
  assumes "lift_node (lf s) = (node, InSlave l)" "quiet (s\<lparr>packet := None\<rparr>)" "clock s \<le> now"
    and "packet s = Some (NetGlobal \<lparr>ghr_HallRequests = g\<rparr>)" "hasChanged g (GlobalHallRequests node)"
  shows "\<exists>s' node' l'. st_trace run_hra now rnd [PacketPassedOn, NodeSendsOut, LiftActs CarTakesUpdate] s = Some (s', []) \<and>
    lift_node (lf s') = (node', InSlave l') \<and> quiet s' \<and> clock s' = now \<and> ID node' = ID node \<and>
    GlobalHallRequests node' = g \<and> lastHallAssignmentMessageID l' = lastHallAssignmentMessageID l"
  using assms
  by (simp add: st_trace_def trace_step_def with_lift_def node_handles_def car_handles_def main_step_def node_ready_def UPDATE_BUFFER_def
      Let_def makeLightMessage_def quiet_def case_prod_beta)

lemma slave_takes:
  assumes "lift_node (lf s) = (node, InSlave l)" "quiet (s\<lparr>packet := None\<rparr>)" "clock s \<le> now"
    and "packet s = Some (NetAssignment a)" "nha_NodeID a = ID node"
    and "canAcceptHallAssignments (nha_HallAssignment a) (GlobalHallRequests node)"
    and "lastHallAssignmentMessageID l \<noteq> nha_MessageID a"
    and car: "ep_inv (lift_car (lf s))" "in_floors f" "b = ButtonHallUp \<or> b = ButtonHallDown" "mat_at (nha_HallAssignment a) f b"
  shows "\<exists>s'. st_trace run_hra now rnd [PacketPassedOn, NodeSendsOut, NodeSendsOut, LiftActs CarTakesUpdate] s =
      Some (s', [NetAck \<lparr>ack_MessageID = nha_MessageID a, ack_NodeID = ID node\<rparr>]) \<and>
    (req (elev (lift_car (lf s'))) f b \<or> makeHallAssignmentCompleteEventMessage (mk_event f b) \<in> set (car_sends (lf s')))"
proof -
  let ?u = "makeHallAssignmentAndLightMessage (nha_HallAssignment a) (GlobalHallRequests node)"
  have u: "OrderType ?u = HallOrder" "HallAssignments ?u = nha_HallAssignment a"
    by (simp_all add: makeHallAssignmentAndLightMessage_def)
  from hall_order_effect [OF car(1) u(1)] obtain c out where
    c: "ElevatorProgram_step (lift_car (lf s)) (UpdateRx ?u) = Some (c, out)"
      "req (elev c) f b \<or> makeHallAssignmentCompleteEventMessage (mk_event f b) \<in> set out" using car(2-4) u(2) by fastforce
  have "st_trace run_hra now rnd [PacketPassedOn, NodeSendsOut, NodeSendsOut, LiftActs CarTakesUpdate] s =
    Some (s\<lparr>packet := None, clock := now,
        lf := (lf s)\<lparr>lift_node := (node, InSlave (l\<lparr>lastHallAssignmentMessageID := nha_MessageID a\<rparr>)), node_sends := [],
          updates := [], lift_car := c, car_sends := out\<rparr>\<rparr>,
      [NetAck \<lparr>ack_MessageID = nha_MessageID a, ack_NodeID = ID node\<rparr>])"
    using assms(1-7) c(1)
    by (simp add: st_trace_def trace_step_def with_lift_def node_handles_def car_handles_def main_step_def node_ready_def UPDATE_BUFFER_def
        Let_def quiet_def case_prod_beta del: ElevatorProgram_step.simps)
  with c(2) show ?thesis by simp
qed

section \<open>The journey\<close>

lemma sys_car_inv:
  assumes "sys_run ''linux'' run_hra S" "hra_within run_hra" "stations S n = Some s"
  shows "ep_inv (lift_car (lf s))" "ID (fst (lift_node (lf s))) = n"
  using sys_lift [OF assms(1,2) linux_executable assms(3)] reach_inv by (auto simp: lift_in_def lift_ok_def)

text \<open>What the assigner gives a node is among the calls it was asked about, so the slave accepts it.\<close>

lemma assigned_within:
  assumes "hra_within run_hra" "wf_mat NUM_FLOORS 2 g" "HRAalgorithm goos run_hra states g = Some assigned" "map_of assigned n = Some h"
  shows "canAcceptHallAssignments h g"
proof -
  let ?H = "{(f, b). mat_at g f b}"
  have "mat_in ?H g" using assms(2) by (simp add: mat_in_def)
  from HRA_in [OF assms(1) this assms(3)] map_of_SomeD [OF assms(4)] have "mat_in ?H h" by (auto simp: list_all_iff)
  then show ?thesis by (auto simp: mat_in_def canAccept_iff)
qed

lemma others_assigned:
  assumes "HRAalgorithm goos run_hra states g = Some assigned" "map_of assigned n = Some h" "n \<noteq> me"
  shows "(n, \<lparr>nha_NodeID = n, nha_HallAssignment = h, nha_MessageID = 0\<rparr>) \<in> set (OtherAssignments (assignments_loop me g assigned zero_result))"
  using assignments_lookup [OF HRAalgorithm_valid [OF assms(1)], of me g zero_result n] assms(2,3) map_of_SomeD by fastforce

text \<open>
  The journey of an assignment to the slave \<open>n\<close>: it hears the calls \<open>g\<close> and then the assignment \<open>a\<close>,
  acknowledges it and hands it to its elevator.
\<close>

definition assignment_journey :: "int \<Rightarrow> hall_matrix \<Rightarrow> NewHallAssignments \<Rightarrow> Time \<Rightarrow> uint64 \<Rightarrow> sys_act list" where
  "assignment_journey n g a now rnd =
     (Arrive n (NetGlobal \<lparr>ghr_HallRequests = g\<rparr>) #
        map (Act n now rnd) [PacketPassedOn, NodeSendsOut, LiftActs CarTakesUpdate]) @
     (Arrive n (NetAssignment a) #
        map (Act n now rnd) [PacketPassedOn, NodeSendsOut, NodeSendsOut, LiftActs CarTakesUpdate])"

lemma slave_gets_assignment:
  assumes run: "sys_run ''linux'' run_hra S" "hra_within run_hra" "rnd < MSG_ID_PARTITION_SIZE"
    and s: "stations S n = Some s" "lift_node (lf s) = (node, InSlave l)" "quiet s" "clock s \<le> now"
    and msgs: "NetGlobal \<lparr>ghr_HallRequests = g\<rparr> \<in> set (ether S)" "NetAssignment a \<in> set (ether S)" "nha_NodeID a = n"
    and new: "hasChanged g (GlobalHallRequests node)" "canAcceptHallAssignments (nha_HallAssignment a) g"
      "lastHallAssignmentMessageID l \<noteq> nha_MessageID a"
    and call: "in_floors f" "b = ButtonHallUp \<or> b = ButtonHallDown" "mat_at (nha_HallAssignment a) f b"
  shows "\<exists>S' s'. sys_acts run_hra (assignment_journey n g a now rnd) S = Some S' \<and> stations S' n = Some s' \<and>
    (req (elev (lift_car (lf s'))) f b \<or> makeHallAssignmentCompleteEventMessage (mk_event f b) \<in> set (car_sends (lf s'))) \<and>
    ether S' = ether S @ [NetAck \<lparr>ack_MessageID = nha_MessageID a, ack_NodeID = n\<rparr>]"
proof -
  let ?global = "NetGlobal \<lparr>ghr_HallRequests = g\<rparr>" and ?ack = "NetAck \<lparr>ack_MessageID = nha_MessageID a, ack_NodeID = n\<rparr>"
  from slave_learns [of "s\<lparr>packet := Some ?global\<rparr>" node l now g run_hra rnd] s(2-4) new(1)
  obtain s1 node1 l1 where s1: "st_trace run_hra now rnd [PacketPassedOn, NodeSendsOut, LiftActs CarTakesUpdate]
      (s\<lparr>packet := Some ?global\<rparr>) = Some (s1, [])"
    "lift_node (lf s1) = (node1, InSlave l1)" "quiet s1" "clock s1 = now" "GlobalHallRequests node1 = g"
    "lastHallAssignmentMessageID l1 = lastHallAssignmentMessageID l" by (auto simp: quiet_def)
  from arrive_trace [OF s(1) msgs(1) _ run(3) s1(1)] s(3) obtain S1 where
    S1: "sys_acts run_hra (Arrive n ?global # map (Act n now rnd) [PacketPassedOn, NodeSendsOut, LiftActs CarTakesUpdate]) S = Some S1"
    "stations S1 n = Some s1" "ether S1 = ether S" by (auto simp: quiet_def)
  note inv = sys_car_inv [OF sys_acts_run [OF S1(1) run(1)] run(2) S1(2)]
  from slave_takes [of "s1\<lparr>packet := Some (NetAssignment a)\<rparr>" node1 l1 now a f b run_hra rnd] s1(2-6) inv msgs(3) new(2,3) call
  obtain s2 where s2: "st_trace run_hra now rnd [PacketPassedOn, NodeSendsOut, NodeSendsOut, LiftActs CarTakesUpdate]
      (s1\<lparr>packet := Some (NetAssignment a)\<rparr>) = Some (s2, [?ack])"
    "req (elev (lift_car (lf s2))) f b \<or> makeHallAssignmentCompleteEventMessage (mk_event f b) \<in> set (car_sends (lf s2))"
    by (auto simp: quiet_def)
  from arrive_trace [OF S1(2) _ _ run(3) s2(1)] s1(3) S1(3) msgs(2) obtain S2 where
    S2: "sys_acts run_hra (Arrive n (NetAssignment a) #
      map (Act n now rnd) [PacketPassedOn, NodeSendsOut, NodeSendsOut, LiftActs CarTakesUpdate]) S1 = Some S2"
    "stations S2 n = Some s2" "ether S2 = ether S @ [?ack]" by (auto simp: quiet_def)
  have "sys_acts run_hra (assignment_journey n g a now rnd) S = Some S2"
    unfolding assignment_journey_def sys_acts_append S1(1) bind.bind_lunit S2(1) ..
  with S2(2,3) s2(2) show ?thesis by blast
qed

section \<open>Properties\<close>

text \<open>
  The journey of a call at the master \<open>m\<close> and on to the slave \<open>n\<close>: the master hears the new call,
  broadcasts the calls \<open>g\<close>, asks its server for the active nodes and broadcasts \<open>others\<close> assignments;
  then the slave hears the calls and the assignment \<open>a\<close>.
\<close>

definition call_journey :: "int \<Rightarrow> int \<Rightarrow> int \<Rightarrow> ButtonType \<Rightarrow> hall_matrix \<Rightarrow> nat \<Rightarrow> NewHallAssignments \<Rightarrow> Time \<Rightarrow> uint64 \<Rightarrow> sys_act list" where
  "call_journey m n f b g others a now rnd =
     (Arrive m (NetNewCall \<lparr>nhr_Floor = f, nhr_HallButton = b\<rparr>) #
        map (Act m now rnd) ([PacketPassedOn, NodeSendsOut, NodeSendsOut, NodeSendsOut, GhtTimer, GhtSendsOut, ServerSendsOut, NodeSendsOut] @
          concat (replicate others [NodeSendsOut, HatSendsOut]))) @
     assignment_journey n g a now rnd"

text \<open>C4: A hall call the master hears of gets to the elevator it is assigned to: from any reachable state in
  which the call's message is on the network, a master and a slave are at rest, and the assigner,
  asked with the calls and the nodes the master's server knows to be active, gives the call to the
  slave, this very run can be taken: the master hears the message, broadcasts its calls with this one
  among them, and one assignment for each other node; the slave hears the calls and its own
  assignment. No other step is taken, in particular no button is pressed, and the messages sent are
  the calls, the assignments and the slave's acknowledgement. Then the slave's elevator has the call
  pending or has reported it served.\<close>

theorem call_gets_to_its_elevator:
  assumes run: "sys_run ''linux'' run_hra S" "hra_within run_hra"
    and st: "stations S n = Some s" "stations S m = Some t" "n \<noteq> m"
    and call: "NetNewCall \<lparr>nhr_Floor = f, nhr_HallButton = b\<rparr> \<in> set (ether S)" "hall_call_on_panel f b"
    and roles: "lift_node (lf s) = (snode, InSlave l)" "lift_node (lf t) = (node, InMaster k)"
      "ght_enable (st_ght t)" "hat_enable (st_hat t)"
    and rest: "quiet s" "quiet t" "clock s \<le> now" "clock t \<le> now"
    and new: "\<not> mat_at (GlobalHallRequests snode) f b"
    and ask: "STATE_REQUEST_INTERVAL < Since now (lastStateRequest k)" "nes_NodeID (myElevState k) = m"
    and hra: "HRAalgorithm ''linux'' run_hra
        (AList.update m (nes_ElevState (myElevState k))
          (findActiveNodes now (knownNodes (st_server t)) (lastSeen (st_server t))))
        (mat_put (GlobalHallRequests node) f b True) = Some assigned"
      "map_of assigned n = Some h" "mat_at h f b"
    and draw: "rnd < MSG_ID_PARTITION_SIZE" "lastHallAssignmentMessageID l \<noteq> fst (GenerateMessageID NEW_HALL_ASSIGNMENT rnd)"
  defines "g \<equiv> mat_put (GlobalHallRequests node) f b True"
    and "a \<equiv> \<lparr>nha_NodeID = n, nha_HallAssignment = h, nha_MessageID = fst (GenerateMessageID NEW_HALL_ASSIGNMENT rnd)\<rparr>"
  defines "others \<equiv> map (\<lambda>(_, x). with_id rnd x) (OtherAssignments (assignments_loop m g assigned zero_result))"
  shows "\<exists>S' s'. sys_acts run_hra (call_journey m n f b g (length others) a now rnd) S = Some S' \<and>
    ether S' = ether S @ NetGlobal \<lparr>ghr_HallRequests = g\<rparr> # map NetAssignment others @
      [NetAck \<lparr>ack_MessageID = nha_MessageID a, ack_NodeID = n\<rparr>] \<and>
    a \<in> set others \<and> stations S' n = Some s' \<and>
    (req (elev (lift_car (lf s'))) f b \<or> makeHallAssignmentCompleteEventMessage (mk_event f b) \<in> set (car_sends (lf s')))"
proof -
  let ?r = "NetNewCall \<lparr>nhr_Floor = f, nhr_HallButton = b\<rparr>" and ?global = "NetGlobal \<lparr>ghr_HallRequests = g\<rparr>"
  let ?cs = "OtherAssignments (assignments_loop m g assigned zero_result)"
  let ?as = "[PacketPassedOn, NodeSendsOut, NodeSendsOut, NodeSendsOut, GhtTimer, GhtSendsOut, ServerSendsOut, NodeSendsOut]"
  have fb: "in_floors f" "b = ButtonHallUp \<or> b = ButtonHallDown" using call(2) by (auto simp: hall_call_on_panel_def)
  have wf: "wf_mat NUM_FLOORS 2 (GlobalHallRequests node)"
    using sys_lift [OF run linux_executable st(2)] roles(2) by (simp add: lift_in_def node_calls_in_def mat_in_def)
  have at: "mat_at g f b" unfolding g_def using wf fb by (subst mat_at_put) (auto simp: in_floors_def)
  have sent: "map (\<lambda>(_, x). NetAssignment (with_id rnd x)) ?cs = map NetAssignment others" "length others = length ?cs"
    by (auto simp: others_def)
  from master_distributes [of "t\<lparr>packet := Some ?r\<rparr>" node k f b now run_hra assigned rnd] roles rest(2,4) call(2) wf ask hra(1)
  obtain t1 more where t1: "st_trace run_hra now rnd ?as (t\<lparr>packet := Some ?r\<rparr>) = Some (t1, [?global])"
    "node_sends (lf t1) = map (\<lambda>(_, x). HallAssignmentTx x) ?cs @ more"
    "hat_sends t1 = []" "st_hat t1 = st_hat t" "clock t1 = now" by (auto simp: quiet_def g_def)
  from sends_assignments [OF t1(2,3), of now run_hra rnd] t1(4,5) roles(4) obtain t2 where
    "st_trace run_hra now rnd (concat (replicate (length others) [NodeSendsOut, HatSendsOut])) t1 = Some (t2, map NetAssignment others)"
    by (auto simp: sent)
  note t2 = trace_append [OF t1(1) this]
  have mine: "a \<in> set others"
    using others_assigned [OF hra(1,2) st(3)] by (force simp: others_def a_def g_def with_id_def)
  from arrive_trace [OF st(2) call(1) _ draw(1) t2] rest(2) st(1,3) obtain S1 where
    S1: "sys_acts run_hra (Arrive m ?r # map (Act m now rnd) (?as @ concat (replicate (length others) [NodeSendsOut, HatSendsOut]))) S = Some S1"
    "stations S1 n = Some s" "ether S1 = ether S @ ?global # map NetAssignment others" by (auto simp: quiet_def)
  have ch: "hasChanged g (GlobalHallRequests snode)" using new at fb by (auto simp: hasChanged_def list_ex_iff in_floors_def)
  have within: "canAcceptHallAssignments h g" unfolding g_def by (rule assigned_within [OF run(2) _ hra(1,2)]) (simp add: wf wf_mat_put)
  have msgs: "?global \<in> set (ether S1)" "NetAssignment a \<in> set (ether S1)" using S1(3) mine by auto
  have a: "nha_NodeID a = n" "nha_HallAssignment a = h" "lastHallAssignmentMessageID l \<noteq> nha_MessageID a" using draw(2) by (simp_all add: a_def)
  from slave_gets_assignment [OF sys_acts_run [OF S1(1) run(1)] run(2) draw(1) S1(2) roles(1) rest(1,3) msgs a(1) ch _ a(3) fb] within hra(3) a(2)
  obtain S' s' where S': "sys_acts run_hra (assignment_journey n g a now rnd) S1 = Some S'" "stations S' n = Some s'"
    "req (elev (lift_car (lf s'))) f b \<or> makeHallAssignmentCompleteEventMessage (mk_event f b) \<in> set (car_sends (lf s'))"
    "ether S' = ether S1 @ [NetAck \<lparr>ack_MessageID = nha_MessageID a, ack_NodeID = n\<rparr>]" by auto
  have "sys_acts run_hra (call_journey m n f b g (length others) a now rnd) S = Some S'"
    unfolding call_journey_def sys_acts_append S1(1) bind.bind_lunit S'(1) ..
  with S'(2-4) S1(3) mine show ?thesis by auto
qed

text \<open>
  Node 1, a slave, has told node 2, its master, of its elevator's state, and the master has seen its
  own elevator; then a hall button is pressed at node 1.
\<close>

definition asking :: "sys_act list" where
  "asking =
     [Act 2 0 9 (LiftActs TakeSample), Act 2 0 9 (LiftActs NodeTakesSample), Act 2 0 9 NodeSendsOut,
      Act 1 0 9 (LiftActs (CarReceives (ButtonRx (mk_event 2 ButtonHallUp)))), Act 1 0 9 (LiftActs NodeTakesEvent),
      Act 1 0 9 NodeSendsOut]"

lemma asking_run:
  "\<exists>S s t snode l node k st. sys_acts run_hra (meeting @ joining @ telling @ asking) sys_init = Some S \<and>
     stations S 1 = Some s \<and> stations S 2 = Some t \<and> NetNewCall \<lparr>nhr_Floor = 2, nhr_HallButton = ButtonHallUp\<rparr> \<in> set (ether S) \<and>
     lift_node (lf s) = (snode, InSlave l) \<and> lift_node (lf t) = (node, InMaster k) \<and> ght_enable (st_ght t) \<and> hat_enable (st_hat t) \<and>
     quiet s \<and> quiet t \<and> clock s \<le> 0 \<and> clock t \<le> 0 \<and> \<not> mat_at (GlobalHallRequests snode) 2 ButtonHallUp \<and>
     lastStateRequest k = 0 \<and> nes_NodeID (myElevState k) = 2 \<and> knownNodes (st_server t) = [(1, st)] \<and> lastSeen (st_server t) = [(1, 0)] \<and>
     lastHallAssignmentMessageID l = 0 \<and> GlobalHallRequests node = zero_mat NUM_FLOORS 2"
  by (simp add: sys_run_defs joining_defs telling_def asking_def car_with_call_def put_req_def mat_put_def transmitElevatorState_def
      GetCabRequestsAsElevState_def OnRequestButtonPress_def HandleButtonEvent_def replicate_4)


lemma both_assigned:
  "HRAalgorithm ''linux'' everything_to_all [(1, x), (2, y)] g = Some [(1, g), (2, g)]"
  using int64_small by (simp add: HRAalgorithm_def hra_executable_def everything_to_all_def Let_def show_int_eq_iff Atoi_key)

theorem call_gets_to_its_elevator_witness:
  "\<exists>g others a S s. sys_acts everything_to_all ((meeting @ joining @ telling @ asking) @
       call_journey 2 1 2 ButtonHallUp g others a (Instant (200 * Millisecond)) 9) sys_init = Some S \<and> stations S 1 = Some s \<and>
     (req (elev (lift_car (lf s))) 2 ButtonHallUp \<or>
      makeHallAssignmentCompleteEventMessage (mk_event 2 ButtonHallUp) \<in> set (car_sends (lf s)))"
proof -
  let ?asked = "meeting @ joining @ telling @ asking" and ?now = "Instant (200 * Millisecond)"
  let ?g = "mat_put (zero_mat NUM_FLOORS 2) 2 ButtonHallUp True"
  obtain S s t snode l node k st where S: "sys_acts everything_to_all ?asked sys_init = Some S" "stations S 1 = Some s" "stations S 2 = Some t"
    and call: "NetNewCall \<lparr>nhr_Floor = 2, nhr_HallButton = ButtonHallUp\<rparr> \<in> set (ether S)"
    and roles: "lift_node (lf s) = (snode, InSlave l)" "lift_node (lf t) = (node, InMaster k)" "ght_enable (st_ght t)" "hat_enable (st_hat t)"
    and rest: "quiet s" "quiet t" "clock s \<le> 0" "clock t \<le> 0" "\<not> mat_at (GlobalHallRequests snode) 2 ButtonHallUp"
    and k: "lastStateRequest k = 0" "nes_NodeID (myElevState k) = 2" "knownNodes (st_server t) = [(1, st)]" "lastSeen (st_server t) = [(1, 0)]"
      "lastHallAssignmentMessageID l = 0" "GlobalHallRequests node = zero_mat NUM_FLOORS 2" using asking_run by blast
  have late: "(0 :: Time) \<le> ?now" by (simp add: less_eq_Time_def zero_Time_def)
  have ask: "STATE_REQUEST_INTERVAL < Since ?now (lastStateRequest k)"
    by (simp add: k(1) Since_def Sub_def zero_Time_def STATE_REQUEST_INTERVAL_def)
  have hra: "HRAalgorithm ''linux'' everything_to_all (AList.update 2 (nes_ElevState (myElevState k))
      (findActiveNodes ?now (knownNodes (st_server t)) (lastSeen (st_server t)))) (mat_put (GlobalHallRequests node) 2 ButtonHallUp True) =
      Some [(1, ?g), (2, ?g)]"
    using both_assigned by (simp add: k findActiveNodes_def Since_def Sub_def zero_Time_def NODE_CONNECTION_TIMEOUT_def)
  have at: "mat_at ?g 2 ButtonHallUp" by (subst mat_at_put [OF wf_mat_zero]) simp_all
  have id: "lastHallAssignmentMessageID l \<noteq> fst (GenerateMessageID NEW_HALL_ASSIGNMENT 9)" by (simp add: k(5) GenerateMessageID_def)
  have panel: "hall_call_on_panel 2 ButtonHallUp" by (simp add: hall_call_on_panel_def in_floors_def)
  from call_gets_to_its_elevator [OF sys_acts_run [OF S(1) sys_start] hra_within_everything S(2,3) _ call panel roles rest(1,2)
      order_trans [OF rest(3) late] order_trans [OF rest(4) late] rest(5) ask k(2) hra _ at small_draw id]
  show ?thesis unfolding sys_acts_append [of _ ?asked] S(1) bind.bind_lunit by fastforce
qed

end
