(* ===== verification/Completion.thy ===== *)
theory Completion
  imports Assignment
begin

text \<open>
  The journey of a served hall call: the slave's elevator reports it, the transmitter sends it to
  the master, which clears it, acknowledges it and publishes the calls that are left; the
  acknowledgement stops the transmitter and the lamp goes out.
\<close>

section \<open>Steps of the two nodes\<close>

definition completion :: "int \<Rightarrow> ButtonType \<Rightarrow> uint64 \<Rightarrow> HallAssignmentComplete" where
  "completion f b rnd =
     \<lparr>hac_Floor = f, hac_HallButton = b, hac_MessageID = fst (GenerateMessageID HALL_ASSIGNMENT_COMPLETE rnd)\<rparr>"

lemma completion_simps [simp]:
  "hac_Floor (completion f b rnd) = f" "hac_HallButton (completion f b rnd) = b"
  "hac_MessageID (completion f b rnd) = fst (GenerateMessageID HALL_ASSIGNMENT_COMPLETE rnd)"
  by (simp_all add: completion_def)

lemma slave_reports:
  assumes "lift_node (lf s) = (node, InSlave l)" "node_sends (lf s) = []" "hac_sends s = []" "clock s \<le> now"
    and "car_sends (lf s) = [makeHallAssignmentCompleteEventMessage (mk_event f b)]" "b \<noteq> ButtonCab"
  shows "\<exists>s'. st_trace run_hra now rnd [LiftActs NodeTakesEvent, NodeSendsOut, HacSendsOut] s =
      Some (s', [NetComplete (completion f b rnd)]) \<and>
    lf s' = (lf s)\<lparr>car_sends := []\<rparr> \<and> hac_sends s' = [] \<and> clock s' = now \<and> packet s' = packet s \<and> ack_held s' = ack_held s \<and>
    server_sends s' = server_sends s \<and> hat_sends s' = hat_sends s \<and> ght_sends s' = ght_sends s"
  using assms
  by (simp add: st_trace_def trace_step_def with_lift_def node_handles_def main_step_def make_messages hac_handles_def Let_def
      completion_def)

lemma master_clears:
  assumes nd: "lift_node (lf t) = (node, InMaster k)" and "quiet (t\<lparr>packet := None\<rparr>)" "ght_enable (st_ght t)" "clock t \<le> now"
    and "packet t = Some (NetComplete c)"
    and p: "ProcessHAComplete (GlobalHallRequests node) (recentHACompleteBuffer k) c = Some (g, buf, True)"
  shows "\<exists>t'. st_trace run_hra now rnd [PacketPassedOn, NodeSendsOut, NodeSendsOut, NodeSendsOut, GhtTimer, GhtSendsOut] t =
      Some (t', [NetAck \<lparr>ack_MessageID = hac_MessageID c, ack_NodeID = ID node\<rparr>, NetGlobal \<lparr>ghr_HallRequests = g\<rparr>]) \<and>
    GlobalHallRequests (fst (lift_node (lf t'))) = g"
  using assms
  by (simp add: st_trace_def trace_step_def with_lift_def node_handles_def main_step_def node_ready_def
      case_prod_beta Let_def publish_def ght_handles_def UPDATE_BUFFER_def quiet_def)

lemma slave_hears_ack:
  assumes "quiet (s\<lparr>packet := None\<rparr>)" "clock s \<le> now" "packet s = Some (NetAck a)"
    and "IncomingAckDistributor a = Some HallAssignmentCompleteAck"
  shows "\<exists>s'. st_trace run_hra now rnd [PacketPassedOn, AckPassedOn] s = Some (s', []) \<and> lf s' = lf s \<and> quiet s' \<and> clock s' = now \<and>
    hac_waiting (st_hac s') (ack_MessageID a) = None"
  using assms
  by (simp add: st_trace_def trace_step_def hac_handles_def quiet_def hac_waiting_def delete_conv')

text \<open>Like \<open>slave_learns\<close>, with what the panel shows.\<close>

lemma slave_darkens:
  assumes "lift_node (lf s) = (node, InSlave l)" "quiet (s\<lparr>packet := None\<rparr>)" "clock s \<le> now"
    and "packet s = Some (NetGlobal \<lparr>ghr_HallRequests = g\<rparr>)" "hasChanged g (GlobalHallRequests node)"
    and f: "in_floors f" "b = ButtonHallUp \<or> b = ButtonHallDown"
  shows "\<exists>s'. st_trace run_hra now rnd [PacketPassedOn, NodeSendsOut, LiftActs CarTakesUpdate] s = Some (s', []) \<and>
    lamp (pnl (hw (lift_car (lf s')))) f b = mat_at g f b \<and> GlobalHallRequests (fst (lift_node (lf s'))) = g \<and>
    st_hac s' = st_hac s"
proof -
  let ?e = "(elev (lift_car (lf s)))\<lparr>HallLightStates := g\<rparr>"
  have "lamp (pnl (apply_effects (map Hw (SetAllLights ?e)) (hw (lift_car (lf s))))) f b = mat_at g f b"
    using apply_lights(5) [of ?e "hw (lift_car (lf s))"] f
    by (auto simp: lights_shown_def in_floors_def buttons_def lights_of_def)
  with assms(1-5) show ?thesis
    by (simp add: st_trace_def trace_step_def with_lift_def node_handles_def car_handles_def main_step_def node_ready_def UPDATE_BUFFER_def
        Let_def makeLightMessage_def SetHallLights_def quiet_def)
qed

section \<open>The journey\<close>

lemma completion_id:
  assumes "rnd < MSG_ID_PARTITION_SIZE"
  shows "fst (GenerateMessageID HALL_ASSIGNMENT_COMPLETE rnd) \<noteq> 0"
    and "IncomingAckDistributor \<lparr>ack_MessageID = fst (GenerateMessageID HALL_ASSIGNMENT_COMPLETE rnd), ack_NodeID = m\<rparr> =
      Some HallAssignmentCompleteAck"
  using generated_partition [OF _ assms, of HALL_ASSIGNMENT_COMPLETE] by (auto simp: distributor_by_value)

text \<open>What a master at rest makes of a completion it has not seen.\<close>

lemma sys_master_completes:
  assumes "sys_run ''linux'' run_hra S" "hra_within run_hra" "stations S m = Some t" "lift_node (lf t) = (node, InMaster k)"
    and "hall_call_on_panel f b" "rnd < MSG_ID_PARTITION_SIZE"
    and "fst (GenerateMessageID HALL_ASSIGNMENT_COMPLETE rnd) \<notin> set (recent_ids (recentHACompleteBuffer k))"
  shows "\<exists>buf. ProcessHAComplete (GlobalHallRequests node) (recentHACompleteBuffer k) (completion f b rnd) =
      Some (mat_put (GlobalHallRequests node) f b False, buf, True)"
    and "ID node = m" "\<not> mat_at (mat_put (GlobalHallRequests node) f b False) f b"
proof -
  have fb: "in_floors f" "b = ButtonHallUp \<or> b = ButtonHallDown" using assms(5) by (auto simp: hall_call_on_panel_def)
  have inv: "wf_mat NUM_FLOORS 2 (GlobalHallRequests node)" "buf_ok (recentHACompleteBuffer k)" "ID node = m"
    using sys_lift [OF assms(1,2) linux_executable assms(3)] assms(4)
    by (auto simp: lift_in_def node_calls_in_def mat_in_def lift_ok_def main_ok_def master_inv_def)
  show "\<exists>buf. ProcessHAComplete (GlobalHallRequests node) (recentHACompleteBuffer k) (completion f b rnd) =
      Some (mat_put (GlobalHallRequests node) f b False, buf, True)"
    using complete_process [OF inv(1,2), of "completion f b rnd"] fb assms(7) completion_id(1) [OF assms(6)] by auto
  show "ID node = m" by (rule inv(3))
  show "\<not> mat_at (mat_put (GlobalHallRequests node) f b False) f b"
    using inv(1) fb by (subst mat_at_put) (auto simp: in_floors_def)
qed

text \<open>
  The journey of the completion \<open>c\<close> of a call served by the slave \<open>n\<close>: the slave's transmitter broadcasts it;
  the master \<open>m\<close> hears it, acknowledges it and broadcasts the calls \<open>g\<close> that are left; the slave hears
  the acknowledgement and then those calls.
\<close>

definition completion_journey :: "int \<Rightarrow> int \<Rightarrow> HallAssignmentComplete \<Rightarrow> hall_matrix \<Rightarrow> Time \<Rightarrow> uint64 \<Rightarrow> sys_act list" where
  "completion_journey n m c g now rnd =
     map (Act n now rnd) [LiftActs NodeTakesEvent, NodeSendsOut, HacSendsOut] @
     (Arrive m (NetComplete c) #
        map (Act m now rnd) [PacketPassedOn, NodeSendsOut, NodeSendsOut, NodeSendsOut, GhtTimer, GhtSendsOut]) @
     (Arrive n (NetAck \<lparr>ack_MessageID = hac_MessageID c, ack_NodeID = m\<rparr>) #
        map (Act n now rnd) [PacketPassedOn, AckPassedOn]) @
     (Arrive n (NetGlobal \<lparr>ghr_HallRequests = g\<rparr>) #
        map (Act n now rnd) [PacketPassedOn, NodeSendsOut, LiftActs CarTakesUpdate])"

text \<open>C5: A hall call that is served is forgotten everywhere it was known: from any reachable state in which a
  slave's elevator has a served hall call to report, slave and master are otherwise at rest and the
  identifier drawn is none of the last ones the master saw, this very run can be taken: the slave
  sends the completion, the master hears it, sends the acknowledgement and the calls that are left,
  and the slave hears these two. No other step is taken, no node restarts, and exactly these three messages are
  sent. Then the master has cleared this call and no other, the slave believes what the master
  believes, the lamp at the slave's button is off, and the slave's transmitter no longer waits for
  an acknowledgement of the report.\<close>

theorem served_call_is_forgotten:
  assumes run: "sys_run ''linux'' run_hra S" "hra_within run_hra"
    and st: "stations S n = Some s" "stations S m = Some t" "n \<noteq> m"
    and roles: "lift_node (lf s) = (snode, InSlave l)" "lift_node (lf t) = (node, InMaster k)" "ght_enable (st_ght t)"
    and served: "car_sends (lf s) = [makeHallAssignmentCompleteEventMessage (mk_event f b)]" "hall_call_on_panel f b"
      "mat_at (GlobalHallRequests snode) f b"
    and rest: "quiet (s\<lparr>lf := (lf s)\<lparr>car_sends := []\<rparr>\<rparr>)" "quiet t" "clock s \<le> now" "clock t \<le> now"
    and draw: "rnd < MSG_ID_PARTITION_SIZE"
      "fst (GenerateMessageID HALL_ASSIGNMENT_COMPLETE rnd) \<notin> set (recent_ids (recentHACompleteBuffer k))"
  defines "g \<equiv> mat_put (GlobalHallRequests node) f b False" and "c \<equiv> completion f b rnd"
  shows "\<exists>S' s' t'. sys_acts run_hra (completion_journey n m c g now rnd) S = Some S' \<and>
    ether S' = ether S @ [NetComplete c, NetAck \<lparr>ack_MessageID = hac_MessageID c, ack_NodeID = m\<rparr>, NetGlobal \<lparr>ghr_HallRequests = g\<rparr>] \<and>
    stations S' n = Some s' \<and> stations S' m = Some t' \<and>
    GlobalHallRequests (fst (lift_node (lf t'))) = g \<and> GlobalHallRequests (fst (lift_node (lf s'))) = g \<and>
    \<not> mat_at g f b \<and> \<not> lamp (pnl (hw (lift_car (lf s')))) f b \<and> hac_waiting (st_hac s') (hac_MessageID c) = None"
proof -
  let ?global = "NetGlobal \<lparr>ghr_HallRequests = g\<rparr>" and ?ack = "\<lparr>ack_MessageID = hac_MessageID c, ack_NodeID = m\<rparr>"
  have fb: "in_floors f" "b = ButtonHallUp \<or> b = ButtonHallDown" "b \<noteq> ButtonCab"
    using served(2) by (auto simp: hall_call_on_panel_def)
  note m = sys_master_completes [OF run st(2) roles(2) served(2) draw, folded g_def c_def]
  from m(1) obtain buf where p: "ProcessHAComplete (GlobalHallRequests node) (recentHACompleteBuffer k) c = Some (g, buf, True)" by blast
  from slave_reports [OF roles(1) _ _ rest(3) served(1) fb(3), where run_hra = run_hra and rnd = rnd] rest(1) obtain s1 where
    s1: "st_trace run_hra now rnd [LiftActs NodeTakesEvent, NodeSendsOut, HacSendsOut] s = Some (s1, [NetComplete c])"
      "lf s1 = (lf s)\<lparr>car_sends := []\<rparr>" "quiet s1" "clock s1 = now" by (auto simp: quiet_def c_def)
  from act_trace [OF st(1) draw(1) s1(1)] obtain S1 where
    S1: "sys_acts run_hra (map (Act n now rnd) [LiftActs NodeTakesEvent, NodeSendsOut, HacSendsOut]) S = Some S1"
    "stations S1 = (stations S)(n \<mapsto> s1)" "ether S1 = ether S @ [NetComplete c]" by blast
  from master_clears [of "t\<lparr>packet := Some (NetComplete c)\<rparr>" node k now c g buf run_hra rnd] roles(2,3) rest(2,4) p m(2)
  obtain t1 where t1: "st_trace run_hra now rnd [PacketPassedOn, NodeSendsOut, NodeSendsOut, NodeSendsOut, GhtTimer, GhtSendsOut]
      (t\<lparr>packet := Some (NetComplete c)\<rparr>) = Some (t1, [NetAck ?ack, ?global])"
    "GlobalHallRequests (fst (lift_node (lf t1))) = g" by (auto simp: quiet_def)
  from arrive_trace [OF _ _ _ draw(1) t1(1), of S1 m] rest(2) S1(2,3) st(2,3) obtain S2 where
    S2: "sys_acts run_hra (Arrive m (NetComplete c) # map (Act m now rnd)
      [PacketPassedOn, NodeSendsOut, NodeSendsOut, NodeSendsOut, GhtTimer, GhtSendsOut]) S1 = Some S2"
    "stations S2 = (stations S)(n \<mapsto> s1, m \<mapsto> t1)" "ether S2 = ether S @ [NetComplete c, NetAck ?ack, ?global]"
    by (auto simp: quiet_def)
  from slave_hears_ack [of "s1\<lparr>packet := Some (NetAck ?ack)\<rparr>" now ?ack run_hra rnd] s1(3,4) completion_id(2) [OF draw(1)]
  obtain s2 where s2: "st_trace run_hra now rnd [PacketPassedOn, AckPassedOn] (s1\<lparr>packet := Some (NetAck ?ack)\<rparr>) = Some (s2, [])"
    "lf s2 = lf s1" "quiet s2" "clock s2 = now" "hac_waiting (st_hac s2) (hac_MessageID c) = None" by (auto simp: quiet_def c_def)
  from arrive_trace [OF _ _ _ draw(1) s2(1), of S2 n] s1(3) S2(2,3) st(3) obtain S3 where
    S3: "sys_acts run_hra (Arrive n (NetAck ?ack) # map (Act n now rnd) [PacketPassedOn, AckPassedOn]) S2 = Some S3"
    "stations S3 = (stations S)(n \<mapsto> s2, m \<mapsto> t1)" "ether S3 = ether S2" by (auto simp: quiet_def fun_upd_twist)
  have ch: "hasChanged g (GlobalHallRequests snode)"
    using served(3) m(3) fb by (auto simp: hasChanged_def list_ex_iff in_floors_def)
  from slave_darkens [of "s2\<lparr>packet := Some ?global\<rparr>" snode l now g f b run_hra rnd] s2(2-4) s1(2) roles(1) ch fb(1,2)
  obtain s3 where s3: "st_trace run_hra now rnd [PacketPassedOn, NodeSendsOut, LiftActs CarTakesUpdate] (s2\<lparr>packet := Some ?global\<rparr>) =
      Some (s3, [])" "lamp (pnl (hw (lift_car (lf s3)))) f b = mat_at g f b" "GlobalHallRequests (fst (lift_node (lf s3))) = g"
    "st_hac s3 = st_hac s2" by (auto simp: quiet_def)
  from arrive_trace [OF _ _ _ draw(1) s3(1), of S3 n] s2(3) S3(2,3) S2(3) st(3) obtain S4 where
    S4: "sys_acts run_hra (Arrive n ?global # map (Act n now rnd) [PacketPassedOn, NodeSendsOut, LiftActs CarTakesUpdate]) S3 = Some S4"
    "stations S4 n = Some s3" "stations S4 m = Some t1" "ether S4 = ether S2" by (auto simp: quiet_def)
  have "sys_acts run_hra (completion_journey n m c g now rnd) S = Some S4"
    unfolding completion_journey_def sys_acts_append S1(1) bind.bind_lunit S2(1) S3(1) S4(1) ..
  with S4(2-4) S2(3) s3(2-4) s2(5) t1(2) m(3) show ?thesis by (intro exI [of _ S4] exI [of _ s3] exI [of _ t1]) simp
qed

text \<open>
  The run of \<open>asking\<close> goes on, 200 milliseconds later: the master distributes the call, node 1 takes
  it and its car stops at the floor, which serves the call.
\<close>

definition distribution_time :: Time where
  "distribution_time = Instant (200 * Millisecond)"

definition one_call :: hall_matrix where
  "one_call = [[False, False], [False, False], [True, False], [False, False]]"

definition distributing :: "sys_act list" where
  "distributing =
     Arrive 2 (NetNewCall \<lparr>nhr_Floor = 2, nhr_HallButton = ButtonHallUp\<rparr>) # map (Act 2 distribution_time 9)
       [PacketPassedOn, NodeSendsOut, NodeSendsOut, NodeSendsOut, GhtTimer, GhtSendsOut, ServerSendsOut, NodeSendsOut,
        NodeSendsOut, HatSendsOut, NodeSendsOut, NodeSendsOut, LiftActs CarTakesUpdate, LiftActs CarTakesUpdate,
        LiftActs CarTakesUpdate]"

definition serving :: "sys_act list" where
  "serving =
     Arrive 1 (NetGlobal \<lparr>ghr_HallRequests = one_call\<rparr>) #
     map (Act 1 distribution_time 9) [PacketPassedOn, NodeSendsOut, LiftActs CarTakesUpdate] @
     Arrive 1 (NetAssignment \<lparr>nha_NodeID = 1, nha_HallAssignment = one_call,
       nha_MessageID = fst (GenerateMessageID NEW_HALL_ASSIGNMENT 9)\<rparr>) #
     map (Act 1 distribution_time 9) [PacketPassedOn, NodeSendsOut, NodeSendsOut, LiftActs CarTakesUpdate, LiftActs (CarReceives (FloorRx 2))]"

lemma serving_run:
  "\<exists>S s t snode l node k. sys_acts everything_to_all (meeting @ joining @ telling @ asking @ distributing @ serving) sys_init = Some S \<and>
     stations S 1 = Some s \<and> stations S 2 = Some t \<and> lift_node (lf s) = (snode, InSlave l) \<and> lift_node (lf t) = (node, InMaster k) \<and>
     ght_enable (st_ght t) \<and> car_sends (lf s) = [makeHallAssignmentCompleteEventMessage (mk_event 2 ButtonHallUp)] \<and>
     mat_at (GlobalHallRequests snode) 2 ButtonHallUp \<and> quiet (s\<lparr>lf := (lf s)\<lparr>car_sends := []\<rparr>\<rparr>) \<and> quiet t \<and>
     clock s \<le> distribution_time \<and> clock t \<le> distribution_time \<and> recentHACompleteBuffer k = makeNewMessageIDBuffer bufferSize"
  by (simp add: sys_run_defs joining_defs telling_def asking_def car_with_call_def put_req_def mat_put_def transmitElevatorState_def
      GetCabRequestsAsElevState_def OnRequestButtonPress_def HandleButtonEvent_def replicate_4 distributing_def serving_def distribution_time_def
      one_call_def ProcessNewHallRequest_def less_eq_Time_def findActiveNodes_def makeActiveElevStatesUpdateMessage_def both_assigned
      canAcceptHallAssignments_def hasChanged_def makeHallAssignmentAndLightMessage_def OnFloorArrival_def GenerateMessageID_def
      RequestsShouldStop_def RequestsClearAtCurrentFloor_def RequestsBelow_def mat_get_def upto_rec1 buttons_def)

theorem served_call_is_forgotten_witness:
  "\<exists>g S s t. sys_acts everything_to_all ((meeting @ joining @ telling @ asking @ distributing @ serving) @
       completion_journey 1 2 (completion 2 ButtonHallUp 9) g distribution_time 9) sys_init = Some S \<and> stations S 1 = Some s \<and> stations S 2 = Some t \<and>
     \<not> mat_at (GlobalHallRequests (fst (lift_node (lf t)))) 2 ButtonHallUp \<and> \<not> lamp (pnl (hw (lift_car (lf s)))) 2 ButtonHallUp"
proof -
  let ?served = "meeting @ joining @ telling @ asking @ distributing @ serving"
  obtain S s t snode l node k where S: "sys_acts everything_to_all ?served sys_init = Some S"
    "stations S 1 = Some s" "stations S 2 = Some t"
    and st: "lift_node (lf s) = (snode, InSlave l)" "lift_node (lf t) = (node, InMaster k)" "ght_enable (st_ght t)"
      "car_sends (lf s) = [makeHallAssignmentCompleteEventMessage (mk_event 2 ButtonHallUp)]"
      "mat_at (GlobalHallRequests snode) 2 ButtonHallUp"
    and rest: "quiet (s\<lparr>lf := (lf s)\<lparr>car_sends := []\<rparr>\<rparr>)" "quiet t" "clock s \<le> distribution_time" "clock t \<le> distribution_time"
    and buf: "recentHACompleteBuffer k = makeNewMessageIDBuffer bufferSize" using serving_run by blast
  have panel: "hall_call_on_panel 2 ButtonHallUp" by (simp add: hall_call_on_panel_def in_floors_def)
  have fresh: "fst (GenerateMessageID HALL_ASSIGNMENT_COMPLETE 9) \<notin> set (recent_ids (recentHACompleteBuffer k))"
    using completion_id(1) [OF small_draw] by (simp add: buf recent_new)
  from served_call_is_forgotten [OF sys_acts_run [OF S(1) sys_start] hra_within_everything S(2,3) _ st(1-4) panel st(5) rest small_draw fresh]
  show ?thesis unfolding sys_acts_append [of _ ?served] S(1) bind.bind_lunit by fastforce
qed

end
