(* ===== verification/Election.thy ===== *)
theory Election
  imports Recovery
begin

text \<open>
  The election of a master over time and in the running system: the two timers of
  \<open>DisconnectedProgram\<close>, and what happens to the nodes that have heard a node that then crashes.
  \<open>incomingConnRequests\<close> is only ever added to, so the request of a dead node keeps speaking against
  every node it outranks.
\<close>

section \<open>The timers of a disconnected node\<close>

text \<open>The literal of the ticker, and the interval of config/config.go.\<close>

definition CONNECTION_REQUEST_INTERVAL :: Duration where
  "CONNECTION_REQUEST_INTERVAL = 500 * Millisecond"

definition DISCONNECTED_DECISION_INTERVAL :: Duration where
  "DISCONNECTED_DECISION_INTERVAL = 2000 * Millisecond"

text \<open>
  \<open>el_tick\<close> and \<open>el_decision\<close> are the instants from which the ticker and the decision timer can be
  received from. The ticker's channel holds one tick and drops what it cannot hold, so the next
  tick after one received late is the next whole number of intervals after the start.
\<close>

record elect =
  el_node :: NodeData
  el_prog :: disconnected
  el_tick :: Time
  el_decision :: Time

definition elect_start :: "Time \<Rightarrow> uint64 \<Rightarrow> NodeData \<Rightarrow> elect" where
  "elect_start now rnd node =
     \<lparr>el_node = node, el_prog = DisconnectedProgram_entry node rnd,
      el_tick = Add now CONNECTION_REQUEST_INTERVAL, el_decision = Add now DISCONNECTED_DECISION_INTERVAL\<rparr>"

definition next_tick :: "Time \<Rightarrow> Time \<Rightarrow> Time" where
  "next_tick due now =
     Add due (CONNECTION_REQUEST_INTERVAL * ((nanos now - nanos due) div CONNECTION_REQUEST_INTERVAL + 1))"

fun elect_can :: "Time \<Rightarrow> node_in \<Rightarrow> elect \<Rightarrow> bool" where
  "elect_can now ConnectionRequestTick e = (el_tick e \<le> now)"
| "elect_can now DecisionTimeout e = (el_decision e \<le> now)"
| "elect_can now i e = receives (InDisconnected (el_prog e)) i"

definition elect_step :: "Time \<Rightarrow> node_in \<Rightarrow> elect \<Rightarrow> (elect \<times> node_out list \<times> verdict) option" where
  "elect_step now i e = do {
     (node, d, out, v) \<leftarrow> DisconnectedProgram_step (el_node e) (el_prog e) i;
     Some (\<lparr>el_node = node, el_prog = d,
            el_tick = (if i = ConnectionRequestTick then next_tick (el_tick e) now else el_tick e),
            el_decision = (if i = DecisionTimeout then Add now DISCONNECTED_DECISION_INTERVAL else el_decision e)\<rparr>,
           out, v)
   }"

text \<open>Nothing is taken when one of the two timers has been due for longer than \<open>lag\<close>.\<close>

definition elect_prompt :: "Duration \<Rightarrow> Time \<Rightarrow> elect \<Rightarrow> bool" where
  "elect_prompt lag now e \<longleftrightarrow> now \<le> Add (el_tick e) lag \<and> now \<le> Add (el_decision e) lag"

text \<open>A run while the node stays disconnected, with what it has sent and when.\<close>

inductive elect_run :: "Duration \<Rightarrow> Time \<Rightarrow> elect \<Rightarrow> (Time \<times> node_in) list \<Rightarrow> Time \<Rightarrow> elect \<Rightarrow> (Time \<times> node_out) list \<Rightarrow> bool"
  for lag :: Duration where
  elect_nil: "elect_run lag c e [] c e []"
| elect_cons: "c \<le> now \<Longrightarrow> elect_prompt lag now e \<Longrightarrow> elect_can now i e \<Longrightarrow> elect_step now i e = Some (e', out, Stay) \<Longrightarrow>
    elect_run lag now e' ins c' e'' sent \<Longrightarrow> elect_run lag c e ((now, i) # ins) c' e'' (map (Pair now) out @ sent)"

text \<open>The connection requests among what was sent.\<close>

definition requests_in :: "(Time \<times> node_out) list \<Rightarrow> (Time \<times> ConnectionReq) list" where
  "requests_in sent = concat (map (\<lambda>(t, x). case x of ConnectionReqTx r \<Rightarrow> [(t, r)] | _ \<Rightarrow> []) sent)"

lemma requests_in_simps [simp]:
  "requests_in [] = []" "requests_in (xs @ ys) = requests_in xs @ requests_in ys"
  "requests_in ((t, x) # xs) = (case x of ConnectionReqTx r \<Rightarrow> [(t, r)] | _ \<Rightarrow> []) @ requests_in xs"
  by (simp_all add: requests_in_def)

text \<open>The instants of the decisions.\<close>

definition decisions :: "(Time \<times> node_in) list \<Rightarrow> Time list" where
  "decisions ins = map fst (filter (\<lambda>ti. snd ti = DecisionTimeout) ins)"

lemma decisions_simps [simp]:
  "decisions [] = []" "decisions ((now, i) # ins) = (if i = DecisionTimeout then now # decisions ins else decisions ins)"
  by (simp_all add: decisions_def)

lemma elect_step_requests:
  assumes "elect_step now i e = Some (e', out, v)"
  shows "requests_in (map (Pair now) out) = (if i = ConnectionRequestTick then [(now, myConnReq (el_prog e))] else [])"
    and "myConnReq (el_prog e') = myConnReq (el_prog e)"
  using assms by (cases i; auto simp: elect_step_def split: ElevatorEventType.splits if_splits Option.bind_splits)+

lemma elect_step_timers:
  assumes "elect_step now i e = Some (e', out, v)"
  shows "el_tick e' = (if i = ConnectionRequestTick then next_tick (el_tick e) now else el_tick e)"
    and "el_decision e' = (if i = DecisionTimeout then Add now DISCONNECTED_DECISION_INTERVAL else el_decision e)"
  using assms by (auto simp: elect_step_def split: Option.bind_splits)

text \<open>A ticker that is never more than its interval late keeps its rhythm.\<close>

lemma next_tick_prompt:
  assumes "due \<le> now" "nanos now < nanos due + CONNECTION_REQUEST_INTERVAL"
  shows "nanos (next_tick due now) = nanos due + CONNECTION_REQUEST_INTERVAL"
proof -
  have "(nanos now - nanos due) div CONNECTION_REQUEST_INTERVAL = 0"
    using assms by (intro div_pos_pos_trivial) (simp_all add: less_eq_Time_def)
  then show ?thesis by (simp add: next_tick_def Add_def)
qed

text \<open>Each instant follows the one before it, the first \<open>p\<close>, after \<open>d\<close> and at most \<open>lag\<close> more.\<close>

definition gaps :: "int \<Rightarrow> Duration \<Rightarrow> Duration \<Rightarrow> Time list \<Rightarrow> bool" where
  "gaps p d lag ts \<longleftrightarrow>
     (\<forall>j < length ts. (p # map nanos ts) ! j + d \<le> nanos (ts ! j) \<and> nanos (ts ! j) \<le> (p # map nanos ts) ! j + d + lag)"

lemma gaps_simps [simp]:
  "gaps p d lag []" "gaps p d lag (t # ts) \<longleftrightarrow> p + d \<le> nanos t \<and> nanos t \<le> p + d + lag \<and> gaps (nanos t) d lag ts"
  by (auto simp: gaps_def nth_Cons split: nat.splits)

lemma elect_decisions:
  "elect_run lag c e ins c' e' sent \<Longrightarrow> nanos (el_decision e) = p + DISCONNECTED_DECISION_INTERVAL \<Longrightarrow> c \<le> Add (el_decision e) lag \<Longrightarrow>
    gaps p DISCONNECTED_DECISION_INTERVAL lag (decisions ins) \<and> c' \<le> Add (el_decision e') lag \<and>
    nanos (el_decision e') = last (p # map nanos (decisions ins)) + DISCONNECTED_DECISION_INTERVAL"
proof (induction arbitrary: p rule: elect_run.induct)
  case (elect_cons c now e i e' out ins c' e'' sent)
  note due = elect_step_timers(2) [OF elect_cons.hyps(4)]
  have in_time: "now \<le> Add (el_decision e) lag" using elect_cons.hyps(2) by (simp add: elect_prompt_def)
  show ?case
  proof (cases "i = DecisionTimeout")
    case True
    then have "el_decision e \<le> now" using elect_cons.hyps(3) by simp
    moreover from this in_time have "now \<le> Add (el_decision e') lag" using due True
      by (simp add: less_eq_Time_def Add_def DISCONNECTED_DECISION_INTERVAL_def)
    ultimately show ?thesis
      using elect_cons.IH [of "nanos now"] elect_cons.prems(1) due True in_time by (simp add: less_eq_Time_def Add_def)
  qed (use elect_cons.IH [of p] elect_cons.prems(1) due in_time in simp)
qed simp

lemma elect_requests:
  "elect_run lag c e ins c' e' sent \<Longrightarrow> lag < CONNECTION_REQUEST_INTERVAL \<Longrightarrow>
    nanos (el_tick e) = b + CONNECTION_REQUEST_INTERVAL \<Longrightarrow> c \<le> Add (el_tick e) lag \<Longrightarrow>
    (\<forall>k < length (requests_in sent).
       b + int (Suc k) * CONNECTION_REQUEST_INTERVAL \<le> nanos (fst (requests_in sent ! k)) \<and>
       nanos (fst (requests_in sent ! k)) \<le> b + int (Suc k) * CONNECTION_REQUEST_INTERVAL + lag \<and>
       snd (requests_in sent ! k) = myConnReq (el_prog e)) \<and>
    c' \<le> Add (el_tick e') lag \<and> nanos (el_tick e') = b + int (Suc (length (requests_in sent))) * CONNECTION_REQUEST_INTERVAL"
proof (induction arbitrary: b rule: elect_run.induct)
  case (elect_cons c now e i e' out ins c' e'' sent)
  note step = elect_step_requests [OF elect_cons.hyps(4)] elect_step_timers(1) [OF elect_cons.hyps(4)]
  have in_time: "nanos now \<le> nanos (el_tick e) + lag" using elect_cons.hyps(2) by (simp add: elect_prompt_def less_eq_Time_def Add_def)
  show ?case
  proof (cases "i = ConnectionRequestTick")
    case True
    then have due: "el_tick e \<le> now" using elect_cons.hyps(3) by simp
    have tick: "nanos (el_tick e') = b + CONNECTION_REQUEST_INTERVAL + CONNECTION_REQUEST_INTERVAL"
      using next_tick_prompt [OF due] in_time elect_cons.prems(1,2) step(3) True by simp
    then have late: "now \<le> Add (el_tick e') lag"
      using in_time elect_cons.prems(2) by (simp add: less_eq_Time_def Add_def CONNECTION_REQUEST_INTERVAL_def)
    note IH = elect_cons.IH [OF elect_cons.prems(1) tick late]
    have "b + int (Suc k) * CONNECTION_REQUEST_INTERVAL \<le> nanos (fst (((now, myConnReq (el_prog e)) # requests_in sent) ! k)) \<and>
        nanos (fst (((now, myConnReq (el_prog e)) # requests_in sent) ! k)) \<le> b + int (Suc k) * CONNECTION_REQUEST_INTERVAL + lag \<and>
        snd (((now, myConnReq (el_prog e)) # requests_in sent) ! k) = myConnReq (el_prog e)"
      if "k < Suc (length (requests_in sent))" for k
    proof (cases k)
      case 0
      with due in_time elect_cons.prems(2) show ?thesis by (simp add: less_eq_Time_def)
    next
      case (Suc j)
      with IH that step(2) show ?thesis by (simp add: distrib_right add.assoc add.left_commute)
    qed
    with True step(1) IH show ?thesis by (simp add: distrib_right)
  next
    case False
    with step elect_cons.IH [OF elect_cons.prems(1), of b] elect_cons.prems(2) in_time show ?thesis
      by (simp add: less_eq_Time_def Add_def)
  qed
qed simp

section \<open>The request of a crashed node\<close>

text \<open>A request that makes \<open>ShouldBeMaster\<close> say no.\<close>

definition outranks :: "ConnectionReq \<Rightarrow> NodeData \<Rightarrow> bool" where
  "outranks r node \<longleftrightarrow>
     (if TOLC node = 0 then ID node < cr_NodeID r \<or> cr_TOLC r \<noteq> 0 else TOLC node < cr_TOLC r)"

lemma outranked_is_no_master:
  assumes "map_of reqs d = Some r" "cr_NodeID r = d" "outranks r node"
  shows "\<not> ShouldBeMaster (ID node) (TOLC node) reqs"
proof -
  have "(d, r) \<in> set reqs" by (rule map_of_SomeD [OF assms(1)])
  then show ?thesis using assms(2,3)
    by (auto simp: ShouldBeMaster_def IsZero_def Before_def outranks_def list_all_iff intro!: bexI [of _ "(d, r)"])
qed

text \<open>
  A node kept out by \<open>d\<close>: inactive, or disconnected with a request of \<open>d\<close> that outranks it. What it
  sends, \<open>own_word\<close>, never gives cab calls and never is a request of \<open>d\<close>; \<open>no_help\<close> is a message that
  cannot change that it is kept out.
\<close>

definition kept_out :: "int \<Rightarrow> NodeData \<times> program \<Rightarrow> bool" where
  "kept_out d n \<longleftrightarrow>
     (case snd n of
        InInactive \<Rightarrow> True
      | InDisconnected p \<Rightarrow> cr_NodeID (myConnReq p) \<noteq> d \<and>
          (\<exists>r. map_of (incomingConnRequests p) d = Some r \<and> cr_NodeID r = d \<and> outranks r (fst n))
      | _ \<Rightarrow> False)"

definition own_word :: "int \<Rightarrow> node_out \<Rightarrow> bool" where
  "own_word d x \<longleftrightarrow> (case x of CabRequestInfoTx c \<Rightarrow> False | ConnectionReqTx r \<Rightarrow> cr_NodeID r \<noteq> d | _ \<Rightarrow> True)"

definition no_help :: "int \<Rightarrow> NodeData \<Rightarrow> net_msg \<Rightarrow> bool" where
  "no_help d node m \<longleftrightarrow>
     (case m of NetCabInfo c \<Rightarrow> False | NetConnReq r \<Rightarrow> cr_NodeID r = d \<longrightarrow> outranks r node | _ \<Rightarrow> True)"

text \<open>The inputs that leave a node kept out.\<close>

definition idle_input :: "int \<Rightarrow> NodeData \<Rightarrow> node_in \<Rightarrow> bool" where
  "idle_input d node i \<longleftrightarrow>
     (case i of
        CabRequestInfoRx c \<Rightarrow> False
      | ConnectionReqRx r \<Rightarrow> cr_NodeID r = d \<longrightarrow> outranks r node
      | ElevatorEventRx e \<Rightarrow> not_freed e
      | _ \<Rightarrow> True)"

definition same_rank :: "NodeData \<Rightarrow> NodeData \<Rightarrow> bool" where
  "same_rank m n \<longleftrightarrow> ID m = ID n \<and> TOLC m = TOLC n"

lemma same_rank_refl [simp]: "same_rank n n"
  by (simp add: same_rank_def)

lemma same_rank_outranks: "same_rank m n \<Longrightarrow> outranks r m \<longleftrightarrow> outranks r n"
  by (simp add: same_rank_def outranks_def)

lemma same_rank_help: "same_rank m n \<Longrightarrow> no_help d m x \<longleftrightarrow> no_help d n x"
  by (simp add: same_rank_def no_help_def outranks_def split: net_msg.splits)

lemma disconnected_keeps:
  assumes "DisconnectedProgram_step node p i = Some (node', p', out, v)"
  shows "same_rank node' node" and "myConnReq p' = myConnReq p"
    and "r \<in> set out \<Longrightarrow> r = ConnectionReqTx (myConnReq p) \<or> (\<exists>u. r = ElevLightAndAssignmentUpdateTx u)"
  using assms by (cases i; auto simp: same_rank_def split: ElevatorEventType.splits if_splits Option.bind_splits)+

lemma disconnected_requests:
  assumes "DisconnectedProgram_step node p i = Some (node', p', out, v)"
  shows "map_of (incomingConnRequests p') d =
    (case i of
       ConnectionReqRx r \<Rightarrow> if ID node \<noteq> cr_NodeID r \<and> cr_NodeID r = d then Some r else map_of (incomingConnRequests p) d
     | _ \<Rightarrow> map_of (incomingConnRequests p) d)"
  using assms by (cases i) (auto simp: update_conv' split: ElevatorEventType.splits if_splits Option.bind_splits)

lemma outranked_leaves:
  assumes "DisconnectedProgram_step node p i = Some (node', p', out, v)" "\<not> ShouldBeMaster (ID node) (TOLC node) (incomingConnRequests p)"
    and "\<And>c. i \<noteq> CabRequestInfoRx c"
  shows "v = Stay \<or> v = Leave Inactive"
  using assms by (cases i) (auto split: ElevatorEventType.splits if_splits Option.bind_splits)

lemma kept_out_step:
  assumes "kept_out d n" "idle_input d (fst n) i" "main_step goos run_hra now rnd n i = Some (n', out)"
  shows "kept_out d n' \<and> same_rank (fst n') (fst n) \<and> list_all (own_word d) out"
proof (cases "snd n")
  case InInactive
  have "InactiveProgram_step (fst n) i = Stay" using assms(2) by (cases i) (auto simp: idle_input_def not_freed_def)
  with assms InInactive show ?thesis by (auto simp: main_step_def kept_out_def)
next
  case (InDisconnected p)
  with assms(1) obtain r where r: "map_of (incomingConnRequests p) d = Some r" "cr_NodeID r = d" "outranks r (fst n)"
    and me: "cr_NodeID (myConnReq p) \<noteq> d" by (auto simp: kept_out_def)
  from assms(3) InDisconnected obtain m q o1 v where
    st: "DisconnectedProgram_step (fst n) p i = Some (m, q, o1, v)" by (auto simp: main_step_def split: Option.bind_splits)
  note keeps = disconnected_keeps [OF st]
  have "\<And>c. i \<noteq> CabRequestInfoRx c" using assms(2) by (auto simp: idle_input_def)
  from outranked_leaves [OF st outranked_is_no_master [OF r] this] have v: "v = Stay \<or> v = Leave Inactive" .
  have "\<exists>r'. map_of (incomingConnRequests q) d = Some r' \<and> cr_NodeID r' = d \<and> outranks r' (fst n)"
    using disconnected_requests [OF st, of d] r assms(2) by (cases i) (simp_all add: idle_input_def)
  then have q: "kept_out d (m, InDisconnected q)" using keeps(2) same_rank_outranks [OF keeps(1)] me by (simp add: kept_out_def)
  have "own_word d x" if "x \<in> set o1" for x using keeps(3) [OF that] me by (auto simp: own_word_def)
  then have o1: "list_all (own_word d) o1" by (simp add: list_all_iff)
  from v show ?thesis
  proof
    assume "v = Stay"
    with assms(3) InDisconnected st q keeps(1) o1 show ?thesis by (auto simp: main_step_def)
  next
    assume "v = Leave Inactive"
    with assms(3) InDisconnected st have "n' = (m\<lparr>State := Inactive\<rparr>, InInactive)" "out = o1"
      by (auto simp: main_step_def)
    with q keeps(1) o1 show ?thesis by (auto simp: kept_out_def same_rank_def)
  qed
qed (use assms(1) in \<open>simp_all add: kept_out_def\<close>)

section \<open>A station and the system around it\<close>

definition lift_out :: "int \<Rightarrow> lift \<Rightarrow> bool" where
  "lift_out d l \<longleftrightarrow> kept_out d (lift_node l) \<and> list_all (own_word d) (node_sends l) \<and> list_all not_freed (car_sends l)"

lemma node_handles_out:
  assumes "lift_out d l" "idle_input d (fst (lift_node l)) i" "node_handles goos run_hra now rnd l i = Some l'"
  shows "lift_out d l' \<and> same_rank (fst (lift_node l')) (fst (lift_node l))"
proof -
  from assms(3) obtain n out where n: "main_step goos run_hra now rnd (lift_node l) i = Some (n, out)"
    and l': "l' = l\<lparr>lift_node := n, node_sends := out\<rparr>" by (auto simp: node_handles_def split: Option.bind_splits)
  have k: "kept_out d (lift_node l)" "list_all not_freed (car_sends l)" using assms(1) by (simp_all add: lift_out_def)
  from kept_out_step [OF k(1) assms(2) n] k(2) l' show ?thesis by (simp add: lift_out_def)
qed

lemma car_handles_out:
  "lift_out d l \<Longrightarrow> car_handles l i = Some l' \<Longrightarrow> lift_out d l' \<and> lift_node l' = lift_node l"
  by (auto simp: lift_out_def car_handles_def step_not_freed split: Option.bind_splits)

lemma lift_out_step:
  assumes l: "lift_out d l" "lift_can l a" and a: "\<And>i. a = NodeReceives i \<Longrightarrow> idle_input d (fst (lift_node l)) i"
    and st: "lift_step goos run_hra now rnd l a = Some l'"
  shows "lift_out d l' \<and> same_rank (fst (lift_node l')) (fst (lift_node l))"
proof (cases a)
  case NodeSends
  with l st show ?thesis by (cases "node_sends l") (auto simp: lift_out_def)
next
  case (NodeReceives i)
  with node_handles_out [OF l(1) a] st show ?thesis by simp
next
  case NodeTakesEvent
  with l have e: "idle_input d (fst (lift_node l)) (ElevatorEventRx (hd (car_sends l)))"
    "lift_out d (l\<lparr>car_sends := tl (car_sends l)\<rparr>)"
    by (cases "car_sends l"; simp add: lift_out_def idle_input_def)+
  with node_handles_out [OF e(2), of "ElevatorEventRx (hd (car_sends l))"] st NodeTakesEvent show ?thesis by simp
next
  case NodeTakesSample
  have "lift_out d (l\<lparr>sampled := None\<rparr>)" using l(1) by (simp add: lift_out_def)
  from node_handles_out [OF this, of "MyElevStatesRx (the (sampled l))"] st NodeTakesSample show ?thesis
    by (simp add: idle_input_def)
next
  case (CarReceives i)
  with car_handles_out [OF l(1)] st show ?thesis by auto
next
  case CarTakesUpdate
  have "lift_out d (l\<lparr>updates := tl (updates l)\<rparr>)" using l(1) by (simp add: lift_out_def)
  from car_handles_out [OF this] st CarTakesUpdate show ?thesis by auto
next
  case TakeSample
  with l st show ?thesis by (auto simp: lift_out_def)
qed

text \<open>What a station kept out by \<open>d\<close> broadcasts helps nobody.\<close>

definition net_word :: "int \<Rightarrow> net_msg \<Rightarrow> bool" where
  "net_word d m \<longleftrightarrow> (case m of NetCabInfo c \<Rightarrow> False | NetConnReq r \<Rightarrow> cr_NodeID r \<noteq> d | _ \<Rightarrow> True)"

definition station_out :: "int \<Rightarrow> station \<Rightarrow> bool" where
  "station_out d s \<longleftrightarrow> lift_out d (lf s) \<and> (\<forall>m. packet s = Some m \<longrightarrow> no_help d (fst (lift_node (lf s))) m)"

lemma handles_same [simp]:
  "lf (server_handles now i s) = lf s" "packet (server_handles now i s) = packet s"
  "lf (hat_handles j s) = lf s" "packet (hat_handles j s) = packet s"
  "lf (hac_handles k s) = lf s" "packet (hac_handles k s) = packet s"
  "lf (ght_handles g s) = lf s" "packet (ght_handles g s) = packet s"
  by (simp_all add: server_handles_def hat_handles_def hac_handles_def ght_handles_def split_beta Let_def)

lemma send_out_word:
  assumes "send_out now rnd x s = (s', msgs)"
  shows "lf s' = lf s" "packet s' = packet s" "own_word d x \<Longrightarrow> list_all (net_word d) msgs"
  using assms by (cases x; auto simp: own_word_def net_word_def)+

lemma packet_idle:
  "no_help d node m \<Longrightarrow> packet_input m = Some i \<Longrightarrow> idle_input d node i"
  by (cases m) (auto simp: no_help_def idle_input_def)

lemma answer_idle: "idle_input d node (answer_input x)"
  by (cases x) (simp_all add: idle_input_def)

lemma other_steps:
  assumes "st_step goos run_hra now rnd s a = Some (s', msgs)"
    and "\<And>b. a \<noteq> LiftActs b" "a \<notin> {NodeSendsOut, ServerSendsOut, PacketPassedOn}"
  shows "lf s' = lf s" "packet s' = packet s" "list_all (net_word d) msgs"
  using assms by (cases a; auto simp: net_word_def Let_def split: option.splits ack_channel.splits)+

lemma station_out_step:
  assumes s: "station_out d s" "st_can now s a" and st: "st_step goos run_hra now rnd s a = Some (s', msgs)"
  shows "station_out d s' \<and> same_rank (fst (lift_node (lf s'))) (fst (lift_node (lf s))) \<and> list_all (net_word d) msgs"
proof -
  let ?node = "fst (lift_node (lf s))"
  have l: "lift_out d (lf s)" and p: "\<And>m. packet s = Some m \<Longrightarrow> no_help d ?node m"
    using s(1) by (simp_all add: station_out_def)
  have moved: ?thesis if "lift_out d (lf s') \<and> same_rank (fst (lift_node (lf s'))) ?node"
    "packet s' = packet s \<or> packet s' = None" "list_all (net_word d) msgs"
    using that p same_rank_help by (auto simp: station_out_def)
  show ?thesis
  proof (cases a)
    case (LiftActs b)
    with s(2) have "own_act b" "lift_can (lf s) b" by simp_all
    moreover from this(1) have "\<And>i. b = NodeReceives i \<Longrightarrow> idle_input d ?node i"
      by (auto simp: idle_input_def elim: node_timer.elims(2))
    moreover obtain l' where l': "lift_step goos run_hra now rnd (lf s) b = Some l'" "s' = s\<lparr>lf := l'\<rparr>" "msgs = []"
      using st LiftActs by (auto simp: with_lift_def)
    ultimately have "lift_out d l' \<and> same_rank (fst (lift_node l')) ?node" using lift_out_step [OF l _ _ l'(1)] by blast
    with l' show ?thesis by (intro moved) simp_all
  next
    case NodeSendsOut
    then obtain x xs where x: "node_sends (lf s) = x # xs" using s(2) by (cases "node_sends (lf s)") auto
    then have "own_word d x" using l by (simp add: lift_out_def)
    moreover have "lift_out d ((lf s)\<lparr>node_sends := xs, updates := u\<rparr>)" for u using l x by (simp add: lift_out_def)
    moreover obtain u where "send_out now rnd x (s\<lparr>lf := (lf s)\<lparr>node_sends := xs, updates := u\<rparr>\<rparr>) = (s', msgs)"
      using st NodeSendsOut x by auto
    note send_out_word [OF this]
    ultimately show ?thesis by (intro moved) simp_all
  next
    case ServerSendsOut
    then obtain l' where l': "node_handles goos run_hra now rnd (lf s) (answer_input (hd (server_sends s))) = Some l'"
      "lf s' = l'" "packet s' = packet s" "msgs = []" using st by (auto simp: with_lift_def)
    with node_handles_out [OF l answer_idle l'(1)] show ?thesis by (intro moved) simp_all
  next
    case PacketPassedOn
    with s(2) obtain m where m: "packet s = Some m" by (auto split: option.splits)
    show ?thesis
    proof (cases "packet_input m")
      case None
      with st PacketPassedOn m have "lf s' = lf s" "packet s' = None" "msgs = []" by (cases m; auto simp: Let_def)+
      with l show ?thesis by (intro moved) simp_all
    next
      case (Some i)
      with st PacketPassedOn m obtain l' where l': "node_handles goos run_hra now rnd (lf s) i = Some l'"
        "lf s' = l'" "packet s' = None" "msgs = []" by (cases m) (auto simp: with_lift_def)
      with node_handles_out [OF l packet_idle [OF p [OF m] Some] l'(1)] show ?thesis by (intro moved) simp_all
    qed
  qed (rule moved; use other_steps [OF st] l in simp)+
qed


text \<open>
  The system in which \<open>d\<close> keeps every other node out. \<open>spares d\<close> is an action after the crash of \<open>d\<close>:
  \<open>d\<close> does nothing more, no node is booted, and the network may still deliver what \<open>d\<close> has sent.
\<close>

definition stalled :: "int \<Rightarrow> sys \<Rightarrow> bool" where
  "stalled d S \<longleftrightarrow>
     (\<forall>n s. stations S n = Some s \<longrightarrow> n \<noteq> d \<longrightarrow>
        station_out d s \<and> list_all (no_help d (fst (lift_node (lf s)))) (ether S))"

fun spares :: "int \<Rightarrow> sys_act \<Rightarrow> bool" where
  "spares d (Boot n pl) = False"
| "spares d (Act n now rnd a) = (n \<noteq> d)"
| "spares d (Arrive n m) = True"

lemma net_word_helps_not: "net_word d m \<Longrightarrow> no_help d node m"
  by (cases m) (auto simp: net_word_def no_help_def)

lemma stalled_step:
  assumes S: "stalled d S" "spares d a" "sys_can S a" and st: "sys_step goos run_hra S a = Some S'"
  shows "stalled d S'"
proof (cases a)
  case (Act n now rnd b)
  with S(2,3) obtain s where s: "stations S n = Some s" "st_can now s b" "n \<noteq> d" by (auto split: option.splits)
  with st Act obtain s' msgs where s': "st_step goos run_hra now rnd s b = Some (s', msgs)"
    and S': "S' = S\<lparr>stations := (stations S)(n \<mapsto> s'\<lparr>clock := now\<rparr>), ether := ether S @ msgs,
      presses := presses S @ map (Pair n) (pressed_by b)\<rparr>" by (auto split: Option.bind_splits)
  have out: "station_out d s" "list_all (no_help d (fst (lift_node (lf s)))) (ether S)"
    using S(1) s(1,3) by (simp_all add: stalled_def)
  note mv = station_out_step [OF out(1) s(2) s']
  have msgs: "list_all (no_help d node) msgs" for node using mv net_word_helps_not by (auto simp: list_all_iff)
  have "no_help d (fst (lift_node (lf s'))) = no_help d (fst (lift_node (lf s)))"
    using mv same_rank_help by (intro ext) blast
  then have "station_out d (s'\<lparr>clock := now\<rparr>) \<and> list_all (no_help d (fst (lift_node (lf s')))) (ether S @ msgs)"
    using mv out(2) msgs by (simp add: station_out_def)
  then show ?thesis using S(1) msgs by (auto simp: stalled_def S')
next
  case (Arrive n m)
  with S(3) obtain s where s: "stations S n = Some s" "m \<in> set (ether S)" by (auto split: option.splits)
  with st Arrive have S': "S' = S\<lparr>stations := (stations S)(n \<mapsto> s\<lparr>packet := Some m\<rparr>)\<rparr>" by simp
  show ?thesis using S(1) s by (auto simp: stalled_def S' station_out_def list_all_iff)
qed (use S(2) in simp)

lemma stalled_acts:
  "sys_acts run_hra as S = Some S' \<Longrightarrow> stalled d S \<Longrightarrow> list_all (spares d) as \<Longrightarrow> stalled d S'"
  unfolding sys_acts_def
  by (induction as arbitrary: S) (auto intro: stalled_step split: if_splits Option.bind_splits)


lemma sys_main_ok:
  "sys_run ''linux'' run_hra S \<Longrightarrow> hra_within run_hra \<Longrightarrow> stations S n = Some s \<Longrightarrow> main_ok (lift_node (lf s))"
  by (drule (1) sys_lift [OF _ _ linux_executable]) (auto simp: lift_in_def lift_ok_def)

section \<open>Properties\<close>

text \<open>C7: A crashed node can block the election for ever: once every other node is inactive or disconnected
  with a request of node d that outranks it, and no cab calls of a master are on the network, no
  node but d ever becomes master or slave unless d acts again or a node is booted, whatever the
  nodes, their elevators and the network do and however often they decide and ask each other.\<close>

theorem stale_request_blocks_election:
  assumes "sys_run ''linux'' run_hra S" "hra_within run_hra" and d: "stalled d S"
    and run: "sys_acts run_hra as S = Some S'" "list_all (spares d) as"
    and s: "stations S' n = Some s" "n \<noteq> d"
  shows "(State (fst (lift_node (lf s))) = Inactive \<or> State (fst (lift_node (lf s))) = Disconnected) \<and> stalled d S'"
proof
  show S': "stalled d S'" using stalled_acts run d by blast
  with s have "kept_out d (lift_node (lf s))" by (simp add: stalled_def station_out_def lift_out_def)
  moreover have "main_ok (lift_node (lf s))"
    by (rule sys_main_ok [OF sys_acts_run [OF run(1) assms(1)] assms(2) s(1)])
  ultimately show "State (fst (lift_node (lf s))) = Inactive \<or> State (fst (lift_node (lf s))) = Disconnected"
    by (auto simp: kept_out_def main_ok_def split: program.splits)
qed

text \<open>
  Three nodes boot. Node 3 asks once, nodes 1 and 2 hear it, and it crashes. Then nodes 1 and 2 ask
  each other and decide.
\<close>

definition request_of :: "int \<Rightarrow> net_msg" where
  "request_of n = NetConnReq \<lparr>cr_TOLC = 0, cr_NodeID = n, cr_MessageID = fst (GenerateMessageID CONNECTION_REQ 9)\<rparr>"

definition third_asks :: "sys_act list" where
  "third_asks =
     [Boot 1 dark_plant, Boot 2 dark_plant, Boot 3 dark_plant,
      Act 1 0 9 (LiftActs NodeTakesEvent), Act 2 0 9 (LiftActs NodeTakesEvent), Act 3 0 9 (LiftActs NodeTakesEvent),
      Act 3 0 9 (LiftActs (NodeReceives ConnectionRequestTick)), Act 3 0 9 NodeSendsOut,
      Arrive 1 (request_of 3), Act 1 0 9 PacketPassedOn, Arrive 2 (request_of 3), Act 2 0 9 PacketPassedOn]"

definition others_decide :: "sys_act list" where
  "others_decide =
     [Act 1 0 9 (LiftActs (NodeReceives ConnectionRequestTick)), Act 1 0 9 NodeSendsOut,
      Act 2 0 9 (LiftActs (NodeReceives ConnectionRequestTick)), Act 2 0 9 NodeSendsOut,
      Arrive 1 (request_of 2), Act 1 0 9 PacketPassedOn, Arrive 2 (request_of 1), Act 2 0 9 PacketPassedOn,
      Act 1 0 9 (LiftActs (NodeReceives DecisionTimeout)), Act 2 0 9 (LiftActs (NodeReceives DecisionTimeout))]"

lemmas third_asks_defs = third_asks_def others_decide_def request_of_def small_draw dark

lemma third_asks_run:
  "\<exists>S. sys_acts run_hra third_asks sys_init = Some S \<and> stalled 3 S"
  by (simp add: sys_run_defs third_asks_defs stalled_def station_out_def lift_out_def kept_out_def outranks_def no_help_def)

lemma others_decide_run:
  "\<exists>S'. sys_acts run_hra (third_asks @ others_decide) sys_init = Some S' \<and>
     (\<exists>s p. stations S' 2 = Some s \<and> snd (lift_node (lf s)) = InDisconnected p \<and>
        map_of (incomingConnRequests p) 1 \<noteq> None)"
  by (simp add: sys_run_defs third_asks_defs)

theorem stale_request_blocks_election_witness:
  "\<exists>S' s p. sys_acts everything_to_all (third_asks @ others_decide) sys_init = Some S' \<and> stations S' 2 = Some s \<and>
     State (fst (lift_node (lf s))) = Disconnected \<and> snd (lift_node (lf s)) = InDisconnected p \<and>
     map_of (incomingConnRequests p) 1 \<noteq> None \<and> stalled 3 S'"
proof -
  obtain S where S: "sys_acts everything_to_all third_asks sys_init = Some S" "stalled 3 S"
    using third_asks_run by blast
  obtain S' s p where S': "sys_acts everything_to_all (third_asks @ others_decide) sys_init = Some S'" "stations S' 2 = Some s"
    "snd (lift_node (lf s)) = InDisconnected p" "map_of (incomingConnRequests p) 1 \<noteq> None" using others_decide_run by blast
  then have run: "sys_acts everything_to_all others_decide S = Some S'" using S(1) by (simp add: sys_acts_append)
  have "list_all (spares 3) others_decide" by (simp add: others_decide_def)
  from stale_request_blocks_election [OF sys_acts_run [OF S(1) sys_start] hra_within_everything S(2) run this S'(2)]
  have st: "State (fst (lift_node (lf s))) = Inactive \<or> State (fst (lift_node (lf s))) = Disconnected" "stalled 3 S'" by auto
  have "main_ok (lift_node (lf s))"
    by (rule sys_main_ok [OF sys_acts_run [OF S'(1) sys_start] hra_within_everything S'(2)])
  with S'(3) have "State (fst (lift_node (lf s))) = Disconnected" by (simp add: main_ok_def)
  with S' st(2) show ?thesis by blast
qed

text \<open>C36: The timers of a disconnected node whose loop takes a timer at most \<open>lag\<close>, less than 500
  milliseconds, after it is due: the k-th connection request is its own and is sent k times 500
  milliseconds after it became disconnected or at most \<open>lag\<close> later, none is left out, every decision
  follows the beginning or the decision before it after 2 seconds and at most \<open>lag\<close> more, and it
  becomes master only by such a decision.\<close>

theorem election_on_time:
  assumes "elect_run lag t0 (elect_start t0 rnd node) ins c e sent" "0 \<le> lag" "lag < 500 * Millisecond"
  shows "(\<forall>k < length (requests_in sent).
       nanos t0 + int (Suc k) * (500 * Millisecond) \<le> nanos (fst (requests_in sent ! k)) \<and>
       nanos (fst (requests_in sent ! k)) \<le> nanos t0 + int (Suc k) * (500 * Millisecond) + lag \<and>
       snd (requests_in sent ! k) = myConnReq (DisconnectedProgram_entry node rnd)) \<and>
    nanos c \<le> nanos t0 + int (Suc (length (requests_in sent))) * (500 * Millisecond) + lag \<and>
    (\<forall>j < length (decisions ins).
       nanos ((t0 # decisions ins) ! j) + 2000 * Millisecond \<le> nanos (decisions ins ! j) \<and>
       nanos (decisions ins ! j) \<le> nanos ((t0 # decisions ins) ! j) + 2000 * Millisecond + lag) \<and>
    nanos c \<le> nanos (last (t0 # decisions ins)) + 2000 * Millisecond + lag \<and>
    (elect_prompt lag now e \<longrightarrow> elect_can now i e \<longrightarrow> elect_step now i e = Some (e', out, Leave Master) \<longrightarrow>
       nanos (last (t0 # decisions ins)) + 2000 * Millisecond \<le> nanos now \<and>
       nanos now \<le> nanos (last (t0 # decisions ins)) + 2000 * Millisecond + lag)"
proof -
  have last: "last (nanos t0 # map nanos ts) = nanos (last (t0 # ts))" for ts by (induction ts) auto
  have nth: "(nanos t0 # map nanos ts) ! j = nanos ((t0 # ts) ! j)" if "j < length ts" for j ts
    using that by (cases j) simp_all
  have dec: "gaps (nanos t0) (2000 * Millisecond) lag (decisions ins)" "c \<le> Add (el_decision e) lag"
    "nanos (el_decision e) = nanos (last (t0 # decisions ins)) + 2000 * Millisecond"
    using elect_decisions [OF assms(1), of "nanos t0"] assms(2) last
    by (simp_all add: elect_start_def Add_def DISCONNECTED_DECISION_INTERVAL_def less_eq_Time_def)
  have req: "(\<forall>k < length (requests_in sent).
       nanos t0 + int (Suc k) * (500 * Millisecond) \<le> nanos (fst (requests_in sent ! k)) \<and>
       nanos (fst (requests_in sent ! k)) \<le> nanos t0 + int (Suc k) * (500 * Millisecond) + lag \<and>
       snd (requests_in sent ! k) = myConnReq (DisconnectedProgram_entry node rnd)) \<and>
    nanos c \<le> nanos t0 + int (Suc (length (requests_in sent))) * (500 * Millisecond) + lag"
    using elect_requests [OF assms(1), of "nanos t0"] assms(2,3)
    by (auto simp: elect_start_def Add_def CONNECTION_REQUEST_INTERVAL_def less_eq_Time_def)
  have "i = DecisionTimeout" if "elect_step now i e = Some (e', out, Leave Master)"
    using that by (cases i) (auto simp: elect_step_def split: ElevatorEventType.splits if_splits Option.bind_splits)
  with dec(3) have master: "nanos (last (t0 # decisions ins)) + 2000 * Millisecond \<le> nanos now \<and>
       nanos now \<le> nanos (last (t0 # decisions ins)) + 2000 * Millisecond + lag"
    if "elect_prompt lag now e" "elect_can now i e" "elect_step now i e = Some (e', out, Leave Master)"
    using that by (auto simp: elect_prompt_def less_eq_Time_def Add_def)
  have "nanos c \<le> nanos (last (t0 # decisions ins)) + 2000 * Millisecond + lag"
    using dec(2,3) by (simp add: less_eq_Time_def Add_def)
  with req master dec(1) nth show ?thesis by (simp add: gaps_def)
qed

text \<open>A node without contact asks late once, decides, and stays disconnected.\<close>

definition lonely :: "(Time \<times> node_in) list" where
  "lonely = [(Instant (600 * Millisecond), ConnectionRequestTick), (Instant (1000 * Millisecond), ConnectionRequestTick),
     (Instant (1500 * Millisecond), ConnectionRequestTick), (Instant (2050 * Millisecond), ConnectionRequestTick),
     (Instant (2060 * Millisecond), DecisionTimeout)]"

lemma lonely_run:
  "\<exists>e r. elect_run (100 * Millisecond) 0 (elect_start 0 0 (MakeNode 1)) lonely (Instant (2060 * Millisecond)) e
     [(Instant (600 * Millisecond), r), (Instant (1000 * Millisecond), r), (Instant (1500 * Millisecond), r), (Instant (2050 * Millisecond), r)] \<and>
     r = ConnectionReqTx (myConnReq (DisconnectedProgram_entry (MakeNode 1) 0))"
proof -
  let ?r = "ConnectionReqTx (myConnReq (DisconnectedProgram_entry (MakeNode 1) 0))"
  let ?e = "\<lambda>t d. \<lparr>el_node = MakeNode 1, el_prog = DisconnectedProgram_entry (MakeNode 1) 0,
     el_tick = Instant (t * Millisecond), el_decision = Instant (d * Millisecond)\<rparr>"
  note defs = elect_step_def CONNECTION_REQUEST_INTERVAL_def DISCONNECTED_DECISION_INTERVAL_def Add_def zero_Time_def
    next_tick_def elect_prompt_def less_eq_Time_def
  have tick: "elect_run (100 * Millisecond) (Instant c) (?e t 2000) ((Instant n, ConnectionRequestTick) # ins) c' e'' ((Instant n, ?r) # sent)"
    if "c \<le> n" "t * Millisecond \<le> n" "n \<le> t * Millisecond + 100 * Millisecond" "n \<le> 2100 * Millisecond"
      "elect_run (100 * Millisecond) (Instant n) (?e (t + 500) 2000) ins c' e'' sent" for c n t ins c' e'' sent
  proof -
    have "elect_step (Instant n) ConnectionRequestTick (?e t 2000) = Some (?e (t + 500) 2000, [?r], Stay)"
      using that(2,3) by (simp add: defs div_pos_pos_trivial distrib_right)
    from elect_cons [OF _ _ _ this that(5)] that(1-4) show ?thesis by (simp add: defs)
  qed
  have "elect_step (Instant (2060 * Millisecond)) DecisionTimeout (?e 2500 2000) = Some (?e 2500 4060, [], Stay)"
    by (simp add: defs DisconnectedProgram_entry_def)
  from elect_cons [OF _ _ _ this elect_nil, of "Instant (2050 * Millisecond)" "100 * Millisecond"]
  have "elect_run (100 * Millisecond) (Instant (2050 * Millisecond)) (?e 2500 2000) [(Instant (2060 * Millisecond), DecisionTimeout)]
      (Instant (2060 * Millisecond)) (?e 2500 4060) []" by (simp add: defs)
  then have "elect_run (100 * Millisecond) (Instant 0) (?e 500 2000) lonely (Instant (2060 * Millisecond)) (?e 2500 4060)
     [(Instant (600 * Millisecond), ?r), (Instant (1000 * Millisecond), ?r), (Instant (1500 * Millisecond), ?r), (Instant (2050 * Millisecond), ?r)]"
    unfolding lonely_def by (intro tick) simp_all
  moreover have "elect_start 0 0 (MakeNode 1) = ?e 500 2000" by (simp add: elect_start_def defs)
  ultimately show ?thesis by (auto simp: zero_Time_def)
qed

theorem election_on_time_witness:
  "\<exists>e sent. elect_run (100 * Millisecond) 0 (elect_start 0 0 (MakeNode 1)) lonely (Instant (2060 * Millisecond)) e sent \<and>
     length (requests_in sent) = 4 \<and> 2000 * Millisecond \<le> nanos (fst (requests_in sent ! 3)) \<and>
     nanos (fst (requests_in sent ! 3)) \<le> 2100 * Millisecond"
proof -
  obtain e r where e: "elect_run (100 * Millisecond) 0 (elect_start 0 0 (MakeNode 1)) lonely (Instant (2060 * Millisecond)) e
     [(Instant (600 * Millisecond), r), (Instant (1000 * Millisecond), r), (Instant (1500 * Millisecond), r), (Instant (2050 * Millisecond), r)]"
    and r: "r = ConnectionReqTx (myConnReq (DisconnectedProgram_entry (MakeNode 1) 0))" using lonely_run by blast
  let ?sent = "[(Instant (600 * Millisecond), r), (Instant (1000 * Millisecond), r), (Instant (1500 * Millisecond), r), (Instant (2050 * Millisecond), r)]"
  have four: "length (requests_in ?sent) = 4" by (simp add: r)
  have "\<forall>k < length (requests_in ?sent). nanos 0 + int (Suc k) * (500 * Millisecond) \<le> nanos (fst (requests_in ?sent ! k)) \<and>
      nanos (fst (requests_in ?sent ! k)) \<le> nanos 0 + int (Suc k) * (500 * Millisecond) + 100 * Millisecond"
    using election_on_time [OF e] by simp
  then have "2000 * Millisecond \<le> nanos (fst (requests_in ?sent ! 3)) \<and> nanos (fst (requests_in ?sent ! 3)) \<le> 2100 * Millisecond"
    using four by (auto simp: zero_Time_def dest: spec [of _ 3])
  with e four show ?thesis by blast
qed

end
