(* ===== verification/Shared_Maps.thy ===== *)
theory Shared_Maps
  imports Master_Node
begin

text \<open>
  The maps of elevator states with Go's reference semantics: \<open>NodeElevStateServer\<close> of
  Network/messagehandler/receivers.go and \<open>ComputeHallAssignments\<close> of node/master.go run in two
  goroutines, and what the server sends the master is a reference. Maps are cells of a memory; a
  message carries the number of a cell. The theory \<open>State_Server\<close> copies the map instead.
\<close>

section \<open>Memory\<close>

record memory =
  cells :: "nat \<Rightarrow> (int, ElevatorState) gomap"
  next_ref :: nat

definition make_map :: "memory \<Rightarrow> nat \<times> memory" where
  "make_map m = (next_ref m, m\<lparr>cells := (cells m)(next_ref m := []), next_ref := Suc (next_ref m)\<rparr>)"

definition put_map :: "nat \<Rightarrow> int \<Rightarrow> ElevatorState \<Rightarrow> memory \<Rightarrow> memory" where
  "put_map r k v m = m\<lparr>cells := (cells m)(r := AList.update k v (cells m r))\<rparr>"

section \<open>The server\<close>

record ref_srv =
  rs_isConnected :: bool
  rs_connTick :: "Time option"
  rs_peerTick :: "Time option"
  rs_lastSeen :: "(int, Time) gomap"
  rs_knownNodes :: nat
  rs_lastActiveNodes :: nat

datatype ref_output = RefEvent NetworkEvent | RefUpdate nat bool

definition ref_init :: "memory \<times> ref_srv" where
  "ref_init =
     (let (known, m) = make_map \<lparr>cells = (\<lambda>_. []), next_ref = 0\<rparr>;
          (active, m) = make_map m
      in (m, \<lparr>rs_isConnected = False, rs_connTick = None, rs_peerTick = None, rs_lastSeen = [],
              rs_knownNodes = known, rs_lastActiveNodes = active\<rparr>))"

fun findActiveNodes_ref_loop :: "Time \<Rightarrow> nat \<Rightarrow> nat \<Rightarrow> (int, Time) gomap \<Rightarrow> memory \<Rightarrow> memory" where
  "findActiveNodes_ref_loop now known act [] m = m"
| "findActiveNodes_ref_loop now known act ((nid, t) # seen) m =
     findActiveNodes_ref_loop now known act seen
       (if Since now t < NODE_CONNECTION_TIMEOUT then put_map act nid (state_of (cells m known) nid) m else m)"

definition findActiveNodes_ref :: "Time \<Rightarrow> nat \<Rightarrow> (int, Time) gomap \<Rightarrow> memory \<Rightarrow> nat \<times> memory" where
  "findActiveNodes_ref now known seen m =
     (let (act, m) = make_map m in (act, findActiveNodes_ref_loop now known act seen m))"

fun server_step_ref :: "int \<Rightarrow> Time \<Rightarrow> memory \<times> ref_srv \<Rightarrow> srv_input \<Rightarrow> (memory \<times> ref_srv) \<times> ref_output list" where
  "server_step_ref myID now (m, s) PeerTimeout =
     (let s = s\<lparr>rs_peerTick := None\<rparr>;
          (act, m) = findActiveNodes_ref now (rs_knownNodes s) (rs_lastSeen s) m
      in ((m, s\<lparr>rs_lastActiveNodes := act\<rparr>),
          if length (cells m (rs_lastActiveNodes s)) \<noteq> length (cells m act) then [RefEvent NodeConnectDisconnect] else []))"
| "server_step_ref myID now (m, s) ConnectionTimeout =
     (let (act, m) = make_map m
      in ((m, s\<lparr>rs_connTick := map_option (\<lambda>t. Add t NODE_CONNECTION_TIMEOUT) (rs_connTick s),
               rs_peerTick := None, rs_isConnected := False, rs_lastActiveNodes := act\<rparr>),
          [RefEvent NodeHasLostConnection]))"
| "server_step_ref myID now (m, s) (ElevStateRx elevState) =
     (let nid = nes_NodeID elevState
      in if nid \<noteq> myID then
           let s = (if rs_isConnected s then s\<lparr>rs_connTick := Some (Add now NODE_CONNECTION_TIMEOUT)\<rparr> else s)
           in ((put_map (rs_knownNodes s) nid (nes_ElevState elevState) m,
                s\<lparr>rs_lastSeen := AList.update nid now (rs_lastSeen s)\<rparr>), [])
         else ((m, s), []))"
| "server_step_ref myID now (m, s) (CommandRx command) =
     (if command = ''getActiveElevStates'' then
        let (act, m) = findActiveNodes_ref now (rs_knownNodes s) (rs_lastSeen s) m
        in ((m, s), [RefUpdate act True])
      else if command = ''getAllElevStates'' then ((m, s), [RefUpdate (rs_knownNodes s) False])
      else if command = ''startConnectionTimeoutDetection'' then
        ((m, s\<lparr>rs_connTick := Some (Add now NODE_CONNECTION_TIMEOUT), rs_peerTick := Some (Add now PEER_POLL_INTERVAL),
               rs_isConnected := True\<rparr>), [])
      else ((m, s), []))"

section \<open>The master\<close>

text \<open>\<open>ComputeHallAssignments\<close> writes its own state into the map it was sent before it asks the assigner.\<close>

definition ComputeHallAssignments_ref :: "string \<Rightarrow> hra_runner \<Rightarrow> bool \<Rightarrow> nat \<Rightarrow> bool \<Rightarrow> NodeElevState \<Rightarrow>
    hall_matrix \<Rightarrow> (int, ConnectionReq) gomap \<Rightarrow> memory \<Rightarrow> (HallAssignmentResult \<times> bool \<times> memory) option" where
  "ComputeHallAssignments_ref goos run_hra shouldDistribute r onlyActive myState globalHallRequests connReqs m = do {
     (result, shouldDistribute, m) \<leftarrow>
       (if shouldDistribute \<and> onlyActive then do {
          let m = put_map r (nes_NodeID myState) (nes_ElevState myState) m;
          hraOutput \<leftarrow> HRAalgorithm goos run_hra (cells m r) globalHallRequests;
          let result = assignments_loop (nes_NodeID myState) globalHallRequests hraOutput zero_result;
          Some (result\<lparr>GlobalHallRequestMsg := \<lparr>ghr_HallRequests = globalHallRequests\<rparr>\<rparr>, False, m)
        }
        else Some (zero_result, shouldDistribute, m));
     Some (if \<not> onlyActive
           then result\<lparr>CabRequestsMsgs := cab_requests_loop (cells m r) connReqs []\<rparr>
           else result,
           shouldDistribute, m)
   }"

section \<open>Reading the references\<close>

fun deref :: "memory \<times> ref_srv \<Rightarrow> srv" where
  "deref (m, s) = \<lparr>nodeIsConnected = rs_isConnected s, connTick = rs_connTick s, peerTick = rs_peerTick s,
     lastSeen = rs_lastSeen s, knownNodes = cells m (rs_knownNodes s), lastActiveNodes = cells m (rs_lastActiveNodes s)\<rparr>"

fun deref_out :: "memory \<Rightarrow> ref_output \<Rightarrow> srv_output" where
  "deref_out m (RefEvent e) = NetworkEventTx e"
| "deref_out m (RefUpdate r onlyActive) = ElevStateUpdateTx \<lparr>NodeElevStatesMap = cells m r, OnlyActiveNodes = onlyActive\<rparr>"

definition refs_ok :: "memory \<times> ref_srv \<Rightarrow> bool" where
  "refs_ok x \<longleftrightarrow> rs_knownNodes (snd x) < next_ref (fst x) \<and> rs_lastActiveNodes (snd x) < next_ref (fst x) \<and>
     rs_knownNodes (snd x) \<noteq> rs_lastActiveNodes (snd x)"

lemma make_map_simps [simp]:
  "fst (make_map m) = next_ref m" "next_ref (snd (make_map m)) = Suc (next_ref m)"
  "cells (snd (make_map m)) = (cells m)(next_ref m := [])"
  by (simp_all add: make_map_def)

lemma put_map_simps [simp]:
  "next_ref (put_map r k v m) = next_ref m"
  "cells (put_map r k v m) = (cells m)(r := AList.update k v (cells m r))"
  by (simp_all add: put_map_def)

lemma active_loop_ref:
  "known \<noteq> act \<Longrightarrow> next_ref (findActiveNodes_ref_loop now known act seen m) = next_ref m \<and>
    cells (findActiveNodes_ref_loop now known act seen m) =
      (cells m)(act := findActiveNodes_loop now (cells m known) seen (cells m act))"
  by (induction seen arbitrary: m) (auto simp: fun_upd_def)

lemma find_active_ref:
  assumes "known < next_ref m"
  shows "fst (findActiveNodes_ref now known seen m) = next_ref m"
    and "next_ref (snd (findActiveNodes_ref now known seen m)) = Suc (next_ref m)"
    and "cells (snd (findActiveNodes_ref now known seen m)) =
      (cells m)(next_ref m := findActiveNodes now (cells m known) seen)"
  using assms active_loop_ref [of known "next_ref m" now seen "snd (make_map m)"]
  by (simp_all add: findActiveNodes_ref_def findActiveNodes_def split_beta)

text \<open>The steps with copies are the steps with references, read at once.\<close>

lemma server_step_deref:
  assumes "refs_ok x" "server_step_ref myID now x i = (x', out)"
  shows "NodeElevStateServer_step myID now (deref x) i = (deref x', map (deref_out (fst x')) out)"
proof -
  obtain m s where x: "x = (m, s)" by fastforce
  with assms(1) have ok: "rs_knownNodes s < next_ref m" "rs_lastActiveNodes s < next_ref m"
    "rs_knownNodes s \<noteq> rs_lastActiveNodes s" by (simp_all add: refs_ok_def)
  note act = find_active_ref [OF ok(1), of now "rs_lastSeen s"]
  show ?thesis
    using assms(2) ok act
    by (cases i) (auto simp: x Let_def split_beta makeActiveElevStatesUpdateMessage_def makeAllElevStatesUpdateMessage_def
        split: if_splits)
qed

section \<open>Who reads and writes which map\<close>

text \<open>The accesses of one case to maps that exist already; \<open>getAllElevStates\<close> only passes its reference on.\<close>

datatype access = Reads nat | Writes nat

fun server_accesses :: "int \<Rightarrow> ref_srv \<Rightarrow> srv_input \<Rightarrow> access list" where
  "server_accesses myID s PeerTimeout = [Reads (rs_knownNodes s), Reads (rs_lastActiveNodes s)]"
| "server_accesses myID s ConnectionTimeout = []"
| "server_accesses myID s (ElevStateRx e) = (if nes_NodeID e \<noteq> myID then [Writes (rs_knownNodes s)] else [])"
| "server_accesses myID s (CommandRx c) = (if c = ''getActiveElevStates'' then [Reads (rs_knownNodes s)] else [])"

text \<open>The master prints the map of every update it takes, before it computes with it.\<close>

definition master_accesses :: "bool \<Rightarrow> nat \<Rightarrow> bool \<Rightarrow> (int, ConnectionReq) gomap \<Rightarrow> access list" where
  "master_accesses shouldDistribute r onlyActive connReqs =
     Reads r #
     (if shouldDistribute \<and> onlyActive then [Writes r, Reads r] else []) @
     (if \<not> onlyActive \<and> connReqs \<noteq> [] then [Reads r] else [])"

fun accessed :: "access \<Rightarrow> nat" where
  "accessed (Reads r) = r"
| "accessed (Writes r) = r"

definition conflict :: "access \<Rightarrow> access \<Rightarrow> bool" where
  "conflict a b \<longleftrightarrow> accessed a = accessed b \<and> (a = Writes (accessed a) \<or> b = Writes (accessed b))"

text \<open>Go aborts the program on two such accesses at the same time.\<close>

definition race :: "access list \<Rightarrow> access list \<Rightarrow> bool" where
  "race as bs \<longleftrightarrow> list_ex (\<lambda>a. list_ex (conflict a) bs) as"

text \<open>The accesses are those of the steps: nothing else is written, and nothing else matters.\<close>

lemma server_writes:
  assumes "refs_ok (m, s)" "server_step_ref myID now (m, s) i = ((m', s'), out)"
    and "r < next_ref m" "Writes r \<notin> set (server_accesses myID s i)"
  shows "cells m' r = cells m r"
proof -
  have ok: "rs_knownNodes s < next_ref m" using assms(1) by (simp add: refs_ok_def)
  note act = find_active_ref [OF ok, of now "rs_lastSeen s"]
  show ?thesis using assms(2-4) act by (cases i) (auto simp: Let_def split_beta split: if_splits)
qed

lemma server_reads:
  assumes "refs_ok (m, s)" "next_ref n = next_ref m" "list_all (\<lambda>a. cells n (accessed a) = cells m (accessed a)) (server_accesses myID s i)"
  shows "snd (fst (server_step_ref myID now (n, s) i)) = snd (fst (server_step_ref myID now (m, s) i))"
    and "snd (server_step_ref myID now (n, s) i) = snd (server_step_ref myID now (m, s) i)"
proof -
  have ok: "rs_knownNodes s < next_ref m" "rs_knownNodes s < next_ref n" "rs_lastActiveNodes s < next_ref m"
    using assms(1,2) by (simp_all add: refs_ok_def)
  note act = find_active_ref [OF ok(1), of now "rs_lastSeen s"] find_active_ref [OF ok(2), of now "rs_lastSeen s"]
  show "snd (fst (server_step_ref myID now (n, s) i)) = snd (fst (server_step_ref myID now (m, s) i))"
    using act assms(2) by (cases i) (auto simp: Let_def split_beta)
  show "snd (server_step_ref myID now (n, s) i) = snd (server_step_ref myID now (m, s) i)"
    using act assms(2,3) ok by (cases i) (auto simp: Let_def split_beta)
qed

lemma master_deref:
  assumes "ComputeHallAssignments_ref goos run_hra sd r only st g reqs m = Some (res, sd', m')"
  shows "ComputeHallAssignments goos run_hra sd \<lparr>NodeElevStatesMap = cells m r, OnlyActiveNodes = only\<rparr> st g reqs = Some (res, sd')"
    and "Writes q \<notin> set (master_accesses sd r only reqs) \<Longrightarrow> cells m' q = cells m q" and "next_ref m' = next_ref m"
  using assms by (auto simp: ComputeHallAssignments_ref_def ComputeHallAssignments_def Let_def master_accesses_def
      split: Option.bind_splits if_splits)

section \<open>Runs of the two goroutines\<close>

text \<open>The master may use any update it was sent, at any time.\<close>

inductive ref_run :: "string \<Rightarrow> hra_runner \<Rightarrow> int \<Rightarrow> Time \<Rightarrow> memory \<times> ref_srv \<Rightarrow> ref_output list \<Rightarrow> bool"
  for goos run_hra myID where
  ref_start: "ref_run goos run_hra myID c ref_init []"
| ref_server: "ref_run goos run_hra myID c x sent \<Longrightarrow> c \<le> now \<Longrightarrow> srv_enabled now (deref x) i \<Longrightarrow>
    server_step_ref myID now x i = (x', out) \<Longrightarrow> ref_run goos run_hra myID now x' (sent @ out)"
| ref_master: "ref_run goos run_hra myID c (m, s) sent \<Longrightarrow> RefUpdate r only \<in> set sent \<Longrightarrow>
    ComputeHallAssignments_ref goos run_hra sd r only st g reqs m = Some (res, sd', m') \<Longrightarrow>
    ref_run goos run_hra myID c (m', s) sent"

definition sent_ok :: "memory \<times> ref_srv \<Rightarrow> ref_output \<Rightarrow> bool" where
  "sent_ok x o1 \<longleftrightarrow>
     (case o1 of
        RefEvent e \<Rightarrow> True
      | RefUpdate r True \<Rightarrow> r < next_ref (fst x) \<and> r \<noteq> rs_knownNodes (snd x) \<and> r \<noteq> rs_lastActiveNodes (snd x)
      | RefUpdate r False \<Rightarrow> r = rs_knownNodes (snd x))"

lemma server_step_refs:
  assumes "refs_ok x" "server_step_ref myID now x i = (x', out)"
  shows "refs_ok x' \<and> list_all (sent_ok x') out \<and> (\<forall>u. sent_ok x u \<longrightarrow> sent_ok x' u)"
proof -
  obtain m s where x: "x = (m, s)" by fastforce
  with assms(1) have ok: "rs_knownNodes s < next_ref m" by (simp add: refs_ok_def)
  note act = find_active_ref [OF ok, of now "rs_lastSeen s"]
  show ?thesis
    using assms act unfolding x
    by (cases i) (auto simp: refs_ok_def sent_ok_def Let_def split_beta split: if_splits ref_output.splits bool.splits)
qed

lemma ref_run_ok:
  "ref_run goos run_hra myID c x sent \<Longrightarrow> refs_ok x \<and> list_all (sent_ok x) sent"
proof (induction rule: ref_run.induct)
  case (ref_start c)
  show ?case by (simp add: refs_ok_def ref_init_def split_beta)
next
  case (ref_server c x sent now i x' out)
  with server_step_refs [of x myID now i x' out] show ?case by (auto simp: list_all_iff)
next
  case (ref_master c m s sent r only sd st g reqs res sd' m')
  from master_deref(3) [OF ref_master.hyps(3)] ref_master.IH show ?case
    by (auto simp: refs_ok_def sent_ok_def list_all_iff split: ref_output.splits bool.splits)
qed

section \<open>Properties\<close>

text \<open>C37: The maps the server sends the master are references, in any run of the two goroutines. A server
  step is the step with copied maps, its messages read at once. An update of the active nodes has a
  map of its own, which no server step changes and which the master may write without effect on the
  server. The update with all nodes is the server's own map: the master reads whatever the server
  has stored by then. The cases in which the two goroutines access one map and one of them writes it
  are exactly those in which the master takes an update with all nodes, which it prints and looks
  connecting nodes up in, while the server takes a state message from another node.\<close>

theorem shared_map_races_exactly:
  assumes "ref_run goos run_hra myID c (m, s) sent" "RefUpdate r only \<in> set sent"
  shows "(race (server_accesses myID s i) (master_accesses sd r only reqs) \<longleftrightarrow>
      \<not> only \<and> (\<exists>e. i = ElevStateRx e \<and> nes_NodeID e \<noteq> myID)) \<and>
    (server_step_ref myID now (m, s) i = ((m', s'), out) \<longrightarrow>
      NodeElevStateServer_step myID now (deref (m, s)) i = (deref (m', s'), map (deref_out m') out) \<and>
      cells m' r = (if only then cells m r else knownNodes (deref (m', s')))) \<and>
    (ComputeHallAssignments_ref goos run_hra sd r only st g reqs m = Some (res, sd', m'') \<longrightarrow>
      ComputeHallAssignments goos run_hra sd
        \<lparr>NodeElevStatesMap = if only then cells m r else knownNodes (deref (m, s)), OnlyActiveNodes = only\<rparr> st g reqs =
        Some (res, sd') \<and>
      deref (m'', s) = deref (m, s))"
proof -
  have ok: "refs_ok (m, s)" "list_all (sent_ok (m, s)) sent" using ref_run_ok [OF assms(1)] by auto
  with assms(2) have u: "sent_ok (m, s) (RefUpdate r only)" by (auto simp: list_all_iff)
  then have r: "if only then r < next_ref m \<and> r \<noteq> rs_knownNodes s \<and> r \<noteq> rs_lastActiveNodes s else r = rs_knownNodes s"
    by (cases only) (simp_all add: sent_ok_def)
  have "race (server_accesses myID s i) (master_accesses sd r only reqs) \<longleftrightarrow>
      \<not> only \<and> (\<exists>e. i = ElevStateRx e \<and> nes_NodeID e \<noteq> myID)"
    using r by (cases i) (auto simp: race_def conflict_def master_accesses_def split: if_splits)
  moreover have "NodeElevStateServer_step myID now (deref (m, s)) i = (deref (m', s'), map (deref_out m') out) \<and>
      cells m' r = (if only then cells m r else knownNodes (deref (m', s')))"
    if st: "server_step_ref myID now (m, s) i = ((m', s'), out)"
  proof
    show "NodeElevStateServer_step myID now (deref (m, s)) i = (deref (m', s'), map (deref_out m') out)"
      using server_step_deref [OF ok(1) st] by simp
    from server_step_refs [OF ok(1) st] u have "sent_ok (m', s') (RefUpdate r only)" by blast
    then have "\<not> only \<Longrightarrow> r = rs_knownNodes s'" by (simp add: sent_ok_def)
    moreover have "only \<Longrightarrow> Writes r \<notin> set (server_accesses myID s i)" using r by (cases i) auto
    ultimately show "cells m' r = (if only then cells m r else knownNodes (deref (m', s')))"
      using server_writes [OF ok(1) st] r by auto
  qed
  moreover have "ComputeHallAssignments goos run_hra sd
        \<lparr>NodeElevStatesMap = if only then cells m r else knownNodes (deref (m, s)), OnlyActiveNodes = only\<rparr> st g reqs =
        Some (res, sd') \<and> deref (m'', s) = deref (m, s)"
    if st: "ComputeHallAssignments_ref goos run_hra sd r only st g reqs m = Some (res, sd', m'')"
  proof -
    have "Writes q \<notin> set (master_accesses sd r only reqs)" if "q = rs_knownNodes s \<or> q = rs_lastActiveNodes s" for q
      using that r by (auto simp: master_accesses_def split: if_splits)
    with master_deref(2) [OF st] have "deref (m'', s) = deref (m, s)" by simp
    moreover have "cells m r = (if only then cells m r else knownNodes (deref (m, s)))" using r by simp
    ultimately show ?thesis using master_deref(1) [OF st] by metis
  qed
  ultimately show ?thesis by blast
qed

text \<open>The master takes an update with all nodes, no node asks for its cab calls, and node 3 sends its state.\<close>

theorem shared_map_races_exactly_witness:
  "\<exists>m s r sent. ref_run ''linux'' everything_to_all 1 0 (m, s) sent \<and> RefUpdate r False \<in> set sent \<and>
     race (server_accesses 1 s (ElevStateRx \<lparr>nes_NodeID = 3, nes_ElevState = zero_ElevatorState\<rparr>))
       (master_accesses False r False [])"
proof -
  obtain m s where i: "ref_init = (m, s)" by fastforce
  have "server_step_ref 1 0 ref_init (CommandRx ''getAllElevStates'') = ((m, s), [RefUpdate (rs_knownNodes s) False])"
    unfolding i by simp
  from ref_server [OF ref_start order_refl _ this, of "''linux''" everything_to_all]
  have "ref_run ''linux'' everything_to_all 1 0 (m, s) [RefUpdate (rs_knownNodes s) False]" by (simp add: srv_enabled_def)
  moreover from shared_map_races_exactly [OF this, of "rs_knownNodes s" False
      "ElevStateRx \<lparr>nes_NodeID = 3, nes_ElevState = zero_ElevatorState\<rparr>" False "[]"]
  have "race (server_accesses 1 s (ElevStateRx \<lparr>nes_NodeID = 3, nes_ElevState = zero_ElevatorState\<rparr>))
      (master_accesses False (rs_knownNodes s) False [])" by simp
  ultimately show ?thesis by fastforce
qed

end
