(* ===== verification/Sampler.thy ===== *)
theory Sampler
  imports Elevator_Loop
begin

text \<open>
  The global \<open>elev\<close> of elevator_fsm.go is read by \<open>transmitElevatorState\<close> in a goroutine of its own
  while a handler of the event loop writes it. Here a handler is the values \<open>elev\<close> takes one after
  the other, and a sample is what a copy made meanwhile, field by field, can hold. The theory
  \<open>Elevator_FSM\<close> has only the last of these values.
\<close>

section \<open>The values of elev during a handler\<close>

datatype handler =
    Press int ButtonType
  | Remove int ButtonType
  | Obstruct bool
  | Arrival int
  | Lights "bool list list"
  | DoorTimeout

fun elev_values :: "handler \<Rightarrow> Elevator \<Rightarrow> Elevator list option" where
  "elev_values (Press btnFloor btnType) e = do {
     (newState, clearedEvents, resetDoorTimer) \<leftarrow> HandleButtonEvent btnFloor btnType e;
     Some [e, newState]
   }"
| "elev_values (Remove floor btnType) e = do {
     m \<leftarrow> mat_set (Requests e) floor btnType False;
     Some [e, e\<lparr>Requests := m\<rparr>]
   }"
| "elev_values (Obstruct isObstructed) e = Some [e, e\<lparr>IsObstructed := isObstructed\<rparr>]"
| "elev_values (Arrival newFloor) e =
     (let e1 = e\<lparr>Floor := newFloor\<rparr>
      in if Behavior e1 = Moving then do {
           stop \<leftarrow> RequestsShouldStop e1;
           Some (if stop
                 then let updatedElev = fst (RequestsClearAtCurrentFloor e1)
                      in [e, e1, updatedElev, updatedElev\<lparr>Behavior := DoorOpen\<rparr>]
                 else [e, e1])
         }
         else Some [e, e1])"
| "elev_values (Lights lightStates) e = Some [e, e\<lparr>HallLightStates := lightStates\<rparr>]"
| "elev_values DoorTimeout e = Some [e, fst (HandleDoorTimeout e)]"

fun handler_result :: "handler \<Rightarrow> Elevator \<Rightarrow> Elevator option" where
  "handler_result (Press f b) e = map_option fst (OnRequestButtonPress f b e)"
| "handler_result (Remove f b) e = map_option fst (RemoveRequest f b e)"
| "handler_result (Obstruct ob) e = Some (SetObstruction ob e)"
| "handler_result (Arrival f) e = map_option fst (OnFloorArrival f e)"
| "handler_result (Lights ls) e = Some (fst (SetHallLights ls e))"
| "handler_result DoorTimeout e = Some (fst (OnDoorTimeout e))"

lemma last_value: "handler_result h e = map_option last (elev_values h e)"
  by (cases h) (auto simp: OnRequestButtonPress_def RemoveRequest_def SetObstruction_def OnFloorArrival_def SetHallLights_def
      OnDoorTimeout_def Let_def split: Option.bind_splits prod.splits)

lemma first_value: "elev_values h e = Some vs \<Longrightarrow> vs \<noteq> [] \<and> hd vs = e"
  by (cases h) (auto simp: Let_def split: Option.bind_splits prod.splits if_splits)

section \<open>Samples\<close>

text \<open>Each word of the copy comes from one of the values; \<open>transmitElevatorState\<close> is a copy of one value.\<close>

definition sampled_from :: "Elevator list \<Rightarrow> ElevatorState \<Rightarrow> bool" where
  "sampled_from vs st \<longleftrightarrow>
     list_ex (\<lambda>v. es_Floor st = Floor v) vs \<and> list_ex (\<lambda>v. es_Direction st = Dir v) vs \<and>
     list_ex (\<lambda>v. es_Behavior st = Behavior v) vs \<and> int (length (es_CabRequests st)) = NUM_FLOORS \<and>
     list_all (\<lambda>f. list_ex (\<lambda>v. es_CabRequests st ! nat f = req v f ButtonCab) vs) floors"

lemma one_value_sample: "v \<in> set vs \<Longrightarrow> sampled_from vs (transmitElevatorState v)"
  by (auto simp: sampled_from_def transmitElevatorState_def GetCabRequestsAsElevState_def list_ex_iff list_all_iff req_def
      in_floors_def floors_def)

definition wf_handler :: "handler \<Rightarrow> bool" where
  "wf_handler h \<longleftrightarrow>
     (case h of
        Press f b \<Rightarrow> in_floors f \<and> in_buttons b
      | Remove f b \<Rightarrow> in_floors f \<and> in_buttons b
      | Arrival f \<Rightarrow> in_floors f
      | Lights ls \<Rightarrow> wf_mat NUM_FLOORS 2 ls
      | _ \<Rightarrow> True)"

text \<open>What every value between the first and the last keeps.\<close>

definition between :: "Elevator \<Rightarrow> Elevator \<Rightarrow> Elevator \<Rightarrow> bool" where
  "between e e' v \<longleftrightarrow> (Floor v = Floor e \<or> Floor v = Floor e') \<and> (Dir v = Dir e \<or> Dir v = Dir e') \<and>
     (Behavior v = Behavior e \<or> Behavior v = Behavior e') \<and>
     (\<forall>f. in_floors f \<longrightarrow> req v f ButtonCab = req e f ButtonCab \<or> req v f ButtonCab = req e' f ButtonCab)"

lemma between_ends [simp]: "between e e' e" "between e e' e'"
  by (simp_all add: between_def)

lemma values_between:
  assumes "elev_values h e = Some vs" "v \<in> set vs"
  shows "between e (last vs) v"
  using assms
  by (cases h) (auto simp: Let_def between_def clear_frame req_def split: Option.bind_splits prod.splits if_splits)

lemma handler_ok:
  assumes "fsm_inv e" "wf_handler h"
  shows "\<exists>vs. elev_values h e = Some vs \<and> fsm_inv (last vs)"
proof -
  have "\<exists>e'. handler_result h e = Some e' \<and> fsm_inv e'"
  proof (cases h)
    case (Press f b)
    with assms press_ok [of e f b] show ?thesis by (auto simp: wf_handler_def)
  next
    case (Remove f b)
    with assms remove_ok [of e f b] show ?thesis by (auto simp: wf_handler_def)
  next
    case (Arrival f)
    with assms arrival_ok [of e f] show ?thesis by (auto simp: wf_handler_def)
  next
    case (Lights ls)
    with assms hall_lights_ok [of e ls] show ?thesis by (auto simp: wf_handler_def)
  next
    case DoorTimeout
    with assms door_timeout_ok(1) [of e] door_timeout_elsewhere [of e] show ?thesis by (cases "Behavior e = DoorOpen") auto
  next
    case (Obstruct ob)
    with assms obstruction_ok(1) show ?thesis by auto
  qed
  then show ?thesis by (auto simp: last_value)
qed


lemma sample_between:
  assumes "elev_values h e = Some vs" "sampled_from vs st"
  shows "es_Floor st = Floor e \<or> es_Floor st = Floor (last vs)"
    and "es_Direction st = Dir e \<or> es_Direction st = Dir (last vs)"
    and "es_Behavior st = Behavior e \<or> es_Behavior st = Behavior (last vs)"
    and "int (length (es_CabRequests st)) = NUM_FLOORS"
    and "in_floors f \<Longrightarrow> es_CabRequests st ! nat f = req e f ButtonCab \<or> es_CabRequests st ! nat f = req (last vs) f ButtonCab"
proof -
  note v = values_between [OF assms(1), unfolded between_def]
  show "es_Floor st = Floor e \<or> es_Floor st = Floor (last vs)" using assms(2) v by (fastforce simp: sampled_from_def list_ex_iff)
  show "es_Direction st = Dir e \<or> es_Direction st = Dir (last vs)" using assms(2) v by (fastforce simp: sampled_from_def list_ex_iff)
  show "es_Behavior st = Behavior e \<or> es_Behavior st = Behavior (last vs)" using assms(2) v by (fastforce simp: sampled_from_def list_ex_iff)
  show "int (length (es_CabRequests st)) = NUM_FLOORS" using assms(2) by (simp add: sampled_from_def)
  show "es_CabRequests st ! nat f = req e f ButtonCab \<or> es_CabRequests st ! nat f = req (last vs) f ButtonCab" if "in_floors f"
  proof -
    from that have "f \<in> set floors" by (simp add: in_floors_def)
    with assms(2) obtain x where "x \<in> set vs" "es_CabRequests st ! nat f = req x f ButtonCab"
      unfolding sampled_from_def list_all_iff list_ex_iff by blast
    with v [of x] that show ?thesis by auto
  qed
qed

section \<open>A car that arrives at the top\<close>

definition going_up :: ep_state where
  "going_up = next_state (next_state at_floor_0 (ButtonRx (mk_event 3 ButtonCab))) DoorOpenTimerFires"

lemma going_up_elev:
  "elev going_up = NewElevator\<lparr>Floor := 0, Dir := DirectionUp, Behavior := Moving,
     Requests := [[False, False, False], [False, False, False], [False, False, False], [False, False, True]]\<rparr>"
  by (simp add: going_up_def next_state_def at_floor_0_elev OnRequestButtonPress_def HandleButtonEvent_def
      RequestsShouldClearImmediately_def NewElevator_def zero_mat_def mat_set_def arr_get_def arr_set_def
      req_def mat_at_def numeral_nat Let_def OnDoorTimeout_def HandleDoorTimeout_def RequestsChooseDirection_def
      RequestsAbove_def RequestsHere_def RequestsBelow_def in_floors_def
      upto.simps buttons_def)

lemma going_up_reach: "ep_reach dark_plant going_up"
proof -
  let ?s = "next_state at_floor_0 (ButtonRx (mk_event 3 ButtonCab))"
  have "ep_reach dark_plant ?s"
    by (rule next_reach [OF at_floor_0_reach]) (simp_all add: enabled_def wf_input_def in_floors_def in_buttons_def)
  moreover from reach_inv [OF this dark] have "plant_inv (elev ?s) (hw ?s)" by (simp add: ep_inv_def)
  moreover have "Behavior (elev ?s) = DoorOpen"
    by (simp add: next_state_def at_floor_0_elev OnRequestButtonPress_def HandleButtonEvent_def
      RequestsShouldClearImmediately_def NewElevator_def zero_mat_def mat_set_def arr_get_def arr_set_def
      numeral_nat Let_def)
  ultimately have "enabled ?s DoorOpenTimerFires" by (simp add: enabled_def plant_inv_def)
  with \<open>ep_reach dark_plant ?s\<close> show ?thesis unfolding going_up_def by (rule next_reach) (simp add: wf_input_def)
qed

definition impossible :: ElevatorState where
  "impossible = \<lparr>es_Floor = 3, es_Direction = DirectionUp, es_Behavior = Moving, es_CabRequests = [False, False, False, True]\<rparr>"

lemma impossible_sampled:
  "\<exists>vs. elev_values (Arrival 3) (elev going_up) = Some vs \<and> impossible \<in> transmitElevatorState ` set vs"
  by (simp add: going_up_elev RequestsShouldStop_def mat_get_def arr_get_def numeral_nat NewElevator_def
      RequestsClearAtCurrentFloor_def Let_def impossible_def transmitElevatorState_def GetCabRequestsAsElevState_def
      floors_def mat_at_def RequestsAbove_def req_def put_req_def mat_put_def upto.simps buttons_def)

lemma impossible_unreachable: "ep_reach pl s \<Longrightarrow> \<not> door_lamp (pnl pl) \<Longrightarrow> transmitElevatorState (elev s) \<noteq> impossible"
  using reach_inv [of pl s] by (auto simp: ep_inv_def fsm_inv_def impossible_def transmitElevatorState_def)


section \<open>Properties\<close>

text \<open>C31: A sample taken while a handler of the event loop is at work, however its words are mixed from the
  values \<open>elev\<close> has meanwhile, has a floor of the shaft or none, a valid direction and behaviour, and
  of every floor the cab call before or after the handler. But it can be a state no elevator is ever
  in between handlers: a car that arrives at the top floor is reported moving up from there, which
  is what the assigner then computes with.\<close>

theorem samples_during_handlers:
  assumes "ep_reach pl s" "\<not> door_lamp (pnl pl)" "wf_handler h"
    and vs: "elev_values h (elev s) = Some vs" and st: "sampled_from vs st"
  shows "handler_result h (elev s) = Some (last vs) \<and>
    (es_Floor st = -1 \<or> in_floors (es_Floor st)) \<and> valid_dir (es_Direction st) \<and>
    (es_Behavior st = Idle \<or> es_Behavior st = DoorOpen \<or> es_Behavior st = Moving) \<and>
    int (length (es_CabRequests st)) = NUM_FLOORS \<and>
    (\<forall>f. in_floors f \<longrightarrow> es_CabRequests st ! nat f = req (elev s) f ButtonCab \<or> es_CabRequests st ! nat f = req (last vs) f ButtonCab) \<and>
    transmitElevatorState (elev s) \<noteq> impossible \<and>
    (\<exists>s' vs'. ep_reach dark_plant s' \<and> elev_values (Arrival 3) (elev s') = Some vs' \<and>
       impossible \<in> transmitElevatorState ` set vs' \<and> sampled_from vs' impossible)"
proof -
  have inv: "fsm_inv (elev s)" using reach_inv [OF assms(1,2)] by (simp add: ep_inv_def)
  from handler_ok [OF inv assms(3)] vs have inv': "fsm_inv (last vs)" by auto
  note bt = sample_between [OF vs st]
  obtain vs' where vs': "elev_values (Arrival 3) (elev going_up) = Some vs'" "impossible \<in> transmitElevatorState ` set vs'"
    using impossible_sampled by blast
  then have "sampled_from vs' impossible" using one_value_sample by (metis imageE)
  with vs' going_up_reach have ex: "\<exists>s' vs'. ep_reach dark_plant s' \<and> elev_values (Arrival 3) (elev s') = Some vs' \<and>
      impossible \<in> transmitElevatorState ` set vs' \<and> sampled_from vs' impossible" by blast
  have "es_Floor st = -1 \<or> in_floors (es_Floor st)" using bt(1) fsm_invD(2) [OF inv] fsm_invD(2) [OF inv'] by auto
  moreover have "valid_dir (es_Direction st)" using bt(2) fsm_invD(4) [OF inv] fsm_invD(4) [OF inv'] by auto
  moreover have "es_Behavior st = Idle \<or> es_Behavior st = DoorOpen \<or> es_Behavior st = Moving"
    using bt(3) fsm_invD(5) [OF inv] fsm_invD(5) [OF inv'] by auto
  ultimately show ?thesis
    using bt(4,5) ex impossible_unreachable [OF assms(1,2)] by (simp add: last_value vs)
qed

theorem samples_during_handlers_witness:
  "\<exists>vs. elev_values (Arrival 3) (elev going_up) = Some vs \<and> sampled_from vs impossible \<and>
     handler_result (Arrival 3) (elev going_up) = Some (last vs)"
proof -
  obtain vs where vs: "elev_values (Arrival 3) (elev going_up) = Some vs" "impossible \<in> transmitElevatorState ` set vs"
    using impossible_sampled by blast
  then have "sampled_from vs impossible" using one_value_sample by (metis imageE)
  with samples_during_handlers [OF going_up_reach dark _ vs(1) this] vs(1) show ?thesis
    by (simp add: wf_handler_def in_floors_def)
qed

end
