(* ===== verification/Door_Timing.thy ===== *)
theory Door_Timing
  imports Elevator_Loop
begin

text \<open>
  The two timers of the door in time. \<open>ElevatorProgram\<close> resets \<open>doorOpenTimer\<close> whenever the door is to be
  open for another three seconds, and starts \<open>doorStuckTimer\<close> at a door timeout; the loop takes a timer
  that is due at most \<open>lag\<close> late. The steps are those of \<open>Elevator_Loop\<close> with the instants at which the
  timers are due.
\<close>

section \<open>The timers as the loop sets them\<close>

text \<open>
  No handler reads a timer. A timer that is running after a step taken with both timers stopped was
  therefore reset in that step.
\<close>

definition timers_off :: "ep_state \<Rightarrow> ep_state" where
  "timers_off s = s\<lparr>hw := (hw s)\<lparr>open_armed := False, stuck_armed := False\<rparr>\<rparr>"

definition next_due :: "Time \<Rightarrow> Duration \<Rightarrow> bool \<Rightarrow> bool \<Rightarrow> Time option \<Rightarrow> Time option" where
  "next_due now duration reset running due = (if reset then Some (Add now duration) else if running then due else None)"

text \<open>
  \<open>dc_open\<close> and \<open>dc_stuck\<close> are the instants at which the timers are due. \<open>dc_opened\<close> and \<open>dc_renewed\<close> are
  history: when the door was opened, and when its three seconds last began.
\<close>

record door_clock =
  dc_ep :: ep_state
  dc_open :: "Time option"
  dc_stuck :: "Time option"
  dc_opened :: Time
  dc_renewed :: Time

definition door_start :: "Time \<Rightarrow> plant \<Rightarrow> door_clock" where
  "door_start now pl =
     \<lparr>dc_ep = fst (ElevatorProgram_init pl), dc_open = None, dc_stuck = None, dc_opened = now, dc_renewed = now\<rparr>"

definition door_step :: "Time \<Rightarrow> ep_input \<Rightarrow> door_clock \<Rightarrow> (door_clock \<times> ElevatorEvent list) option" where
  "door_step now i d = do {
     (s, out) \<leftarrow> ElevatorProgram_step (dc_ep d) i;
     (p, _) \<leftarrow> ElevatorProgram_step (timers_off (dc_ep d)) i;
     Some (\<lparr>dc_ep = s,
            dc_open = next_due now DOOR_OPEN_DURATION (open_armed (hw p)) (open_armed (hw s)) (dc_open d),
            dc_stuck = next_due now DOOR_STUCK_DURATION (stuck_armed (hw p)) (stuck_armed (hw s)) (dc_stuck d),
            dc_opened = (if Behavior (elev (dc_ep d)) \<noteq> DoorOpen \<and> Behavior (elev s) = DoorOpen then now else dc_opened d),
            dc_renewed = (if open_armed (hw p) then now else dc_renewed d)\<rparr>,
           out)
   }"

text \<open>A timer is taken when it is due, and nothing is taken when a timer has been due for longer than \<open>lag\<close>.\<close>

definition fires :: "Time \<Rightarrow> Time option \<Rightarrow> bool" where
  "fires now due = (case due of None \<Rightarrow> False | Some t \<Rightarrow> t \<le> now)"

definition not_late :: "Duration \<Rightarrow> Time \<Rightarrow> Time option \<Rightarrow> bool" where
  "not_late lag now due = (case due of None \<Rightarrow> True | Some t \<Rightarrow> now \<le> Add t lag)"

definition door_can :: "Duration \<Rightarrow> Time \<Rightarrow> ep_input \<Rightarrow> door_clock \<Rightarrow> bool" where
  "door_can lag now i d \<longleftrightarrow> wf_input i \<and> not_late lag now (dc_open d) \<and> not_late lag now (dc_stuck d) \<and>
     (i = DoorOpenTimerFires \<longrightarrow> fires now (dc_open d)) \<and> (i = DoorStuckTimerFires \<longrightarrow> fires now (dc_stuck d))"

inductive door_run :: "Duration \<Rightarrow> plant \<Rightarrow> Time \<Rightarrow> door_clock \<Rightarrow> bool" for lag :: Duration and pl :: plant where
  door_begin: "door_run lag pl now (door_start now pl)"
| door_next: "door_run lag pl c d \<Longrightarrow> c \<le> now \<Longrightarrow> door_can lag now i d \<Longrightarrow> door_step now i d = Some (d', out) \<Longrightarrow>
    door_run lag pl now d'"

section \<open>Resets do not depend on the timers\<close>

text \<open>\<open>p\<close> is \<open>s\<close> but for the timers, and a timer runs in \<open>s\<close> if it was reset or ran before.\<close>

definition probes :: "bool \<Rightarrow> bool \<Rightarrow> ep_state \<Rightarrow> ep_state \<Rightarrow> bool" where
  "probes open_before stuck_before s p \<longleftrightarrow>
     elev p = elev s \<and> doorStuckTimerActive p = doorStuckTimerActive s \<and>
     open_armed (hw s) = (open_armed (hw p) \<or> open_before) \<and> stuck_armed (hw s) = stuck_before \<and> \<not> stuck_armed (hw p)"

lemma probes_off: "probes (open_armed (hw s)) (stuck_armed (hw s)) s (timers_off s)"
  by (simp add: probes_def timers_off_def)

lemma press_armed:
  assumes "OnRequestButtonPress f b e = Some (e', effs, evs)"
  shows "open_armed (apply_effects effs pl) = (ResetDoorOpenTimer \<in> set effs \<or> open_armed pl) \<and>
    stuck_armed (apply_effects effs pl) = stuck_armed pl"
  using assms by (auto simp: OnRequestButtonPress_def split: Option.bind_splits if_splits)

lemma press_probes:
  assumes "OnRequestButtonPress f b (elev s) = Some (e', effs, evs)" "probes a k s p"
  shows "probes a k (set_elev e' effs s) (set_elev e' effs p)"
  using press_armed [OF assms(1)] assms(2) by (auto simp: probes_def)

lemma remove_probes:
  assumes "RemoveRequest f b (elev s) = Some (e', effs)" "probes a k s p"
  shows "probes a k (set_elev e' effs s) (set_elev e' effs p)"
  using assms by (auto simp: probes_def RemoveRequest_def split: Option.bind_splits)

lemma fold_probes:
  assumes "\<And>c s p out s' out'. body c (s, out) = Some (s', out') \<Longrightarrow> probes a k s p \<Longrightarrow>
      \<exists>p'. body c (p, out) = Some (p', out') \<and> probes a k s' p'"
    and "fold_opt body cs (s, out) = Some (s', out')" "probes a k s p"
  shows "\<exists>p'. fold_opt body cs (p, out) = Some (p', out') \<and> probes a k s' p'"
  using assms(2,3)
proof (induction cs arbitrary: s p out)
  case Nil
  then show ?case by simp
next
  case (Cons c cs)
  from Cons.prems(1) obtain s1 out1 where s1: "body c (s, out) = Some (s1, out1)" "fold_opt body cs (s1, out1) = Some (s', out')"
    by (auto split: Option.bind_splits)
  from assms(1) [OF s1(1) Cons.prems(2)] obtain p1 where "body c (p, out) = Some (p1, out1)" "probes a k s1 p1" by blast
  with Cons.IH [OF s1(2)] show ?case by simp
qed

lemma hall_body_probes:
  assumes st: "HallOrder_body msg c (s, out) = Some (s', out')" and pr: "probes a k s p"
  shows "\<exists>p'. HallOrder_body msg c (p, out) = Some (p', out') \<and> probes a k s' p'"
proof -
  obtain f b where c: "c = (f, b)" by fastforce
  have e: "elev p = elev s" using pr by (simp add: probes_def)
  consider (press) "mat_at (HallAssignments msg) f b"
    | (remove) "\<not> mat_at (HallAssignments msg) f b" "req (elev s) f b"
    | (skip) "\<not> mat_at (HallAssignments msg) f b" "\<not> req (elev s) f b" by blast
  then show ?thesis
  proof cases
    case press
    with st c obtain e' effs evs where o: "OnRequestButtonPress f b (elev s) = Some (e', effs, evs)" "s' = set_elev e' effs s"
      "out' = out @ map makeHallAssignmentCompleteEventMessage (filter (\<lambda>be. be_Button be \<noteq> ButtonCab \<and> be_Floor be = f) evs)"
      by (auto simp: HallOrder_body_def split: Option.bind_splits)
    with press_probes [OF o(1) pr] press show ?thesis by (simp add: HallOrder_body_def c e)
  next
    case remove
    with st c obtain e' effs where o: "RemoveRequest f b (elev s) = Some (e', effs)" "s' = set_elev e' effs s" "out' = out"
      by (auto simp: HallOrder_body_def split: Option.bind_splits)
    with remove_probes [OF o(1) pr] remove show ?thesis by (simp add: HallOrder_body_def c e)
  next
    case skip
    with st pr c show ?thesis by (simp add: HallOrder_body_def e)
  qed
qed

lemma cab_body_probes:
  assumes st: "CabOrder_body msg c (s, out) = Some (s', out')" and pr: "probes a k s p"
  shows "\<exists>p'. CabOrder_body msg c (p, out) = Some (p', out') \<and> probes a k s' p'"
proof (cases "CabAssignments msg ! nat c")
  case True
  with st obtain e' effs evs where o: "OnRequestButtonPress c ButtonCab (elev s) = Some (e', effs, evs)" "s' = set_elev e' effs s" "out' = out"
    by (auto simp: CabOrder_body_def split: Option.bind_splits)
  with press_probes [OF o(1) pr] pr True show ?thesis by (simp add: CabOrder_body_def probes_def)
qed (use st pr in \<open>simp add: CabOrder_body_def\<close>)

lemma hall_order_probes:
  assumes "fold_opt (HallOrder_body msg) cs (s, out) = Some (s', out')" "probes a k s p"
  shows "\<exists>p'. fold_opt (HallOrder_body msg) cs (p, out) = Some (p', out') \<and> probes a k s' p'"
  by (rule fold_probes [OF hall_body_probes assms])

lemma cab_order_probes:
  assumes "fold_opt (CabOrder_body msg) cs (s, out) = Some (s', out')" "probes a k s p"
  shows "\<exists>p'. fold_opt (CabOrder_body msg) cs (p, out) = Some (p', out') \<and> probes a k s' p'"
  by (rule fold_probes [OF cab_body_probes assms])

lemma arrival_probes:
  assumes "OnFloorArrival f (elev s) = Some (e', effs, evs)" "probes a k s p"
  shows "probes a k (set_elev e' effs s) (set_elev e' effs p)"
proof -
  have "open_armed (apply_effects effs pl) = (ResetDoorOpenTimer \<in> set effs \<or> open_armed pl) \<and>
    stuck_armed (apply_effects effs pl) = stuck_armed pl" for pl
    using assms(1) by (auto simp: OnFloorArrival_def Let_def split: if_splits Option.bind_splits prod.splits)
  then show ?thesis using assms(2) by (simp add: probes_def)
qed

lemma step_probes:
  assumes st: "ElevatorProgram_step s i = Some (s', out)" and i: "i \<noteq> DoorOpenTimerFires" "i \<noteq> DoorStuckTimerFires"
  shows "\<exists>p. ElevatorProgram_step (timers_off s) i = Some (p, out) \<and> probes (open_armed (hw s)) (stuck_armed (hw s)) s' p"
proof -
  note pr = probes_off [of s]
  have e: "elev (timers_off s) = elev s" by (simp add: timers_off_def)
  show ?thesis
  proof (cases i)
    case (ButtonRx b)
    show ?thesis
    proof (cases "be_Button b = ButtonCab")
      case True
      with st ButtonRx obtain e' effs evs where "OnRequestButtonPress (be_Floor b) (be_Button b) (elev s) = Some (e', effs, evs)"
        "s' = set_elev e' effs s" "out = []" by (auto split: Option.bind_splits)
      with press_probes [OF this(1) pr] True ButtonRx show ?thesis by (simp add: e)
    qed (use st ButtonRx pr in simp)
  next
    case (UpdateRx u)
    show ?thesis
    proof (cases "OrderType u")
      case HallOrder
      with st UpdateRx hall_order_probes [OF _ pr] show ?thesis by simp
    next
      case CabOrder
      with st UpdateRx cab_order_probes [OF _ pr] show ?thesis by simp
    next
      case LightUpdate
      with st UpdateRx pr show ?thesis by (auto simp: SetHallLights_def probes_def Let_def)
    qed
  next
    case (FloorRx f)
    with st obtain e' effs evs where "OnFloorArrival f (elev s) = Some (e', effs, evs)" "s' = set_elev e' effs s"
      "out = map makeHallAssignmentCompleteEventMessage (filter (\<lambda>be. be_Button be \<noteq> ButtonCab) evs)"
      by (auto split: Option.bind_splits)
    with arrival_probes [OF this(1) pr] FloorRx show ?thesis by (simp add: e)
  next
    case (ObstructionRx x)
    with st pr show ?thesis by (auto simp: probes_def)
  qed (use i in simp_all)
qed

section \<open>What a run keeps\<close>

lemma timeout_armed:
  assumes "ep_inv s" "Behavior (elev s) = DoorOpen" "ElevatorProgram_step s DoorOpenTimerFires = Some (s', out)"
  shows "\<exists>p. ElevatorProgram_step (timers_off s) DoorOpenTimerFires = Some (p, []) \<and>
    open_armed (hw s') = (Behavior (elev s') = DoorOpen) \<and> open_armed (hw p) = (Behavior (elev s') = DoorOpen) \<and>
    (stuck_armed (hw s') \<longrightarrow> Behavior (elev s') = DoorOpen \<and> (stuck_armed (hw p) \<or> stuck_armed (hw s))) \<and>
    (stuck_armed (hw p) \<longrightarrow> stuck_armed (hw s')) \<and> (IsObstructed (elev s) \<longrightarrow> Behavior (elev s') = DoorOpen)"
proof -
  have range: "pair_Behavior (RequestsChooseDirection (elev s)) \<in> {Idle, DoorOpen, Moving}"
    using choose_range(2) [of "elev s"] by auto
  show ?thesis
    using assms(2,3) range
    by (auto simp: OnDoorTimeout_def HandleDoorTimeout_def timers_off_def Let_def split: if_splits)
qed

definition door_inv :: "Time \<Rightarrow> door_clock \<Rightarrow> bool" where
  "door_inv now d \<longleftrightarrow>
     ep_inv (dc_ep d) \<and>
     dc_open d = (if Behavior (elev (dc_ep d)) = DoorOpen then Some (Add (dc_renewed d) DOOR_OPEN_DURATION) else None) \<and>
     (Behavior (elev (dc_ep d)) = DoorOpen \<longrightarrow> dc_opened d \<le> dc_renewed d \<and> dc_renewed d \<le> now) \<and>
     (dc_stuck d = None) = (\<not> stuck_armed (hw (dc_ep d))) \<and>
     (\<forall>t. dc_stuck d = Some t \<longrightarrow> Behavior (elev (dc_ep d)) = DoorOpen \<and>
        Add (dc_opened d) (DOOR_OPEN_DURATION + DOOR_STUCK_DURATION) \<le> t)"

lemma ep_inv_armed: "ep_inv s \<Longrightarrow> open_armed (hw s) = (Behavior (elev s) = DoorOpen)"
  by (simp add: ep_inv_def plant_inv_def)

lemma door_can_enabled: "door_inv c d \<Longrightarrow> door_can lag now i d \<Longrightarrow> enabled (dc_ep d) i \<and> wf_input i"
  using ep_inv_armed [of "dc_ep d"]
  by (auto simp: door_inv_def door_can_def enabled_def fires_def split: ep_input.splits option.splits if_splits)

lemma Add_laws:
  "Add t a \<le> Add u a \<longleftrightarrow> t \<le> u" "Add (Add t a) b = Add t (a + b)" "t \<le> u \<Longrightarrow> a \<le> b \<Longrightarrow> Add t a \<le> Add u b"
  by (simp_all add: Add_def less_eq_Time_def)

lemma door_inv_step:
  assumes inv: "door_inv c d" and now: "c \<le> now" and can: "door_can lag now i d" and st: "door_step now i d = Some (d', out)"
  shows "door_inv now d'"
proof -
  let ?s = "dc_ep d"
  have ep: "ep_inv ?s" using inv by (simp add: door_inv_def)
  from st obtain s' p out' where s': "ElevatorProgram_step ?s i = Some (s', out)"
    and p: "ElevatorProgram_step (timers_off ?s) i = Some (p, out')"
    and d': "d' = \<lparr>dc_ep = s', dc_open = next_due now DOOR_OPEN_DURATION (open_armed (hw p)) (open_armed (hw s')) (dc_open d),
       dc_stuck = next_due now DOOR_STUCK_DURATION (stuck_armed (hw p)) (stuck_armed (hw s')) (dc_stuck d),
       dc_opened = (if Behavior (elev ?s) \<noteq> DoorOpen \<and> Behavior (elev s') = DoorOpen then now else dc_opened d),
       dc_renewed = (if open_armed (hw p) then now else dc_renewed d)\<rparr>"
    by (auto simp: door_step_def split: Option.bind_splits)
  from step_ok [OF ep] door_can_enabled [OF inv can] s' have ep': "ep_inv s'" by fastforce
  note armed = ep_inv_armed [OF ep] ep_inv_armed [OF ep']
  consider (open_timer) "i = DoorOpenTimerFires" | (stuck_timer) "i = DoorStuckTimerFires"
    | (other) "i \<noteq> DoorOpenTimerFires" "i \<noteq> DoorStuckTimerFires" by blast
  then show ?thesis
  proof cases
    case open_timer
    with can inv have bo: "Behavior (elev ?s) = DoorOpen" "Add (dc_renewed d) DOOR_OPEN_DURATION \<le> now"
      by (auto simp: door_can_def fires_def door_inv_def split: if_splits)
    from timeout_armed [OF ep bo(1) s' [unfolded open_timer]] p open_timer
    have a: "open_armed (hw p) = (Behavior (elev s') = DoorOpen)"
      "stuck_armed (hw s') \<longrightarrow> Behavior (elev s') = DoorOpen \<and> (stuck_armed (hw p) \<or> stuck_armed (hw ?s))"
      "stuck_armed (hw p) \<longrightarrow> stuck_armed (hw s')" by auto
    have "Add (dc_opened d) DOOR_OPEN_DURATION \<le> now"
      using inv bo order_trans [OF _ bo(2)] by (auto simp: door_inv_def Add_laws(1))
    then have "Add (dc_opened d) (DOOR_OPEN_DURATION + DOOR_STUCK_DURATION) \<le> Add now DOOR_STUCK_DURATION"
      by (simp add: Add_laws(1) flip: Add_laws(2))
    moreover have "dc_opened d \<le> now" using inv bo(1) now by (auto simp: door_inv_def)
    ultimately show ?thesis
      using inv bo(1) a ep' armed now by (auto simp: door_inv_def d' next_due_def)
  next
    case stuck_timer
    with s' p inv now have "s' = ?s\<lparr>hw := (hw ?s)\<lparr>stuck_armed := False\<rparr>\<rparr>" "\<not> open_armed (hw p)" "\<not> stuck_armed (hw p)"
      by (auto simp: timers_off_def)
    with inv ep' armed now show ?thesis by (auto simp: door_inv_def d' next_due_def)
  next
    case other
    from step_probes [OF s' other] p have a: "open_armed (hw s') = (open_armed (hw p) \<or> open_armed (hw ?s))"
      "stuck_armed (hw s') = stuck_armed (hw ?s)" "\<not> stuck_armed (hw p)" by (auto simp: probes_def)
    have "dc_opened d \<le> now" if "Behavior (elev ?s) = DoorOpen" using inv that now by (auto simp: door_inv_def)
    with inv ep' armed now a show ?thesis by (auto simp: door_inv_def d' next_due_def split: if_splits)
  qed
qed

lemma door_run_inv: "door_run lag pl now d \<Longrightarrow> \<not> door_lamp (pnl pl) \<Longrightarrow> door_inv now d"
proof (induction rule: door_run.induct)
  case (door_begin now)
  have "Behavior (elev (fst (ElevatorProgram_init pl))) \<noteq> DoorOpen" "\<not> stuck_armed (hw (fst (ElevatorProgram_init pl)))"
    by (simp_all add: ElevatorProgram_init_def InitFSM_def OnInitBetweenFloors_def Let_def)
  with ep_inv_init [OF door_begin] show ?case by (simp add: door_inv_def door_start_def)
next
  case door_next
  then show ?case using door_inv_step by blast
qed

section \<open>Properties\<close>

text \<open>C12: The door keeps its times: it closes only when its timer fires with nothing in it, no sooner than 3
  seconds after it was opened or a call at its floor or something in it kept it open, and at most the
  loop's delay later; and it is reported stuck only when it has stayed open for 33 seconds.\<close>

theorem door_times:
  assumes "door_run lag pl c d" "\<not> door_lamp (pnl pl)" "c \<le> now" "door_can lag now i d" "door_step now i d = Some (d', out)"
  shows "(Behavior (elev (dc_ep d)) = DoorOpen \<and> Behavior (elev (dc_ep d')) \<noteq> DoorOpen \<longrightarrow>
      i = DoorOpenTimerFires \<and> \<not> IsObstructed (elev (dc_ep d)) \<and> dc_opened d \<le> dc_renewed d \<and>
      Add (dc_renewed d) (3000 * Millisecond) \<le> now \<and> now \<le> Add (dc_renewed d) (3000 * Millisecond + lag)) \<and>
    (i = DoorStuckTimerFires \<longrightarrow>
      out = [makeDoorStuckMessage True] \<and> Behavior (elev (dc_ep d)) = DoorOpen \<and> Add (dc_opened d) (33000 * Millisecond) \<le> now)"
proof -
  have inv: "door_inv c d" by (rule door_run_inv [OF assms(1,2)])
  have ep: "ep_inv (dc_ep d)" "ep_inv (dc_ep d')"
    using inv door_inv_step [OF inv assms(3-5)] by (simp_all add: door_inv_def)
  from assms(5) have st: "ElevatorProgram_step (dc_ep d) i = Some (dc_ep d', out)"
    by (auto simp: door_step_def split: Option.bind_splits)
  have timer: "i = DoorOpenTimerFires" if "Behavior (elev (dc_ep d)) = DoorOpen" "Behavior (elev (dc_ep d')) \<noteq> DoorOpen"
  proof (rule ccontr)
    assume i: "i \<noteq> DoorOpenTimerFires"
    have "i \<noteq> DoorStuckTimerFires"
    proof
      assume "i = DoorStuckTimerFires"
      with st have "dc_ep d' = (dc_ep d)\<lparr>hw := (hw (dc_ep d))\<lparr>stuck_armed := False\<rparr>\<rparr>" by simp
      with that show False by simp
    qed
    with step_probes [OF st i] that ep_inv_armed [OF ep(1)] ep_inv_armed [OF ep(2)] show False by (auto simp: probes_def)
  qed
  have clear: "\<not> IsObstructed (elev (dc_ep d))" if "Behavior (elev (dc_ep d)) = DoorOpen" "Behavior (elev (dc_ep d')) \<noteq> DoorOpen"
    using timeout_armed [OF ep(1) that(1)] st timer [OF that] that(2) by blast
  have closes: "Add (dc_renewed d) (3000 * Millisecond) \<le> now \<and> now \<le> Add (dc_renewed d) (3000 * Millisecond + lag) \<and> dc_opened d \<le> dc_renewed d"
    if "Behavior (elev (dc_ep d)) = DoorOpen" "i = DoorOpenTimerFires"
    using inv assms(4) that by (auto simp: door_inv_def door_can_def fires_def not_late_def durations Add_laws(2))
  have stuck: "out = [makeDoorStuckMessage True] \<and> Behavior (elev (dc_ep d)) = DoorOpen \<and> Add (dc_opened d) (33000 * Millisecond) \<le> now"
    if "i = DoorStuckTimerFires"
  proof -
    from that assms(4) obtain t where t: "dc_stuck d = Some t" "t \<le> now" by (auto simp: door_can_def fires_def split: option.splits)
    with inv have "Behavior (elev (dc_ep d)) = DoorOpen" "Add (dc_opened d) (33000 * Millisecond) \<le> t"
      by (auto simp: door_inv_def durations)
    with t(2) st that show ?thesis by auto
  qed
  show ?thesis using timer clear closes stuck by blast
qed

text \<open>Runs over timed inputs, with what was sent.\<close>

definition door_act :: "Duration \<Rightarrow> Time \<times> ep_input \<Rightarrow> Time \<times> door_clock \<times> ElevatorEvent list
    \<Rightarrow> (Time \<times> door_clock \<times> ElevatorEvent list) option" where
  "door_act lag ti st = (case (ti, st) of ((now, i), (c, d, sent)) \<Rightarrow>
     if c \<le> now \<and> door_can lag now i d then do { (d', out) \<leftarrow> door_step now i d; Some (now, d', sent @ out) } else None)"

lemma door_act_simp [simp]:
  "door_act lag (now, i) (c, d, sent) =
     (if c \<le> now \<and> door_can lag now i d then do { (d', out) \<leftarrow> door_step now i d; Some (now, d', sent @ out) } else None)"
  by (simp add: door_act_def)

lemma door_acts_run:
  "fold_opt (door_act lag) evs (c, d, sent) = Some (c', d', sent') \<Longrightarrow> door_run lag pl c d \<Longrightarrow> door_run lag pl c' d'"
proof (induction evs arbitrary: c d sent)
  case (Cons ti evs)
  obtain now i where ti: "ti = (now, i)" by fastforce
  with Cons.prems(1) obtain d1 out where "c \<le> now" "door_can lag now i d" "door_step now i d = Some (d1, out)"
    "fold_opt (door_act lag) evs (now, d1, sent @ out) = Some (c', d', sent')" by (auto split: Option.bind_splits if_splits)
  with Cons.IH door_next [OF Cons.prems(2)] show ?case by blast
qed simp

text \<open>A cab button pressed at the floor of an open door does nothing but begin its three seconds again.\<close>

lemma press_holds:
  assumes "Behavior (elev (dc_ep d)) = DoorOpen" "be_Floor b = Floor (elev (dc_ep d))" "be_Button b = ButtonCab" "stuck_armed (hw (dc_ep d))"
  shows "\<exists>d'. door_step now (ButtonRx b) d = Some (d', []) \<and> elev (dc_ep d') = elev (dc_ep d) \<and> stuck_armed (hw (dc_ep d')) \<and>
    dc_open d' = Some (Add now DOOR_OPEN_DURATION) \<and> dc_stuck d' = dc_stuck d"
  using assms
  by (simp add: door_step_def timers_off_def OnRequestButtonPress_def HandleButtonEvent_def RequestsShouldClearImmediately_def next_due_def)

text \<open>Presses none of which comes after the timers are due.\<close>

fun in_time :: "Time \<Rightarrow> Time \<Rightarrow> Time \<Rightarrow> Time list \<Rightarrow> bool" where
  "in_time stuck due c [] = True"
| "in_time stuck due c (n # ns) = (c \<le> n \<and> n \<le> due \<and> n \<le> stuck \<and> in_time stuck (Add n DOOR_OPEN_DURATION) n ns)"

lemma presses_hold:
  assumes "in_time stuck due c ns" "Behavior (elev (dc_ep d)) = DoorOpen" "Floor (elev (dc_ep d)) = be_Floor b" "be_Button b = ButtonCab"
    and "stuck_armed (hw (dc_ep d))" "dc_open d = Some due" "dc_stuck d = Some stuck" "wf_input (ButtonRx b)"
  shows "\<exists>d'. fold_opt (door_act 0) (map (\<lambda>n. (n, ButtonRx b)) ns) (c, d, sent) = Some (last (c # ns), d', sent) \<and>
    elev (dc_ep d') = elev (dc_ep d) \<and> stuck_armed (hw (dc_ep d')) \<and> dc_stuck d' = Some stuck \<and>
    dc_open d' = Some (if ns = [] then due else Add (last ns) DOOR_OPEN_DURATION)"
  using assms
proof (induction ns arbitrary: c d due)
  case (Cons n ns)
  from press_holds [of d b n] Cons.prems obtain d1 where
    d1: "door_step n (ButtonRx b) d = Some (d1, [])" "elev (dc_ep d1) = elev (dc_ep d)" "stuck_armed (hw (dc_ep d1))"
      "dc_open d1 = Some (Add n DOOR_OPEN_DURATION)" "dc_stuck d1 = dc_stuck d" by auto
  have "c \<le> n \<and> door_can 0 n (ButtonRx b) d" using Cons.prems by (simp add: door_can_def not_late_def Add_def)
  with Cons.IH [of "Add n DOOR_OPEN_DURATION" n d1] Cons.prems d1 show ?case by auto
qed simp

text \<open>
  A car opens its door at floor 0, something is in the door at the first timeout and gone a second later, and
  the cab button of the floor is pressed every 2 seconds.
\<close>

definition seconds :: "int \<Rightarrow> Time" where
  "seconds n = Instant (n * 1000 * Millisecond)"

definition blocked_once :: "(Time \<times> ep_input) list" where
  "blocked_once = [(seconds 0, FloorRx 0), (seconds 1, ObstructionRx True), (seconds 3, DoorOpenTimerFires), (seconds 4, ObstructionRx False)]"

definition held_open :: "(Time \<times> ep_input) list" where
  "held_open = map (\<lambda>n. (n, ButtonRx (mk_event 0 ButtonCab)))
     (map seconds [5, 7, 9, 11, 13, 15, 17, 19, 21, 23, 25, 27, 29, 31])"

lemma blocked_once_runs:
  "\<exists>d sent. fold_opt (door_act 0) blocked_once (seconds 0, door_start (seconds 0) dark_plant, []) = Some (seconds 4, d, sent) \<and>
    Behavior (elev (dc_ep d)) = DoorOpen \<and> Floor (elev (dc_ep d)) = 0 \<and> \<not> IsObstructed (elev (dc_ep d)) \<and>
    stuck_armed (hw (dc_ep d)) \<and> dc_open d = Some (seconds 6) \<and> dc_stuck d = Some (seconds 33) \<and>
    no_requests (elev (dc_ep d))"
  by (simp add: no_requests_def buttons_def floors_def blocked_once_def door_can_def door_step_def door_start_def seconds_def fires_def not_late_def
      next_due_def timers_off_def less_eq_Time_def Add_def durations wf_input_def in_floors_def
      ElevatorProgram_init_def InitFSM_def OnInitBetweenFloors_def NewElevator_def OnFloorArrival_def RequestsShouldStop_def
      RequestsClearAtCurrentFloor_def RequestsBelow_def mat_get_def arr_get_def zero_mat_def numeral_nat Let_def req_def mat_at_def put_req_def
      mat_put_def SetObstruction_def OnDoorTimeout_def HandleDoorTimeout_def)

text \<open>C27: A door that nothing holds can be reported stuck: after a single blocked timeout the stuck timer is only
  stopped at the next timeout, and calls at the floor keep that from coming. The door is clear from the fourth
  second on, and in the thirty-third the elevator reports it stuck.\<close>

theorem stuck_false_alarm:
  "\<exists>d d' sent. fold_opt (door_act 0) (blocked_once @ held_open) (seconds 0, door_start (seconds 0) dark_plant, []) =
      Some (seconds 31, d, sent) \<and>
    \<not> IsObstructed (elev (dc_ep d)) \<and> door_can 0 (seconds 33) DoorStuckTimerFires d \<and>
    door_step (seconds 33) DoorStuckTimerFires d = Some (d', [makeDoorStuckMessage True]) \<and>
    door_run 0 dark_plant (seconds 33) d'"
proof -
  from blocked_once_runs obtain d sent where
    d: "fold_opt (door_act 0) blocked_once (seconds 0, door_start (seconds 0) dark_plant, []) = Some (seconds 4, d, sent)"
    "Behavior (elev (dc_ep d)) = DoorOpen" "Floor (elev (dc_ep d)) = 0" "\<not> IsObstructed (elev (dc_ep d))"
    "stuck_armed (hw (dc_ep d))" "dc_open d = Some (seconds 6)" "dc_stuck d = Some (seconds 33)" using blocked_once_runs by blast
  have t: "in_time (seconds 33) (seconds 6) (seconds 4) (map seconds [5, 7, 9, 11, 13, 15, 17, 19, 21, 23, 25, 27, 29, 31])"
    by (simp add: seconds_def less_eq_Time_def Add_def durations)
  have wf: "wf_input (ButtonRx (mk_event 0 ButtonCab))" by (simp add: wf_input_def in_floors_def in_buttons_def)
  from presses_hold [OF t d(2) _ _ d(5-7) wf, where sent = sent] d(3) obtain d2 where
    d2: "fold_opt (door_act 0) held_open (seconds 4, d, sent) = Some (seconds 31, d2, sent)"
    "elev (dc_ep d2) = elev (dc_ep d)" "dc_stuck d2 = Some (seconds 33)" "dc_open d2 = Some (Add (seconds 31) DOOR_OPEN_DURATION)"
    by (auto simp: held_open_def)
  have all: "fold_opt (door_act 0) (blocked_once @ held_open) (seconds 0, door_start (seconds 0) dark_plant, []) =
      Some (seconds 31, d2, sent)" by (simp add: fold_opt_append d(1) d2(1))
  have can: "door_can 0 (seconds 33) DoorStuckTimerFires d2"
    by (simp add: door_can_def wf_input_def not_late_def fires_def d2 seconds_def less_eq_Time_def Add_def durations)
  obtain d3 where d3: "door_step (seconds 33) DoorStuckTimerFires d2 = Some (d3, [makeDoorStuckMessage True])"
    by (simp add: door_step_def)
  have late: "seconds 31 \<le> seconds 33" by (simp add: seconds_def less_eq_Time_def)
  from door_next [OF door_acts_run [OF all door_begin] late can d3] all can d3 d2(2) d(4) show ?thesis by auto
qed

lemma closes_empty:
  assumes "no_requests e" "Behavior e = DoorOpen" "\<not> IsObstructed e" "fsm_inv e"
  shows "Behavior (fst (OnDoorTimeout e)) = Idle"
  using assms fsm_invD(1,3,4) [OF assms(4)] choose_Idle_iff [of e] by (simp add: OnDoorTimeout_def HandleDoorTimeout_def Let_def)

theorem door_times_witness:
  "\<exists>d d' out. door_run 0 dark_plant (seconds 4) d \<and> door_step (seconds 6) DoorOpenTimerFires d = Some (d', out) \<and>
     Behavior (elev (dc_ep d')) \<noteq> DoorOpen \<and> Add (dc_renewed d) (3000 * Millisecond) \<le> seconds 6"
proof -
  from blocked_once_runs obtain d sent where
    d: "fold_opt (door_act 0) blocked_once (seconds 0, door_start (seconds 0) dark_plant, []) = Some (seconds 4, d, sent)"
    "Behavior (elev (dc_ep d)) = DoorOpen" "Floor (elev (dc_ep d)) = 0" "\<not> IsObstructed (elev (dc_ep d))"
    "dc_open d = Some (seconds 6)" "dc_stuck d = Some (seconds 33)" "no_requests (elev (dc_ep d))" by blast
  note run = door_acts_run [OF d(1) door_begin]
  have late: "seconds 4 \<le> seconds 6" by (simp add: seconds_def less_eq_Time_def)
  have can: "door_can 0 (seconds 6) DoorOpenTimerFires d"
    by (simp add: door_can_def wf_input_def not_late_def fires_def d seconds_def less_eq_Time_def Add_def)
  have "fsm_inv (elev (dc_ep d))" using door_run_inv [OF run dark] by (simp add: door_inv_def ep_inv_def)
  with closes_empty [OF d(7,2,4)] have idle: "Behavior (fst (OnDoorTimeout (elev (dc_ep d)))) = Idle" .
  then obtain d' out where d': "door_step (seconds 6) DoorOpenTimerFires d = Some (d', out)" "Behavior (elev (dc_ep d')) = Idle"
    by (auto simp: door_step_def Let_def case_prod_beta)
  from door_times [OF run dark late can d'(1)] d(2) d'(2) run d'(1) show ?thesis by auto
qed

end
