(* ===== verification/Polling.thy ===== *)
theory Polling
  imports Elevio
begin

text \<open>
  The button poller in time: \<open>PollButtons\<close> sleeps for \<open>pollInterval\<close> before every round, and a round, the
  sends it makes and the scheduler delay it by at most \<open>d\<close>. The hardware is a function of time; a round is
  taken to read all buttons at one instant.
\<close>

definition pollInterval :: Duration where
  "pollInterval = 20 * Millisecond"

text \<open>The instants of the rounds of a goroutine started at \<open>c\<close>.\<close>

fun poll_times :: "Duration \<Rightarrow> Time \<Rightarrow> Time list \<Rightarrow> bool" where
  "poll_times d c [] = True"
| "poll_times d c (t # ts) = (Add c pollInterval \<le> t \<and> t \<le> Add c (pollInterval + d) \<and> poll_times d t ts)"

definition PollButtons_at :: "(Time \<Rightarrow> server) \<Rightarrow> Time list \<Rightarrow> (bool list list \<times> ButtonEvent list) option" where
  "PollButtons_at server_at ts =
     run_steps (\<lambda>prev now. PollButtons_round (server_at now) prev) (zero_mat NUM_FLOORS NUM_BUTTONS) ts"

lemma poll_times_later: "poll_times d c ts \<Longrightarrow> t \<in> set ts \<Longrightarrow> c < t"
proof (induction ts arbitrary: c)
  case (Cons x ts)
  from Cons.prems(1) have "c < x" by (simp add: less_eq_Time_def less_Time_def Add_def pollInterval_def)
  with Cons show ?case by fastforce
qed simp

text \<open>Whoever holds a button for an interval and the delay is seen by a round.\<close>

lemma poll_hits:
  assumes "poll_times d c ts" "c < a" "a \<le> last (c # ts)" "Add a (pollInterval + d) \<le> z"
  shows "\<exists>t \<in> set ts. a \<le> t \<and> t < z"
  using assms
proof (induction ts arbitrary: c)
  case Nil
  then show ?case by simp
next
  case (Cons t ts)
  show ?case
  proof (cases "a \<le> t")
    case True
    moreover have "t < z" using Cons.prems by (simp add: less_eq_Time_def less_Time_def Add_def)
    ultimately show ?thesis by simp
  next
    case False
    with Cons.IH [of t] Cons.prems show ?thesis by auto
  qed
qed

lemma run_steps_map: "run_steps (\<lambda>s e. step s (g e)) s es = run_steps step s (map g es)"
proof (induction es arbitrary: s)
  case (Cons e es)
  show ?case by (simp only: run_steps.simps list.map Cons.IH)
qed simp

section \<open>How often a button is reported\<close>

lemma count_distinct: "distinct xs \<Longrightarrow> count_list xs x = (if x \<in> set xs then 1 else 0)"
  by (induction xs) auto

lemma count_cells:
  "count_list (concat (map (\<lambda>(f, b). if P f b then [mk_event f b] else []) cs)) (mk_event f b) = (if P f b then count_list cs (f, b) else 0)"
proof (induction cs)
  case (Cons c cs)
  obtain f' b' where "c = (f', b')" by fastforce
  with Cons.IH show ?case by (cases "f' = f \<and> b' = b") auto
qed simp

lemma count_round:
  assumes "in_floors f" "in_buttons b"
  shows "count_list [mk_event f b. (f, b) \<leftarrow> grid buttons, P f b] (mk_event f b) = (if P f b then 1 else 0)"
  using assms by (simp add: count_cells count_distinct in_floors_def in_buttons_def)

text \<open>A button that is down exactly from \<open>a\<close> up to \<open>z\<close>, seen at increasing instants.\<close>

lemma count_rising:
  assumes "sorted ts" "in_floors f" "in_buttons b" "\<And>t. buttons_at t f b \<longleftrightarrow> a \<le> t \<and> t < z"
    and "prev f b \<longrightarrow> (\<forall>t \<in> set ts. a \<le> t)"
  shows "count_list (rising prev (map buttons_at ts)) (mk_event f b) = (if \<not> prev f b \<and> (\<exists>t \<in> set ts. a \<le> t \<and> t < z) then 1 else 0)"
  using assms
proof (induction ts arbitrary: prev)
  case Nil
  then show ?case by simp
next
  case (Cons t ts)
  from Cons.prems(1) have st: "sorted ts" "\<forall>u \<in> set ts. t \<le> u" by simp_all
  then have later: "buttons_at t f b \<longrightarrow> (\<forall>u \<in> set ts. a \<le> u)" using Cons.prems(4) by auto
  have gone: "\<not> (a \<le> u \<and> u < z)" if "u \<in> set ts" "prev f b" "\<not> buttons_at t f b" for u
    using Cons.prems(4) [of t] Cons.prems(5) that st(2) by auto
  show ?case
    using Cons.IH [of "buttons_at t", OF st(1) Cons.prems(2-4) later] count_round [OF Cons.prems(2,3)] Cons.prems(4) gone
    by (auto simp: count_list_append)
qed

section \<open>Properties\<close>

text \<open>The button poller reports a press at most once, and exactly once when one of its rounds falls into
  it, which is certain for a press of at least 20 milliseconds and the delay of a round; a press that
  falls between two rounds is lost.\<close>

theorem press_reported_once:
  assumes hw: "\<And>t. answers (server_at t) (buttons_at t)" and ts: "poll_times d c ts"
    and fb: "in_floors f" "in_buttons b" and press: "\<And>t. buttons_at t f b \<longleftrightarrow> a \<le> t \<and> t < z"
  shows "\<exists>prev out. PollButtons_at server_at ts = Some (prev, out) \<and>
    count_list out (mk_event f b) = (if \<exists>t \<in> set ts. a \<le> t \<and> t < z then 1 else 0) \<and>
    (c < a \<and> a \<le> last (c # ts) \<and> Add a (20 * Millisecond + d) \<le> z \<longrightarrow> count_list out (mk_event f b) = 1)"
proof -
  have "list_all2 answers (map server_at ts) (map buttons_at ts)" by (simp add: list_all2_conv_all_nth hw)
  from poll_run_rising [OF this] obtain prev where
    p: "PollButtons_at server_at ts = Some (prev, rising (\<lambda>_ _. False) (map buttons_at ts))"
    unfolding PollButtons_at_def run_steps_map [of "\<lambda>prev server. PollButtons_round server prev" server_at] by blast
  have "sorted ts" using ts
  proof (induction ts arbitrary: c)
    case (Cons t ts)
    with poll_times_later [of d t ts] show ?case by (fastforce intro: less_imp_le)
  qed simp
  then have n: "count_list (rising (\<lambda>_ _. False) (map buttons_at ts)) (mk_event f b) = (if \<exists>t \<in> set ts. a \<le> t \<and> t < z then 1 else 0)"
    by (subst count_rising [where a = a and z = z]) (use fb press in simp_all)
  have hit: "\<exists>t \<in> set ts. a \<le> t \<and> t < z" if "c < a \<and> a \<le> last (c # ts) \<and> Add a (20 * Millisecond + d) \<le> z"
    using poll_hits [OF ts, of a z] that by (simp add: pollInterval_def)
  show ?thesis using p n hit by (intro exI conjI) (assumption, simp_all)
qed

text \<open>A cab button at floor 1 held for 30 milliseconds is reported, one held for 19 between two rounds is not.\<close>

definition ms :: "int \<Rightarrow> Time" where
  "ms n = Instant (n * Millisecond)"

theorem press_reported_once_witness:
  "(\<exists>prev out. PollButtons_at (\<lambda>t. holds_button 1 ButtonCab (ms 30 \<le> t \<and> t < ms 60)) [ms 20, ms 40, ms 60] = Some (prev, out) \<and>
      count_list out (mk_event 1 ButtonCab) = 1) \<and>
   (\<exists>prev out. PollButtons_at (\<lambda>t. holds_button 1 ButtonCab (ms 21 \<le> t \<and> t < ms 40)) [ms 20, ms 40, ms 60] = Some (prev, out) \<and>
      count_list out (mk_event 1 ButtonCab) = 0)"
proof -
  have ts: "poll_times 0 (ms 0) [ms 20, ms 40, ms 60]" by (simp add: ms_def less_eq_Time_def Add_def pollInterval_def)
  have fb: "in_floors 1" "in_buttons ButtonCab" by (simp_all add: in_floors_def in_buttons_def)
  have "\<exists>prev out. PollButtons_at (\<lambda>t. holds_button 1 ButtonCab (a \<le> t \<and> t < z)) [ms 20, ms 40, ms 60] = Some (prev, out) \<and>
      count_list out (mk_event 1 ButtonCab) = (if \<exists>t \<in> {ms 20, ms 40, ms 60}. a \<le> t \<and> t < z then 1 else 0)" for a z
    using press_reported_once [where a = a and z = z, OF holds_button_answers [of "a \<le> t \<and> t < z" for t] ts fb] by fastforce
  from this [of "ms 30" "ms 60"] this [of "ms 21" "ms 40"] show ?thesis by (simp add: ms_def less_eq_Time_def less_Time_def)
qed

end
