(* ===== verification/Heartbeat.thy ===== *)
theory Heartbeat
  imports Transmitters Node_Programs
begin

text \<open>
  The heartbeat between a master and its slaves in time: \<open>GlobalHallRequestsTransmitter\<close> waits with a
  new \<open>time.After\<close> at every turn of its loop, \<open>SlaveProgram\<close> has a timer that every global hall
  request resets. Both are the steps of their theories with the instants at which timers are due.
\<close>

section \<open>The transmitter\<close>

definition MASTER_TRANSMIT_INTERVAL :: Duration where
  "MASTER_TRANSMIT_INTERVAL = 50 * Millisecond"

record beat =
  bt_state :: ght_state
  bt_due :: Time

text \<open>The \<open>time.After\<close> of the next turn starts when the case of this turn is done.\<close>

definition beat_start :: "Time \<Rightarrow> beat" where
  "beat_start now = \<lparr>bt_state = ght_init, bt_due = Add now MASTER_TRANSMIT_INTERVAL\<rparr>"

definition beat_can :: "Time \<Rightarrow> ght_input \<Rightarrow> beat \<Rightarrow> bool" where
  "beat_can now i b = (case i of GhtInterval \<Rightarrow> bt_due b \<le> now | _ \<Rightarrow> True)"

definition beat_step :: "Time \<Rightarrow> ght_input \<Rightarrow> beat \<Rightarrow> beat \<times> GlobalHallRequest list" where
  "beat_step now i b =
     (let (st, out) = GlobalHallRequestsTransmitter_step (bt_state b) i
      in (\<lparr>bt_state = st, bt_due = Add now MASTER_TRANSMIT_INTERVAL\<rparr>, out))"

text \<open>A run over timed inputs, with what was sent and when.\<close>

inductive beat_run :: "Time \<Rightarrow> beat \<Rightarrow> (Time \<times> ght_input) list \<Rightarrow> Time \<Rightarrow> beat \<Rightarrow> (Time \<times> GlobalHallRequest) list \<Rightarrow> bool" where
  beat_nil: "beat_run c b [] c b []"
| beat_cons: "c \<le> now \<Longrightarrow> beat_can now i b \<Longrightarrow> beat_step now i b = (b', out) \<Longrightarrow> beat_run now b' ins c' b'' sent \<Longrightarrow>
    beat_run c b ((now, i) # ins) c' b'' (map (Pair now) out @ sent)"

section \<open>The slave\<close>

definition MASTER_CONNECTION_TIMEOUT :: Duration where
  "MASTER_CONNECTION_TIMEOUT = 500 * Millisecond"

record watch =
  wt_node :: NodeData
  wt_slave :: slave
  wt_due :: "Time option"

definition watch_start :: "NodeData \<Rightarrow> watch" where
  "watch_start node = \<lparr>wt_node = node, wt_slave = fst SlaveProgram_entry, wt_due = None\<rparr>"

definition watch_can :: "Time \<Rightarrow> node_in \<Rightarrow> watch \<Rightarrow> bool" where
  "watch_can now i w =
     (case i of
        MasterConnectionTimeout \<Rightarrow> (case wt_due w of None \<Rightarrow> False | Some t \<Rightarrow> t \<le> now)
      | _ \<Rightarrow> True)"

definition watch_step :: "Time \<Rightarrow> node_in \<Rightarrow> watch \<Rightarrow> watch \<times> verdict" where
  "watch_step now i w =
     (let (n, l, out, v) = SlaveProgram_step now (wt_node w) (wt_slave w) i
      in (\<lparr>wt_node = n, wt_slave = l,
           wt_due = (case i of
              GlobalHallRequestRx g \<Rightarrow> Some (Add now MASTER_CONNECTION_TIMEOUT)
            | MasterConnectionTimeout \<Rightarrow> None
            | _ \<Rightarrow> wt_due w)\<rparr>, v))"

text \<open>A slave's run while it stays a slave.\<close>

inductive watch_run :: "Time \<Rightarrow> watch \<Rightarrow> (Time \<times> node_in) list \<Rightarrow> Time \<Rightarrow> watch \<Rightarrow> bool" where
  watch_nil: "watch_run c w [] c w"
| watch_cons: "c \<le> now \<Longrightarrow> watch_can now i w \<Longrightarrow> watch_step now i w = (w', Stay) \<Longrightarrow> watch_run now w' ins c' w'' \<Longrightarrow>
    watch_run c w ((now, i) # ins) c' w''"

text \<open>The instant of the last global hall request among the inputs.\<close>

fun last_request :: "Time option \<Rightarrow> (Time \<times> node_in) list \<Rightarrow> Time option" where
  "last_request r [] = r"
| "last_request r ((now, GlobalHallRequestRx g) # ins) = last_request (Some now) ins"
| "last_request r (ti # ins) = last_request r ins"

lemma watch_due:
  "watch_run c w ins c' w' \<Longrightarrow> wt_due w = map_option (\<lambda>t. Add t MASTER_CONNECTION_TIMEOUT) r \<Longrightarrow>
    wt_due w' = map_option (\<lambda>t. Add t MASTER_CONNECTION_TIMEOUT) (last_request r ins)"
proof (induction arbitrary: r rule: watch_run.induct)
  case (watch_nil c w)
  then show ?case by simp
next
  case (watch_cons c now i w w' ins c' w'')
  show ?case
  proof (cases "\<exists>g. i = GlobalHallRequestRx g")
    case True
    then obtain g where g: "i = GlobalHallRequestRx g" by blast
    then have "wt_due w' = Some (Add now MASTER_CONNECTION_TIMEOUT)"
      using watch_cons.hyps(3) by (auto simp: watch_step_def Let_def case_prod_beta)
    with watch_cons.IH [of "Some now"] g show ?thesis by simp
  next
    case False
    moreover have "i \<noteq> MasterConnectionTimeout" using watch_cons.hyps(3) by (auto simp: watch_step_def)
    ultimately have "wt_due w' = wt_due w" "last_request r ((now, i) # ins) = last_request r ins"
      using watch_cons.hyps(3) by (cases i; auto simp: watch_step_def Let_def case_prod_beta)+
    with watch_cons.IH watch_cons.prems show ?thesis by simp
  qed
qed

lemma watch_armed:
  "watch_run c w ins c' w' \<Longrightarrow> masterTimerArmed (wt_slave w) = (wt_due w \<noteq> None) \<Longrightarrow>
    masterTimerArmed (wt_slave w') = (wt_due w' \<noteq> None)"
proof (induction rule: watch_run.induct)
  case (watch_nil c w)
  then show ?case by simp
next
  case (watch_cons c now i w w' ins c' w'')
  have "masterTimerArmed (wt_slave w') = (wt_due w' \<noteq> None)"
    using watch_cons.hyps(3) watch_cons.prems
    by (cases i) (auto simp: watch_step_def Let_def split: ElevatorEventType.splits if_splits)
  with watch_cons.IH show ?case by blast
qed

section \<open>Updates that come faster than the interval\<close>

text \<open>\<open>n\<close> new matrices, one every 49 milliseconds.\<close>

definition every_49ms :: "nat \<Rightarrow> GlobalHallRequest \<Rightarrow> (Time \<times> ght_input) list" where
  "every_49ms n g = map (\<lambda>k. (Instant (int (Suc k) * 49 * Millisecond), GhtUpdate g)) [0..<n]"

lemma beat_run_snoc:
  "beat_run c b ins c' b' sent \<Longrightarrow> c' \<le> now \<Longrightarrow> beat_can now i b' \<Longrightarrow> beat_step now i b' = (b'', out) \<Longrightarrow>
    beat_run c b (ins @ [(now, i)]) now b'' (sent @ map (Pair now) out)"
proof (induction rule: beat_run.induct)
  case (beat_nil c b)
  with beat_cons [OF beat_nil.prems(1,2,3) beat_run.beat_nil] show ?case by simp
next
  case (beat_cons c t j b b1 o1 ins c' b' sent)
  from beat_run.beat_cons [OF beat_cons.hyps(1-3) beat_cons.IH [OF beat_cons.prems]] show ?case by simp
qed

lemma starved_run:
  assumes "ght_enable (bt_state b)"
  shows "\<exists>b'. beat_run 0 b (every_49ms n g) (Instant (int n * 49 * Millisecond)) b' [] \<and> ght_enable (bt_state b') \<and>
    (0 < n \<longrightarrow> bt_due b' = Instant (int n * 49 * Millisecond + 50 * Millisecond))"
proof (induction n)
  case 0
  show ?case using assms beat_nil [of 0 b] by (auto simp: every_49ms_def zero_Time_def)
next
  case (Suc n)
  then obtain b' where b': "beat_run 0 b (every_49ms n g) (Instant (int n * 49 * Millisecond)) b' []" "ght_enable (bt_state b')"
    by blast
  let ?now = "Instant (int (Suc n) * 49 * Millisecond)"
  let ?b = "\<lparr>bt_state = (bt_state b')\<lparr>GHallRequests := g\<rparr>, bt_due = Add ?now MASTER_TRANSMIT_INTERVAL\<rparr>"
  have st: "beat_step ?now (GhtUpdate g) b' = (?b, [])" by (simp add: beat_step_def)
  have "Instant (int n * 49 * Millisecond) \<le> ?now" by (simp add: less_eq_Time_def)
  from beat_run_snoc [OF b'(1) this _ st] have "beat_run 0 b (every_49ms (Suc n) g) ?now ?b []"
    by (simp add: every_49ms_def beat_can_def)
  then show ?case using b'(2) by (auto simp: Add_def MASTER_TRANSMIT_INTERVAL_def)
qed

section \<open>Properties\<close>

text \<open>C35: The heartbeat in time. A slave's timer for its master is due exactly 500 milliseconds after the
  last global hall request it handled, and never before the first. The transmitter sends only when
  a full interval of 50 milliseconds has passed since whatever it handled last; so while updates
  keep coming every 49 milliseconds an enabled transmitter sends nothing at all, for any number of
  them, and every slave's timer becomes due.\<close>

theorem heartbeat_starved_by_updates:
  assumes "watch_run c (watch_start node) ins c' w"
  shows "(watch_can now MasterConnectionTimeout w \<longleftrightarrow>
      (\<exists>r. last_request None ins = Some r \<and> nanos r + 500 * Millisecond \<le> nanos now)) \<and>
    masterTimerArmed (wt_slave w) = (last_request None ins \<noteq> None) \<and>
    (\<exists>b. beat_run 0 (fst (beat_step 0 (GhtEnable True) (beat_start 0))) (every_49ms n g) (Instant (int n * 49 * Millisecond)) b [] \<and>
      ght_enable (bt_state b) \<and>
      (beat_can later GhtInterval b \<longrightarrow> int n * 49 * Millisecond + 50 * Millisecond \<le> nanos later))"
proof (intro conjI)
  have due: "wt_due w = map_option (\<lambda>t. Add t MASTER_CONNECTION_TIMEOUT) (last_request None ins)"
    using watch_due [OF assms, of None] by (simp add: watch_start_def)
  then show "watch_can now MasterConnectionTimeout w \<longleftrightarrow>
      (\<exists>r. last_request None ins = Some r \<and> nanos r + 500 * Millisecond \<le> nanos now)"
    by (auto simp: watch_can_def Add_def less_eq_Time_def MASTER_CONNECTION_TIMEOUT_def split: option.split)
  from watch_armed [OF assms] due show "masterTimerArmed (wt_slave w) = (last_request None ins \<noteq> None)"
    by (simp add: watch_start_def SlaveProgram_entry_def)
  let ?b0 = "fst (beat_step 0 (GhtEnable True) (beat_start 0))"
  have "ght_enable (bt_state ?b0)" by (simp add: beat_step_def beat_start_def)
  from starved_run [OF this, of n g] obtain b where
    b: "beat_run 0 ?b0 (every_49ms n g) (Instant (int n * 49 * Millisecond)) b []" "ght_enable (bt_state b)"
       "0 < n \<longrightarrow> bt_due b = Instant (int n * 49 * Millisecond + 50 * Millisecond)" by blast
  have "beat_can later GhtInterval b \<longrightarrow> int n * 49 * Millisecond + 50 * Millisecond \<le> nanos later"
  proof (cases "n = 0")
    case True
    then have "b = ?b0" using b(1) by (auto simp: every_49ms_def elim: beat_run.cases)
    with True show ?thesis
      by (simp add: beat_can_def beat_step_def beat_start_def Add_def MASTER_TRANSMIT_INTERVAL_def less_eq_Time_def zero_Time_def)
  next
    case False
    with b(3) show ?thesis by (simp add: beat_can_def less_eq_Time_def)
  qed
  with b show "\<exists>b. beat_run 0 ?b0 (every_49ms n g) (Instant (int n * 49 * Millisecond)) b [] \<and>
      ght_enable (bt_state b) \<and>
      (beat_can later GhtInterval b \<longrightarrow> int n * 49 * Millisecond + 50 * Millisecond \<le> nanos later)" by blast
qed

text \<open>A slave that hears its master once, at the start.\<close>

definition one_request :: "(Time \<times> node_in) list" where
  "one_request = [(0, GlobalHallRequestRx \<lparr>ghr_HallRequests = zero_mat NUM_FLOORS 2\<rparr>)]"

lemma one_request_run: "\<exists>w. watch_run 0 (watch_start (MakeNode 1)) one_request 0 w"
proof -
  obtain w v where w: "watch_step 0 (GlobalHallRequestRx \<lparr>ghr_HallRequests = zero_mat NUM_FLOORS 2\<rparr>) (watch_start (MakeNode 1)) = (w, v)"
    by fastforce
  then have "v = Stay" by (auto simp: watch_step_def Let_def split: if_splits)
  note step = w [unfolded this]
  have "watch_can 0 (GlobalHallRequestRx \<lparr>ghr_HallRequests = zero_mat NUM_FLOORS 2\<rparr>) (watch_start (MakeNode 1))"
    by (simp add: watch_can_def)
  from watch_cons [OF order_refl this step watch_nil] show ?thesis unfolding one_request_def by blast
qed

theorem heartbeat_starved_by_updates_witness:
  "\<exists>w. watch_run 0 (watch_start (MakeNode 1)) one_request 0 w \<and>
     watch_can (Instant (500 * Millisecond)) MasterConnectionTimeout w \<and>
     \<not> watch_can (Instant (499 * Millisecond)) MasterConnectionTimeout w"
proof -
  obtain w where w: "watch_run 0 (watch_start (MakeNode 1)) one_request 0 w" using one_request_run by blast
  have "last_request None one_request = Some 0" by (simp add: one_request_def)
  with w heartbeat_starved_by_updates [OF w, THEN conjunct1] show ?thesis by (auto simp: zero_Time_def)
qed

end
