(* ===== verification/Driver.thy ===== *)
theory Driver
  imports Elevio
begin

text \<open>
  The functions \<open>read\<close> and \<open>write\<close> of elevator/elevio.go under concurrency: the pollers and the
  elevator's program are goroutines that share one TCP connection to the elevator server under
  \<open>driverMutex\<close>. The connection is two streams of bytes. \<open>Read\<close> returns what has come, at most
  the four bytes asked for, as Go's \<open>io.Reader\<close> allows; the code does not look at how many. When the
  connection is lost, \<open>Write\<close> or \<open>Read\<close> returns an error and the program panics.
\<close>

section \<open>Calls and their states\<close>

text \<open>A call is made, takes the mutex, writes its packet, for \<open>read\<close> reads an answer, and releases the mutex.\<close>

datatype call_state =
    NoCall
  | AtLock bool packet
  | AtWrite bool packet
  | AtRead packet
  | AtUnlock bool packet packet
  | Returned bool packet packet

record driver =
  driverMutex :: "nat option"
  to_server :: "byte list"
  from_server :: "byte list"
  call_of :: "nat \<Rightarrow> call_state"
  panicked :: bool

definition driver_start :: driver where
  "driver_start = \<lparr>driverMutex = None, to_server = [], from_server = [], call_of = (\<lambda>_. NoCall), panicked = False\<rparr>"

fun bytes :: "packet \<Rightarrow> byte list" where
  "bytes (a, b, c, d) = [a, b, c, d]"

text \<open>The array \<open>out\<close> after a read of these bytes: the rest keeps its zeros.\<close>

definition out_array :: "byte list \<Rightarrow> packet" where
  "out_array bs = (let z = bs @ [0, 0, 0, 0] in (z ! 0, z ! 1, z ! 2, z ! 3))"

text \<open>The commands 6 to 9 are the ones the elevator server answers.\<close>

fun is_query :: "packet \<Rightarrow> bool" where
  "is_query (a, b, c, d) = (a = 6 \<or> a = 7 \<or> a = 8 \<or> a = 9)"

datatype driver_act =
    CallRead nat packet
  | CallWrite nat packet
  | Lock nat
  | Write nat
  | Read nat nat
  | Unlock nat
  | Serve nat
  | ConnectionLost nat

fun driver_can :: "driver \<Rightarrow> driver_act \<Rightarrow> bool" where
  "driver_can d (CallRead g p) = (is_query p \<and> (case call_of d g of NoCall \<Rightarrow> True | Returned r q x \<Rightarrow> True | _ \<Rightarrow> False))"
| "driver_can d (CallWrite g p) = (\<not> is_query p \<and> (case call_of d g of NoCall \<Rightarrow> True | Returned r q x \<Rightarrow> True | _ \<Rightarrow> False))"
| "driver_can d (Lock g) = (driverMutex d = None \<and> (case call_of d g of AtLock r p \<Rightarrow> True | _ \<Rightarrow> False))"
| "driver_can d (Write g) = (case call_of d g of AtWrite r p \<Rightarrow> True | _ \<Rightarrow> False)"
| "driver_can d (Read g n) =
     (0 < n \<and> n \<le> 4 \<and> n \<le> length (from_server d) \<and> (case call_of d g of AtRead p \<Rightarrow> True | _ \<Rightarrow> False))"
| "driver_can d (Unlock g) = (case call_of d g of AtUnlock r p x \<Rightarrow> True | _ \<Rightarrow> False)"
| "driver_can d (Serve k) = (4 \<le> length (to_server d))"
| "driver_can d (ConnectionLost g) = (case call_of d g of AtWrite r p \<Rightarrow> True | AtRead p \<Rightarrow> True | _ \<Rightarrow> False)"

definition set_call :: "nat \<Rightarrow> call_state \<Rightarrow> driver \<Rightarrow> driver" where
  "set_call g c d = d\<lparr>call_of := (call_of d)(g := c)\<rparr>"

text \<open>\<open>answer k p\<close> is the elevator server's answer to \<open>p\<close> when the hardware is in its \<open>k\<close>-th condition.\<close>

fun driver_step :: "(nat \<Rightarrow> packet \<Rightarrow> packet) \<Rightarrow> driver \<Rightarrow> driver_act \<Rightarrow> driver" where
  "driver_step answer d (CallRead g p) = set_call g (AtLock True p) d"
| "driver_step answer d (CallWrite g p) = set_call g (AtLock False p) d"
| "driver_step answer d (Lock g) =
     (case call_of d g of
        AtLock r p \<Rightarrow> set_call g (AtWrite r p) (d\<lparr>driverMutex := Some g\<rparr>)
      | _ \<Rightarrow> d)"
| "driver_step answer d (Write g) =
     (case call_of d g of
        AtWrite r p \<Rightarrow>
          set_call g (if r then AtRead p else AtUnlock False p (0, 0, 0, 0)) (d\<lparr>to_server := to_server d @ bytes p\<rparr>)
      | _ \<Rightarrow> d)"
| "driver_step answer d (Read g n) =
     (case call_of d g of
        AtRead p \<Rightarrow>
          set_call g (AtUnlock True p (out_array (take n (from_server d)))) (d\<lparr>from_server := drop n (from_server d)\<rparr>)
      | _ \<Rightarrow> d)"
| "driver_step answer d (Unlock g) =
     (case call_of d g of
        AtUnlock r p x \<Rightarrow> set_call g (Returned r p x) (d\<lparr>driverMutex := None\<rparr>)
      | _ \<Rightarrow> d)"
| "driver_step answer d (Serve k) =
     (let p = out_array (take 4 (to_server d))
      in d\<lparr>to_server := drop 4 (to_server d),
           from_server := from_server d @ (if is_query p then bytes (answer k p) else [])\<rparr>)"
| "driver_step answer d (ConnectionLost g) = d\<lparr>panicked := True\<rparr>"

text \<open>Runs until a panic; \<open>ok\<close> restricts the actions, for reads that get all four bytes at once.\<close>

inductive driver_run :: "(driver_act \<Rightarrow> bool) \<Rightarrow> (nat \<Rightarrow> packet \<Rightarrow> packet) \<Rightarrow> driver \<Rightarrow> bool" for ok answer where
  driver_begin: "driver_run ok answer driver_start"
| driver_next: "driver_run ok answer d \<Longrightarrow> ok a \<Longrightarrow> \<not> panicked d \<Longrightarrow> driver_can d a \<Longrightarrow>
    driver_run ok answer (driver_step answer d a)"

fun whole_read :: "driver_act \<Rightarrow> bool" where
  "whole_read (Read g n) = (n = 4)"
| "whole_read _ = True"

section \<open>The invariant\<close>

fun inside :: "call_state \<Rightarrow> bool" where
  "inside (AtWrite r p) = True"
| "inside (AtRead p) = True"
| "inside (AtUnlock r p x) = True"
| "inside _ = False"

definition stream :: "packet list \<Rightarrow> byte list" where
  "stream ps = concat (map bytes ps)"

text \<open>
  Commands that are not answered may still be on their way; a query is on its way or its answer
  is there, and only while the call that sent it waits for it.
\<close>

definition holding :: "driver \<Rightarrow> call_state" where
  "holding d = (case driverMutex d of None \<Rightarrow> NoCall | Some g \<Rightarrow> call_of d g)"

fun streams :: "(nat \<Rightarrow> packet \<Rightarrow> packet) \<Rightarrow> call_state \<Rightarrow> packet list \<Rightarrow> byte list \<Rightarrow> byte list \<Rightarrow> bool" where
  "streams answer (AtRead q) ps t f =
     (t = stream ps @ bytes q \<and> f = [] \<or> ps = [] \<and> t = [] \<and> (\<exists>k. f = bytes (answer k q)))"
| "streams answer c ps t f = (t = stream ps \<and> f = [])"

definition flow :: "(nat \<Rightarrow> packet \<Rightarrow> packet) \<Rightarrow> driver \<Rightarrow> bool" where
  "flow answer d \<longleftrightarrow>
     (\<exists>ps. list_all (\<lambda>p. \<not> is_query p) ps \<and> streams answer (holding d) ps (to_server d) (from_server d))"

fun call_ok :: "(nat \<Rightarrow> packet \<Rightarrow> packet) \<Rightarrow> call_state \<Rightarrow> bool" where
  "call_ok answer NoCall = True"
| "call_ok answer (AtLock r p) = (r = is_query p)"
| "call_ok answer (AtWrite r p) = (r = is_query p)"
| "call_ok answer (AtRead p) = is_query p"
| "call_ok answer (AtUnlock r p x) = (r = is_query p \<and> (r \<longrightarrow> (\<exists>k. x = answer k p)))"
| "call_ok answer (Returned r p x) = (r = is_query p \<and> (r \<longrightarrow> (\<exists>k. x = answer k p)))"

definition driver_ok :: "(nat \<Rightarrow> packet \<Rightarrow> packet) \<Rightarrow> driver \<Rightarrow> bool" where
  "driver_ok answer d \<longleftrightarrow> flow answer d \<and> (\<forall>g. call_ok answer (call_of d g)) \<and>
     (\<forall>g. inside (call_of d g) = (driverMutex d = Some g))"

lemma out_array_bytes [simp]: "out_array (bytes p) = p" "out_array (take 4 (bytes p @ bs)) = p"
  "drop 4 (bytes p @ bs) = bs" "length (bytes p) = 4" "take 4 (bytes p) = bytes p"
  by (cases p; simp add: out_array_def numeral_nat)+

lemma stream_simps [simp]: "stream [] = []" "stream (p # ps) = bytes p @ stream ps" "stream (ps @ qs) = stream ps @ stream qs"
  by (simp_all add: stream_def)

lemma set_call_simps [simp]:
  "call_of (set_call g c d) = (call_of d)(g := c)" "driverMutex (set_call g c d) = driverMutex d"
  "to_server (set_call g c d) = to_server d" "from_server (set_call g c d) = from_server d" "panicked (set_call g c d) = panicked d"
  by (simp_all add: set_call_def)

lemma stream_length: "length (stream ps) = 4 * length ps"
  by (induction ps) auto

text \<open>The goroutine that is inside, seen from an action of its own.\<close>

lemma holder:
  "driver_ok answer d \<Longrightarrow> call_of d g = c \<Longrightarrow> inside c \<Longrightarrow> driverMutex d = Some g"
  by (auto simp: driver_ok_def)

lemma outside:
  "driver_ok answer d \<Longrightarrow> call_of d g = c \<Longrightarrow> \<not> inside c \<Longrightarrow> driverMutex d \<noteq> Some g"
  by (auto simp: driver_ok_def)

lemma flow_outside:
  assumes "flow answer d" "driverMutex d \<noteq> Some g" "\<not> inside c"
  shows "flow answer (set_call g c d)"
  using assms by (auto simp: flow_def holding_def split: option.splits)

lemma call_begins:
  assumes d: "driver_ok answer d" and o: "\<not> inside (call_of d g)" and c: "\<not> inside c" "call_ok answer c"
  shows "driver_ok answer (set_call g c d)"
proof -
  have "driverMutex d \<noteq> Some g" by (rule outside [OF d refl o])
  with flow_outside [OF _ this c(1)] d c show ?thesis by (auto simp: driver_ok_def)
qed

lemma driver_step_ok:
  assumes d: "driver_ok answer d" and can: "driver_can d a" and w: "whole_read a"
  shows "driver_ok answer (driver_step answer d a)"
proof (cases a)
  case (CallRead g p)
  with can have "\<not> inside (call_of d g)" by (auto split: call_state.splits)
  with call_begins [OF d this, of "AtLock True p"] can CallRead show ?thesis by simp
next
  case (CallWrite g p)
  with can have "\<not> inside (call_of d g)" by (auto split: call_state.splits)
  with call_begins [OF d this, of "AtLock False p"] can CallWrite show ?thesis by simp
next
  case (Lock g)
  with can obtain r p where c: "call_of d g = AtLock r p" "driverMutex d = None" by (auto split: call_state.splits)
  with d Lock show ?thesis by (auto simp: driver_ok_def flow_def holding_def) (metis call_ok.simps(2))+
next
  case (Write g)
  with can obtain r p where c: "call_of d g = AtWrite r p" by (auto split: call_state.splits)
  note m = holder [OF d c, simplified]
  from d c have r: "r = is_query p" by (auto simp: driver_ok_def) (metis call_ok.simps(3))+
  from d m c obtain ps where ps: "list_all (\<lambda>p. \<not> is_query p) ps" "to_server d = stream ps" "from_server d = []"
    by (auto simp: driver_ok_def flow_def holding_def)
  have "flow answer (driver_step answer d a)"
  proof (cases r)
    case True
    with Write c m ps show ?thesis by (auto simp: flow_def holding_def intro!: exI [of _ ps])
  next
    case False
    with Write c m ps r show ?thesis by (auto simp: flow_def holding_def intro!: exI [of _ "ps @ [p]"])
  qed
  with d Write c r m show ?thesis by (auto simp: driver_ok_def)
next
  case (Read g n)
  with can w obtain p where c: "call_of d g = AtRead p" "4 \<le> length (from_server d)" "n = 4" by (auto split: call_state.splits)
  note m = holder [OF d c(1), simplified]
  from d m c obtain k where k: "to_server d = []" "from_server d = bytes (answer k p)"
    by (auto simp: driver_ok_def flow_def holding_def)
  moreover have "is_query p" using d c(1) by (auto simp: driver_ok_def) (metis call_ok.simps(4))
  ultimately show ?thesis
    using Read c(1,3) d m by (auto simp: driver_ok_def flow_def holding_def intro!: exI [of _ "[]"])
next
  case (Unlock g)
  with can obtain r p x where c: "call_of d g = AtUnlock r p x" by (auto split: call_state.splits)
  note m = holder [OF d c, simplified]
  from d c have "call_ok answer (Returned r p x)" by (auto simp: driver_ok_def) (metis call_ok.simps(5))+
  with Unlock c m d show ?thesis by (auto simp: driver_ok_def flow_def holding_def)
next
  case (Serve k)
  have len: "4 \<le> length (to_server d)" using can Serve by simp
  from d obtain ps where ps: "list_all (\<lambda>p. \<not> is_query p) ps" "streams answer (holding d) ps (to_server d) (from_server d)"
    by (auto simp: driver_ok_def flow_def)
  have keep: "driver_ok answer (d\<lparr>to_server := t, from_server := f\<rparr>)"
    if "list_all (\<lambda>p. \<not> is_query p) qs" "streams answer (holding d) qs t f" for qs t f
  proof -
    have "holding (d\<lparr>to_server := t, from_server := f\<rparr>) = holding d" by (simp add: holding_def split: option.split)
    with d that show ?thesis by (auto simp: driver_ok_def flow_def)
  qed
  show ?thesis
  proof (cases ps)
    case Nil
    with ps(2) len obtain q where q: "holding d = AtRead q" "to_server d = bytes q" "from_server d = []"
      by (cases "holding d") auto
    then obtain g where "call_of d g = AtRead q" by (auto simp: holding_def split: option.splits)
    then have "is_query q" using d by (auto simp: driver_ok_def) (metis call_ok.simps(4))
    with q keep [of "[]" "[]" "bytes (answer k q)"] Serve show ?thesis by (auto simp: Let_def)
  next
    case (Cons p qs)
    with ps have p: "\<not> is_query p" "list_all (\<lambda>p. \<not> is_query p) qs" by simp_all
    obtain rest where rest: "to_server d = bytes p @ rest" "streams answer (holding d) qs rest []" "from_server d = []"
      using ps(2) Cons by (cases "holding d") auto
    with p(1) keep [OF p(2) rest(2)] Serve show ?thesis by (simp add: Let_def)
  qed
next
  case (ConnectionLost g)
  with d show ?thesis by (simp add: driver_ok_def flow_def holding_def split: option.splits)
qed

lemma driver_start_ok: "driver_ok answer driver_start"
  by (simp add: driver_ok_def flow_def holding_def driver_start_def exI [of _ "[]"])

lemma driver_run_ok: "driver_run whole_read answer d \<Longrightarrow> driver_ok answer d"
  by (induction rule: driver_run.induct) (auto intro: driver_start_ok driver_step_ok)

text \<open>A run given by its actions, every read of all four bytes or not.\<close>

definition driver_acts :: "(nat \<Rightarrow> packet \<Rightarrow> packet) \<Rightarrow> driver_act list \<Rightarrow> driver \<Rightarrow> driver option" where
  "driver_acts answer = fold_opt (\<lambda>a d. if \<not> panicked d \<and> driver_can d a then Some (driver_step answer d a) else None)"

lemma driver_acts_run:
  "driver_acts answer as d = Some d' \<Longrightarrow> driver_run ok answer d \<Longrightarrow> list_all ok as \<Longrightarrow> driver_run ok answer d'"
  unfolding driver_acts_def by (erule fold_opt_inv) (auto simp: list_all_iff split: if_splits intro: driver_next)

section \<open>Properties\<close>

text \<open>C39: The driver's mutex keeps the goroutines apart as long as every \<open>Read\<close> returns the whole answer of
  four bytes: then at most one goroutine is between writing a packet and having read its answer, and
  every value a query returns is the elevator server's answer to that very query, however the
  calls of the pollers and of the elevator's program interleave, until the connection is lost
  and the program panics.\<close>

theorem queries_get_their_answers:
  assumes "driver_run whole_read answer d"
  shows "(inside (call_of d g) \<longrightarrow> inside (call_of d h) \<longrightarrow> g = h) \<and>
    (call_of d g = Returned True p x \<longrightarrow> is_query p \<and> (\<exists>k. x = answer k p))"
proof -
  from driver_run_ok [OF assms] have i: "inside (call_of d g) = (driverMutex d = Some g)" for g
    by (simp add: driver_ok_def)
  moreover from driver_run_ok [OF assms] have "call_ok answer (call_of d g)" by (simp add: driver_ok_def)
  ultimately show ?thesis by auto
qed

definition floor_2 :: "nat \<Rightarrow> packet \<Rightarrow> packet" where
  "floor_2 k p = (case p of (a, b, c, d) \<Rightarrow> if a = 7 then (7, 1, 2, 0) else (a, 0, 0, 0))"

definition two_queries :: "nat \<Rightarrow> driver_act list" where
  "two_queries n =
     [CallRead 1 (7, 0, 0, 0), CallWrite 3 (SetDoorOpenLamp True), CallRead 2 (9, 0, 0, 0),
      Lock 3, Write 3, Unlock 3, Lock 1, Write 1, Serve 0, Serve 0, Read 1 n, Unlock 1,
      Lock 2, Write 2, Serve 0, Read 2 4, Unlock 2]"

lemma two_queries_run:
  "\<exists>d. driver_acts floor_2 (two_queries 4) driver_start = Some d \<and>
     call_of d 1 = Returned True (7, 0, 0, 0) (7, 1, 2, 0) \<and> call_of d 2 = Returned True (9, 0, 0, 0) (9, 0, 0, 0)"
  "\<exists>d. driver_acts floor_2 (two_queries 1) driver_start = Some d \<and>
     call_of d 1 = Returned True (7, 0, 0, 0) (7, 0, 0, 0) \<and> call_of d 2 = Returned True (9, 0, 0, 0) (1, 2, 0, 9)"
  by (simp_all add: driver_acts_def two_queries_def driver_start_def SetDoorOpenLamp_def toByte_def out_array_def
      floor_2_def set_call_def)

theorem queries_get_their_answers_witness:
  "\<exists>d. driver_acts floor_2 (two_queries 4) driver_start = Some d \<and> call_of d 1 = Returned True (7, 0, 0, 0) (7, 1, 2, 0) \<and>
     (\<exists>k. (7, 1, 2, 0) = floor_2 k (7, 0, 0, 0))"
proof -
  obtain d where d: "driver_acts floor_2 (two_queries 4) driver_start = Some d"
    "call_of d 1 = Returned True (7, 0, 0, 0) (7, 1, 2, 0)" using two_queries_run(1) by blast
  have "driver_run whole_read floor_2 d"
    by (rule driver_acts_run [OF d(1) driver_begin]) (simp add: two_queries_def)
  from queries_get_their_answers [OF this, of 1 1] d show ?thesis by blast
qed

text \<open>A short read breaks the driver for good: when the network delivers only the first byte of an
  answer, which a stream connection may, the floor query returns no floor, and the next query is
  given the rest of that answer: the car counts as obstructed although the server says it is not.\<close>

theorem short_read_shifts_answers:
  "\<exists>d x. driver_run (\<lambda>_. True) floor_2 d \<and>
     call_of d 1 = Returned True (7, 0, 0, 0) (7, 0, 0, 0) \<and> GetFloor (\<lambda>p. Some (7, 0, 0, 0)) = Some (-1) \<and>
     call_of d 2 = Returned True (9, 0, 0, 0) x \<and> (\<nexists>k. x = floor_2 k (9, 0, 0, 0)) \<and>
     Obstructed (\<lambda>p. Some x) = Some True \<and> Obstructed (\<lambda>p. Some (floor_2 k p)) = Some False"
proof -
  obtain d where d: "driver_acts floor_2 (two_queries 1) driver_start = Some d"
    "call_of d 1 = Returned True (7, 0, 0, 0) (7, 0, 0, 0)" "call_of d 2 = Returned True (9, 0, 0, 0) (1, 2, 0, 9)"
    using two_queries_run(2) by blast
  have "driver_run (\<lambda>_. True) floor_2 d"
    by (rule driver_acts_run [OF d(1) driver_begin]) (simp add: list_all_iff)
  moreover have "\<nexists>k. (1, 2, 0, 9) = floor_2 k (9, 0, 0, 0)" by (simp add: floor_2_def)
  ultimately show ?thesis
    using d by (intro exI [of _ d] exI [of _ "(1, 2, 0, 9)"]) (simp add: GetFloor_def Obstructed_def toBool_def floor_2_def)
qed

end
