(* ===== verification/Json.thy ===== *)
theory Json
  imports Bcast
begin

text \<open>
  The part of encoding/json that the messages of Network/network/bcast/bcast.go need: the compact text of numbers,
  truth values, arrays and structs with their fields in order, and the struct \<open>typeTaggedJSON\<close>
  around it, whose bytes are written in base 64. Values are decoded at a type, as \<open>json.Unmarshal\<close>
  does with the type of the channel. \<open>time.Time\<close> has an encoding of its own and is left out: it
  drops a monotonic clock reading, so it does not restore every value.
\<close>

section \<open>Values\<close>

datatype GoVal =
    IntV int
  | BoolV bool
  | ArrayV "GoVal list"
  | StructV "GoVal list"

definition number_ok :: "string \<Rightarrow> int \<Rightarrow> bool" where
  "number_ok n i \<longleftrightarrow> (if n = ''uint64'' then 0 \<le> i \<and> i < 2 ^ 64 else n = ''int'' \<and> MIN_INT \<le> i \<and> i \<le> MAX_INT)"

text \<open>The values of a type.\<close>

fun fits :: "GoType \<Rightarrow> GoVal \<Rightarrow> bool" and fits_all :: "(string \<times> GoType) list \<Rightarrow> GoVal list \<Rightarrow> bool" where
  "fits (Named n t) v = (n \<noteq> ''time.Time'' \<and> fits t v)"
| "fits (Basic n) (IntV i) = number_ok n i"
| "fits (Basic n) (BoolV b) = (n = ''bool'')"
| "fits (ArrayT n t) (ArrayV vs) = (length vs = n \<and> list_all (fits t) vs)"
| "fits (StructT fs) (StructV vs) = fits_all fs vs"
| "fits _ _ = False"
| "fits_all [] [] = True"
| "fits_all ((f, t) # fs) (v # vs) = (fits t v \<and> fits_all fs vs)"
| "fits_all _ _ = False"

section \<open>Encoding\<close>

definition quoted :: "string \<Rightarrow> string" where
  "quoted s = [CHR 0x22] @ s @ [CHR 0x22]"

fun commas :: "string list \<Rightarrow> string" where
  "commas [] = ''''"
| "commas [s] = s"
| "commas (s # s' # ss) = s @ '','' @ commas (s' # ss)"

fun encode :: "GoType \<Rightarrow> GoVal \<Rightarrow> string" and encode_fields :: "(string \<times> GoType) list \<Rightarrow> GoVal list \<Rightarrow> string list" where
  "encode (Named n t) v = encode t v"
| "encode (Basic n) (IntV i) = show_int i"
| "encode (Basic n) (BoolV b) = (if b then ''true'' else ''false'')"
| "encode (ArrayT n t) (ArrayV vs) = ''['' @ commas (map (encode t) vs) @ '']''"
| "encode (StructT fs) (StructV vs) = ''{'' @ commas (encode_fields fs vs) @ ''}''"
| "encode _ _ = ''null''"
| "encode_fields ((f, t) # fs) (v # vs) = (quoted f @ '':'' @ encode t v) # encode_fields fs vs"
| "encode_fields _ _ = []"

section \<open>Decoding\<close>

text \<open>A decoder takes what it understands off the front of the text.\<close>

definition expect :: "string \<Rightarrow> string \<Rightarrow> string option" where
  "expect p s = (if take (length p) s = p then Some (drop (length p) s) else None)"

definition number :: "string \<Rightarrow> string \<Rightarrow> (GoVal \<times> string) option" where
  "number n s =
     (let neg = s \<noteq> [] \<and> hd s = CHR ''-''; body = (if neg then tl s else s); ds = takeWhile is_digit body in
      case parse_nat ds of
        None \<Rightarrow> None
      | Some k \<Rightarrow> let i = (if neg then - int k else int k)
                 in if number_ok n i then Some (IntV i, drop (length ds) body) else None)"

definition truth :: "string \<Rightarrow> (GoVal \<times> string) option" where
  "truth s =
     (case expect ''true'' s of
        Some s' \<Rightarrow> Some (BoolV True, s')
      | None \<Rightarrow> (case expect ''false'' s of Some s' \<Rightarrow> Some (BoolV False, s') | None \<Rightarrow> None))"

fun in_sequence :: "(string \<Rightarrow> (GoVal \<times> string) option) list \<Rightarrow> string \<Rightarrow> (GoVal list \<times> string) option" where
  "in_sequence [] s = Some ([], s)"
| "in_sequence [p] s = do { (v, s) \<leftarrow> p s; Some ([v], s) }"
| "in_sequence (p # p' # ps) s = do {
     (v, s) \<leftarrow> p s;
     s \<leftarrow> expect '','' s;
     (vs, s) \<leftarrow> in_sequence (p' # ps) s;
     Some (v # vs, s)
   }"

fun decode :: "GoType \<Rightarrow> string \<Rightarrow> (GoVal \<times> string) option"
  and decode_fields :: "(string \<times> GoType) list \<Rightarrow> (string \<Rightarrow> (GoVal \<times> string) option) list" where
  "decode (Named n t) s = decode t s"
| "decode (Basic n) s = (if n = ''bool'' then truth s else number n s)"
| "decode (ArrayT n t) s = do {
     s \<leftarrow> expect ''['' s;
     (vs, s) \<leftarrow> in_sequence (replicate n (decode t)) s;
     s \<leftarrow> expect '']'' s;
     Some (ArrayV vs, s)
   }"
| "decode (StructT fs) s = do {
     s \<leftarrow> expect ''{'' s;
     (vs, s) \<leftarrow> in_sequence (decode_fields fs) s;
     s \<leftarrow> expect ''}'' s;
     Some (StructV vs, s)
   }"
| "decode _ s = None"
| "decode_fields [] = []"
| "decode_fields ((f, t) # fs) = (\<lambda>s. do { s \<leftarrow> expect (quoted f @ '':'') s; decode t s }) # decode_fields fs"

section \<open>The round trip\<close>

lemma expect_append [simp]: "expect p (p @ s) = Some s"
  by (simp add: expect_def)

text \<open>What follows a value in a message: nothing, or no digit.\<close>

definition ends :: "string \<Rightarrow> bool" where
  "ends s \<longleftrightarrow> s = [] \<or> \<not> is_digit (hd s)"

lemma digits_show_nat: "list_all is_digit (show_nat n)"
proof (induction n rule: show_nat.induct)
  case (1 n)
  then show ?case by (cases "n < 10") (simp_all add: show_nat.simps [of n] is_digit_char)
qed

lemma number_show:
  assumes "number_ok n i" "ends rest"
  shows "number n (show_int i @ rest) = Some (IntV i, rest)"
proof -
  have t: "takeWhile is_digit (show_nat k @ rest) = show_nat k" for k
    using digits_show_nat [of k] assms(2) by (cases rest) (auto simp: ends_def list_all_iff takeWhile_append)
  show ?thesis
  proof (cases "i < 0")
    case True
    with assms(1) show ?thesis by (simp add: number_def show_int_def Let_def t parse_nat_show)
  next
    case False
    moreover have "hd (show_nat (nat i) @ rest) \<noteq> CHR ''-''"
      using sign_not_digit [OF hd_show_nat [of "nat i"]] by (simp add: show_nat_nonempty)
    ultimately show ?thesis using assms(1) by (simp add: number_def show_int_def Let_def t parse_nat_show)
  qed
qed

lemma truth_text: "truth ((if b then ''true'' else ''false'') @ rest) = Some (BoolV b, rest)"
  by (simp add: truth_def expect_def)

text \<open>A decoder that restores a value from its text, whatever follows.\<close>

definition restores :: "(string \<Rightarrow> (GoVal \<times> string) option) \<Rightarrow> GoVal \<Rightarrow> string \<Rightarrow> bool" where
  "restores p v w \<longleftrightarrow> (\<forall>rest. ends rest \<longrightarrow> p (w @ rest) = Some (v, rest))"

lemma sequence_restores:
  assumes "list_all2 (\<lambda>p (v, w). restores p v w) ps (zip vs ws)" "length vs = length ws" "ends rest"
  shows "in_sequence ps (commas ws @ rest) = Some (vs, rest)"
  using assms
proof (induction ps arbitrary: vs ws rule: induct_list012)
  case 1
  then show ?case by (cases vs; cases ws) auto
next
  case (2 p)
  then obtain v w where "vs = [v]" "ws = [w]" "restores p v w"
    by (cases vs; cases ws) (auto simp: list_all2_Cons1)
  with 2(3) show ?case by (simp add: restores_def)
next
  case (3 p p' ps)
  then obtain v vs' w w' ws' where e: "vs = v # vs'" "ws = w # w' # ws'" "restores p v w"
    "list_all2 (\<lambda>p (v, w). restores p v w) (p' # ps) (zip vs' (w' # ws'))" "length vs' = length (w' # ws')"
    by (cases vs; cases ws; cases "tl vs"; cases "tl ws") (auto simp: list_all2_Cons1)
  have "ends (CHR '','' # s)" for s by (simp add: ends_def is_digit_def)
  with e(3) have "p (w @ CHR '','' # s) = Some (v, CHR '','' # s)" for s by (simp add: restores_def)
  moreover have "expect '','' (CHR '','' # s) = Some s" for s by (simp add: expect_def)
  ultimately show ?case using "3.IH"(2) [OF e(4,5) 3(5)] by (simp add: e(1,2))
qed

lemma ends_bracket [simp]: "ends (CHR '']'' # s)" "ends (CHR ''}'' # s)"
  by (simp_all add: ends_def is_digit_def)

lemma expect_bracket [simp]:
  "expect ''['' (CHR ''['' # s) = Some s" "expect '']'' (CHR '']'' # s) = Some s"
  "expect ''{'' (CHR ''{'' # s) = Some s" "expect ''}'' (CHR ''}'' # s) = Some s"
  by (simp_all add: expect_def)

lemma number_not_bool: "number_ok n i \<Longrightarrow> n \<noteq> ''bool''"
  by (auto simp: number_ok_def)

lemma length_encode_fields: "fits_all fs vs \<Longrightarrow> length (encode_fields fs vs) = length vs"
  by (induction fs arbitrary: vs) (auto elim: fits_all.elims)

lemma decode_encode:
  "fits t v \<Longrightarrow> restores (decode t) v (encode t v)"
  "fits_all fs vs \<Longrightarrow> list_all2 (\<lambda>p (v, w). restores p v w) (decode_fields fs) (zip vs (encode_fields fs vs))"
proof (induction t v and fs vs rule: fits_fits_all.induct)
  case (1 n t v)
  then show ?case by (simp add: restores_def)
next
  case (2 n i)
  then show ?case using number_not_bool [of n i] by (simp add: restores_def number_show)
next
  case (3 n b)
  then show ?case by (simp add: restores_def truth_text del: if_split)
next
  case (4 n t vs)
  then have "list_all2 (\<lambda>p (v, w). restores p v w) (replicate n (decode t)) (zip vs (map (encode t) vs))"
    by (auto simp: list_all2_conv_all_nth list_all_iff)
  from sequence_restores [OF this] show ?case by (simp add: restores_def)
next
  case (5 fs vs)
  from sequence_restores [OF 5(1)] 5(2) length_encode_fields [of fs vs] show ?case by (simp add: restores_def)
next
  case (8 f t fs v vs)
  have "expect (quoted f @ '':'') (quoted f @ '':'' @ s) = Some s" for s
    using expect_append [of "quoted f @ '':''" s] by simp
  with 8 show ?case by (simp add: restores_def)
qed simp_all

section \<open>Base 64\<close>

definition alphabet :: string where
  "alphabet = ''ABCDEFGHIJKLMNOPQRSTUVWXYZabcdefghijklmnopqrstuvwxyz0123456789+/''"

definition sextet_char :: "nat \<Rightarrow> char" where
  "sextet_char k = alphabet ! k"

definition char_sextet :: "char \<Rightarrow> nat" where
  "char_sextet c = length (takeWhile (\<lambda>d. d \<noteq> c) alphabet)"

abbreviation (input) byte_of :: "char \<Rightarrow> nat" where "byte_of \<equiv> of_char"

fun base64 :: "string \<Rightarrow> string" where
  "base64 [] = []"
| "base64 [a] = [sextet_char (byte_of a div 4), sextet_char (byte_of a mod 4 * 16), CHR ''='', CHR ''='']"
| "base64 [a, b] =
     [sextet_char (byte_of a div 4), sextet_char (byte_of a mod 4 * 16 + byte_of b div 16),
      sextet_char (byte_of b mod 16 * 4), CHR ''='']"
| "base64 (a # b # c # s) =
     [sextet_char (byte_of a div 4), sextet_char (byte_of a mod 4 * 16 + byte_of b div 16),
      sextet_char (byte_of b mod 16 * 4 + byte_of c div 64), sextet_char (byte_of c mod 64)] @ base64 s"

fun unbase64 :: "string \<Rightarrow> string" where
  "unbase64 (p # q # r # t # s) =
     char_of (char_sextet p * 4 + char_sextet q div 16) #
     (if r = CHR ''='' then []
      else char_of (char_sextet q mod 16 * 16 + char_sextet r div 4) #
        (if t = CHR ''='' then [] else char_of (char_sextet r mod 4 * 64 + char_sextet t) # unbase64 s))"
| "unbase64 _ = []"

lemma index_of_nth: "distinct xs \<Longrightarrow> k < length xs \<Longrightarrow> length (takeWhile (\<lambda>d. d \<noteq> xs ! k) xs) = k"
proof (induction xs arbitrary: k)
  case (Cons x xs)
  then show ?case by (cases k) auto
qed simp

lemma alphabet_facts: "distinct alphabet" "length alphabet = 64" "CHR ''='' \<notin> set alphabet" "CHR 0x22 \<notin> set alphabet"
  by (simp_all add: alphabet_def)

lemma sextet_inverse: "k < 64 \<Longrightarrow> char_sextet (sextet_char k) = k"
  by (simp add: char_sextet_def sextet_char_def index_of_nth alphabet_facts)

lemma sextet_chars: "k < 64 \<Longrightarrow> sextet_char k \<noteq> CHR ''='' \<and> sextet_char k \<noteq> CHR 0x22"
  using alphabet_facts(3,4) nth_mem [of k alphabet, unfolded alphabet_facts(2)] unfolding sextet_char_def by metis

lemma sextet_bounds:
  "byte_of a div 4 < 64" "byte_of a mod 4 * 16 < 64" "byte_of a mod 4 * 16 + byte_of b div 16 < 64"
  "byte_of b mod 16 * 4 < 64" "byte_of b mod 16 * 4 + byte_of c div 64 < 64" "byte_of c mod 64 < 64"
proof -
  have "byte_of a mod 4 < 4" "byte_of b mod 16 < 16" by simp_all
  moreover have "byte_of b div 16 < 16" "byte_of c div 64 < 4" by (rule less_mult_imp_div_less; simp)+
  ultimately
  show "byte_of a mod 4 * 16 + byte_of b div 16 < 64" "byte_of b mod 16 * 4 + byte_of c div 64 < 64"
    "byte_of a mod 4 * 16 < 64" "byte_of b mod 16 * 4 < 64" by linarith+
  show "byte_of a div 4 < 64" by (rule less_mult_imp_div_less) simp
qed simp

lemma digit_split: "y < m \<Longrightarrow> (x * m + y) div m = x" "y < m \<Longrightarrow> (x * m + y) mod m = (y :: nat)"
  by simp_all

lemma bytes_restored:
  "char_of (byte_of a div 4 * 4 + byte_of a mod 4 * 16 div 16) = a"
  "char_of (byte_of a div 4 * 4 + (byte_of a mod 4 * 16 + byte_of b div 16) div 16) = a"
  "char_of ((byte_of a mod 4 * 16 + byte_of b div 16) mod 16 * 16 + byte_of b mod 16 * 4 div 4) = b"
  "char_of ((byte_of a mod 4 * 16 + byte_of b div 16) mod 16 * 16 + (byte_of b mod 16 * 4 + byte_of c div 64) div 4) = b"
  "char_of ((byte_of b mod 16 * 4 + byte_of c div 64) mod 4 * 64 + byte_of c mod 64) = c"
proof -
  have lt: "byte_of b div 16 < 16" "byte_of c div 64 < 4" by (rule less_mult_imp_div_less; simp)+
  have m: "x * 16 div 16 = x" "x * 4 div 4 = x" for x :: nat by simp_all
  show "char_of (byte_of a div 4 * 4 + byte_of a mod 4 * 16 div 16) = a"
    "char_of (byte_of a div 4 * 4 + (byte_of a mod 4 * 16 + byte_of b div 16) div 16) = a"
    "char_of ((byte_of a mod 4 * 16 + byte_of b div 16) mod 16 * 16 + byte_of b mod 16 * 4 div 4) = b"
    "char_of ((byte_of a mod 4 * 16 + byte_of b div 16) mod 16 * 16 + (byte_of b mod 16 * 4 + byte_of c div 64) div 4) = b"
    "char_of ((byte_of b mod 16 * 4 + byte_of c div 64) mod 4 * 64 + byte_of c mod 64) = c"
    by (simp_all only: m digit_split [OF lt(1)] digit_split [OF lt(2)] div_mult_mod_eq char_of_char)
qed

lemma unbase64_base64: "unbase64 (base64 s) = s"
  by (induction s rule: base64.induct)
    (simp_all only: base64.simps unbase64.simps append_Cons append_Nil sextet_inverse [OF sextet_bounds(1)]
      sextet_inverse [OF sextet_bounds(2)] sextet_inverse [OF sextet_bounds(3)] sextet_inverse [OF sextet_bounds(4)]
      sextet_inverse [OF sextet_bounds(5)] sextet_inverse [OF sextet_bounds(6)]
      sextet_chars [OF sextet_bounds(4), THEN conjunct1] sextet_chars [OF sextet_bounds(5), THEN conjunct1]
      sextet_chars [OF sextet_bounds(6), THEN conjunct1] bytes_restored if_False if_True simp_thms)

lemma base64_unquoted: "list_all (\<lambda>c. c \<noteq> CHR 0x22) (base64 s)"
  by (induction s rule: base64.induct)
    (simp_all add: sextet_chars sextet_bounds del: div_less_dividend)

section \<open>The encoding the broadcaster uses\<close>

text \<open>An interface value carries its type; a value that cannot be decoded is left zero.\<close>

fun zero_val :: "GoType \<Rightarrow> GoVal" where
  "zero_val (Named n t) = zero_val t"
| "zero_val (Basic n) = (if n = ''bool'' then BoolV False else IntV 0)"
| "zero_val (ArrayT n t) = ArrayV (replicate n (zero_val t))"
| "zero_val (StructT fs) = StructV (map (\<lambda>ft. zero_val (snd ft)) fs)"
| "zero_val _ = StructV []"

definition json_marshal :: "GoType \<times> GoVal \<Rightarrow> string" where
  "json_marshal tv = encode (fst tv) (snd tv)"

definition json_unmarshal :: "GoType \<Rightarrow> string \<Rightarrow> GoType \<times> GoVal" where
  "json_unmarshal ch s =
     (case elem_type ch of
        None \<Rightarrow> (ch, StructV [])
      | Some t \<Rightarrow> (t, case decode t s of Some (v, []) \<Rightarrow> v | _ \<Rightarrow> zero_val t))"

definition json_tag :: "string \<times> string \<Rightarrow> string" where
  "json_tag tb = ''{'' @ quoted ''TypeId'' @ '':'' @ quoted (fst tb) @ '','' @ quoted ''JSON'' @ '':'' @ quoted (base64 (snd tb)) @ ''}''"

definition json_untag :: "string \<Rightarrow> string \<times> string" where
  "json_untag s =
     (case expect (''{'' @ quoted ''TypeId'' @ '':'' @ [CHR 0x22]) s of
        None \<Rightarrow> ([], [])
      | Some s1 \<Rightarrow>
          let name = takeWhile (\<lambda>c. c \<noteq> CHR 0x22) s1 in
          case expect ([CHR 0x22] @ '','' @ quoted ''JSON'' @ '':'' @ [CHR 0x22]) (drop (length name) s1) of
            None \<Rightarrow> (name, [])
          | Some s2 \<Rightarrow> (name, unbase64 (takeWhile (\<lambda>c. c \<noteq> CHR 0x22) s2)))"

lemma json_untag_tag:
  assumes "CHR 0x22 \<notin> set t"
  shows "json_untag (json_tag (t, b)) = (t, b)"
proof -
  have w: "takeWhile (\<lambda>c. c \<noteq> CHR 0x22) (u @ CHR 0x22 # rest) = u" if "\<forall>c \<in> set u. c \<noteq> CHR 0x22" for u rest
    using that by (induction u) auto
  have "takeWhile (\<lambda>c. c \<noteq> CHR 0x22) (t @ CHR 0x22 # rest) = t" for rest by (rule w) (use assms in auto)
  then show ?thesis
    using w [OF base64_unquoted [of b, unfolded list_all_iff]]
    by (simp add: json_untag_def json_tag_def quoted_def expect_def Let_def unbase64_base64)
qed

lemma json_restores:
  assumes "fits t v"
  shows "json_unmarshal (ChanT t) (json_marshal (t, v)) = (t, v)"
proof -
  have "decode t (encode t v) = Some (v, [])"
    using decode_encode(1) [OF assms] by (force simp: restores_def ends_def)
  then show ?thesis by (simp add: json_unmarshal_def json_marshal_def elem_type_def)
qed

end
