(* ===== verification/Wiring.thy ===== *)
theory Wiring
  imports Json
begin

text \<open>
  The Go types of the messages (Network/messages/messagetypes.go, elevator/elevator_sys.go) as
  package reflect shows them, and the channels that \<open>MakeNode\<close> of node/node.go gives to the
  broadcaster and the receiver. \<open>Time_type\<close> is the library's \<open>time.Time\<close>, which a connection
  request carries.
\<close>

abbreviation (input) int_type :: GoType where "int_type \<equiv> Basic ''int''"

abbreviation (input) bool_type :: GoType where "bool_type \<equiv> Basic ''bool''"

abbreviation (input) uint64_type :: GoType where "uint64_type \<equiv> Basic ''uint64''"

abbreviation (input) string_type :: GoType where "string_type \<equiv> Basic ''string''"

definition hall_type :: GoType where
  "hall_type = ArrayT 4 (ArrayT 2 bool_type)"

definition zone_type :: GoType where
  "zone_type = Named ''time.zone''
     (StructT [(''name'', string_type), (''offset'', int_type), (''isDST'', bool_type)])"

definition zoneTrans_type :: GoType where
  "zoneTrans_type = Named ''time.zoneTrans''
     (StructT [(''when'', Basic ''int64''), (''index'', Basic ''uint8''),
               (''isstd'', bool_type), (''isutc'', bool_type)])"

definition Location_type :: GoType where
  "Location_type = Named ''time.Location''
     (StructT [(''name'', string_type), (''zone'', SliceT zone_type), (''tx'', SliceT zoneTrans_type),
               (''extend'', string_type), (''cacheStart'', Basic ''int64''), (''cacheEnd'', Basic ''int64''),
               (''cacheZone'', PtrT zone_type)])"

definition Time_type :: GoType where
  "Time_type = Named ''time.Time''
     (StructT [(''wall'', uint64_type), (''ext'', Basic ''int64''), (''loc'', PtrT Location_type)])"

definition ButtonType_type :: GoType where
  "ButtonType_type = Named ''elevator.ButtonType'' int_type"

definition ElevatorState_type :: GoType where
  "ElevatorState_type = Named ''elevator.ElevatorState''
     (StructT [(''Floor'', int_type), (''Direction'', Named ''elevator.MotorDirection'' int_type),
               (''Behavior'', Named ''elevator.ElevatorBehavior'' int_type),
               (''CabRequests'', ArrayT 4 bool_type)])"

definition Ack_type :: GoType where
  "Ack_type = Named ''messages.Ack'' (StructT [(''MessageID'', uint64_type), (''NodeID'', int_type)])"

definition CabRequestInfo_type :: GoType where
  "CabRequestInfo_type = Named ''messages.CabRequestInfo''
     (StructT [(''CabRequest'', ArrayT 4 bool_type), (''ReceiverNodeID'', int_type)])"

definition GlobalHallRequest_type :: GoType where
  "GlobalHallRequest_type = Named ''messages.GlobalHallRequest'' (StructT [(''HallRequests'', hall_type)])"

definition NodeElevState_type :: GoType where
  "NodeElevState_type = Named ''messages.NodeElevState''
     (StructT [(''NodeID'', int_type), (''ElevState'', ElevatorState_type)])"

definition ConnectionReq_type :: GoType where
  "ConnectionReq_type = Named ''messages.ConnectionReq''
     (StructT [(''TOLC'', Time_type), (''NodeID'', int_type), (''MessageID'', uint64_type)])"

definition NewHallAssignments_type :: GoType where
  "NewHallAssignments_type = Named ''messages.NewHallAssignments''
     (StructT [(''NodeID'', int_type), (''HallAssignment'', hall_type), (''MessageID'', uint64_type)])"

definition NewHallRequest_type :: GoType where
  "NewHallRequest_type = Named ''messages.NewHallRequest''
     (StructT [(''Floor'', int_type), (''HallButton'', ButtonType_type)])"

definition HallAssignmentComplete_type :: GoType where
  "HallAssignmentComplete_type = Named ''messages.HallAssignmentComplete''
     (StructT [(''Floor'', int_type), (''HallButton'', ButtonType_type), (''MessageID'', uint64_type)])"

lemmas type_defs = hall_type_def zone_type_def zoneTrans_type_def Location_type_def Time_type_def
  ButtonType_type_def ElevatorState_type_def Ack_type_def CabRequestInfo_type_def GlobalHallRequest_type_def
  NodeElevState_type_def ConnectionReq_type_def NewHallAssignments_type_def NewHallRequest_type_def
  HallAssignmentComplete_type_def

text \<open>The channels, in the order of the calls in \<open>MakeNode\<close>.\<close>

definition broadcaster_chans :: "GoType list" where
  "broadcaster_chans = map ChanT [Ack_type, NodeElevState_type, HallAssignmentComplete_type,
     NewHallAssignments_type, CabRequestInfo_type, GlobalHallRequest_type, ConnectionReq_type,
     NewHallRequest_type]"

definition receiver_chans :: "GoType list" where
  "receiver_chans = map ChanT [Ack_type, NodeElevState_type, NewHallAssignments_type, NewHallRequest_type,
     CabRequestInfo_type, GlobalHallRequest_type, ConnectionReq_type, HallAssignmentComplete_type]"

lemma message_names:
  "type_name Ack_type = ''messages.Ack''"
  "type_name NodeElevState_type = ''messages.NodeElevState''"
  "type_name HallAssignmentComplete_type = ''messages.HallAssignmentComplete''"
  "type_name NewHallAssignments_type = ''messages.NewHallAssignments''"
  "type_name CabRequestInfo_type = ''messages.CabRequestInfo''"
  "type_name GlobalHallRequest_type = ''messages.GlobalHallRequest''"
  "type_name ConnectionReq_type = ''messages.ConnectionReq''"
  "type_name NewHallRequest_type = ''messages.NewHallRequest''"
  by (simp_all add: type_defs)

lemma elem_chan: "elem_name (ChanT t) = type_name t" "elem_type (ChanT t) = Some t"
  by (simp_all add: elem_name_def elem_type_def)

lemma type_names_distinct: "distinct (map elem_name receiver_chans)"
  by (simp add: receiver_chans_def elem_chan message_names)

text \<open>Channels with different names keep their own entry of the map.\<close>

lemma chansMap_lookup:
  assumes "distinct (map elem_name chans)" "ch \<in> set chans"
  shows "map_of (chansMap chans) (elem_name ch) = Some ch"
proof -
  have "map_of (fold (\<lambda>ch. AList.update (elem_name ch) ch) chans acc) (elem_name ch) =
      (if ch \<in> set chans then Some ch else map_of acc (elem_name ch))"
    if "distinct (map elem_name chans)" "elem_name ch \<in> elem_name ` set chans \<longrightarrow> ch \<in> set chans" for acc
    using that
  proof (induction chans arbitrary: acc)
    case Nil
    then show ?case by simp
  next
    case (Cons c cs)
    show ?case
    proof (cases "ch \<in> set cs")
      case True
      with Cons show ?thesis by (auto simp: map_laws)
    next
      case False
      with Cons.prems have "elem_name ch \<notin> elem_name ` set cs" by (metis distinct.simps(2) image_eqI image_insert insert_iff list.set(2) list.simps(9) set_map)
      with Cons False show ?thesis by (auto simp: map_laws)
    qed
  qed
  from this [of "[]"] assms show ?thesis by (simp add: chansMap_def)
qed

lemma same_channels: "set broadcaster_chans = set receiver_chans"
  by (auto simp: broadcaster_chans_def receiver_chans_def)

lemma message_types_json:
  "json_ok Ack_type" "json_ok NodeElevState_type" "json_ok HallAssignmentComplete_type"
  "json_ok NewHallAssignments_type" "json_ok CabRequestInfo_type" "json_ok GlobalHallRequest_type"
  "json_ok ConnectionReq_type" "json_ok NewHallRequest_type"
  by (simp_all add: type_defs)

lemma checkArgs_chans:
  assumes "distinct (map type_name ts)" "\<forall>t \<in> set ts. json_ok t"
  shows "checkArgs (map ChanT ts) = Inr ()"
  unfolding checkArgs_iff using assms
  by (intro exI [of _ ts]) (simp add: elem_chan distinct_map)

lemma wiring_checks: "checkArgs broadcaster_chans = Inr ()" "checkArgs receiver_chans = Inr ()"
  unfolding broadcaster_chans_def receiver_chans_def
  by (rule checkArgs_chans; simp add: message_names message_types_json)+

section \<open>Properties\<close>

text \<open>
  The messages other than connection requests can be decoded from their JSON text at their own type,
  so for them the encoding of theory Json meets the hypotheses of the property below.
\<close>

lemma messages_restored:
  assumes "ChanT t \<in> set broadcaster_chans"
  shows "fits t v \<Longrightarrow> json_unmarshal (ChanT t) (json_marshal (t, v)) = (t, v)"
    and "json_untag (json_tag (elem_name (ChanT t), s)) = (elem_name (ChanT t), s)"
proof -
  have "CHR 0x22 \<notin> set (elem_name (ChanT t))"
    using assms by (auto simp: broadcaster_chans_def elem_chan message_names)
  then show "json_untag (json_tag (elem_name (ChanT t), s)) = (elem_name (ChanT t), s)" by (rule json_untag_tag)
qed (rule json_restores)

text \<open>C38: The channels the node gives to the broadcaster and to the receiver pass the check, and a
  message sent on one node's broadcasting channel comes out of the other node's receiving channel of
  the same type and no other, unchanged, provided the packet fits the buffer, the tagged packet can be
  taken apart again, and the message can be decoded at its own type from its own text. Nothing is
  assumed of decoding it at another type. JSON meets this for every value of the seven message types
  without a time; a connection request's time loses its monotonic clock reading.\<close>

theorem broadcast_received:
  assumes "chosen < length broadcaster_chans"
    and "untag (tag (elem_name (broadcaster_chans ! chosen), marshal v)) = (elem_name (broadcaster_chans ! chosen), marshal v)"
    and "unmarshal (broadcaster_chans ! chosen) (marshal v) = v"
    and "Broadcaster_step marshal tag (map elem_name broadcaster_chans) chosen v = Some packet"
  shows "checkArgs broadcaster_chans = Inr () \<and> checkArgs receiver_chans = Inr () \<and>
    Receiver_step unmarshal untag (chansMap receiver_chans) packet = Some (broadcaster_chans ! chosen, v)"
proof -
  let ?ch = "broadcaster_chans ! chosen"
  from assms(1,4) have p: "packet = tag (elem_name ?ch, marshal v)" "length packet \<le> BUF_SIZE"
    by (auto simp: Broadcaster_step_def Let_def split: if_splits)
  have "?ch \<in> set receiver_chans" using nth_mem [OF assms(1)] same_channels by simp
  from chansMap_lookup [OF type_names_distinct this] p
  show ?thesis by (simp add: Receiver_step_def assms(2,3) wiring_checks)
qed

text \<open>A hall call of floor 2 going up, as the eighth channel's message: it is the JSON text of its two fields.\<close>

definition call_value :: "GoType \<times> GoVal" where
  "call_value = (NewHallRequest_type, StructV [IntV 2, IntV 0])"

lemma call_text: "json_marshal call_value = ''{'' @ quoted ''Floor'' @ '':2,'' @ quoted ''HallButton'' @ '':0}''"
  by code_simp

definition call_packet :: string where
  "call_packet = json_tag (''messages.NewHallRequest'', json_marshal call_value)"

theorem broadcast_received_witness:
  "Broadcaster_step json_marshal json_tag (map elem_name broadcaster_chans) 7 call_value = Some call_packet \<and>
   Receiver_step json_unmarshal json_untag (chansMap receiver_chans) call_packet = Some (ChanT NewHallRequest_type, call_value) \<and>
   json_unmarshal (ChanT Ack_type) (json_marshal call_value) \<noteq> call_value"
proof -
  have ch: "broadcaster_chans ! 7 = ChanT NewHallRequest_type" by (simp add: broadcaster_chans_def)
  have name: "elem_name (ChanT NewHallRequest_type) = ''messages.NewHallRequest''" by (simp add: elem_chan message_names)
  have "Broadcaster_step json_marshal json_tag (map elem_name broadcaster_chans) 7 call_value = Some call_packet"
    by (simp add: Broadcaster_step_def ch name broadcaster_chans_def call_packet_def call_text json_tag_def quoted_def
        elem_chan message_names)
  moreover have "fits NewHallRequest_type (StructV [IntV 2, IntV 0])"
    by (simp add: NewHallRequest_type_def ButtonType_type_def number_ok_def)
  then have "json_unmarshal (ChanT NewHallRequest_type) (json_marshal call_value) = call_value"
    by (simp add: call_value_def json_restores)
  moreover have "json_untag (json_tag (''messages.NewHallRequest'', s)) = (''messages.NewHallRequest'', s)" for s
    by (simp add: json_untag_tag)
  moreover have "json_unmarshal (ChanT Ack_type) (json_marshal call_value) \<noteq> call_value"
    by (auto simp: json_unmarshal_def call_value_def elem_chan type_defs split: option.splits)
  ultimately show ?thesis
    using broadcast_received [of 7 json_untag json_tag json_marshal call_value json_unmarshal call_packet]
    by (simp add: ch name broadcaster_chans_def)
qed

end
