(* ===== verification/Peers.thy ===== *)
theory Peers
  imports Go_Time "HOL-Library.Char_ord" "HOL-Library.List_Lexorder"
begin

text \<open>
  Network/network/peers/peers.go: the peers heard of within a timeout. \<open>Receiver\<close> is one
  iteration of its loop per packet, the empty string standing for a read that timed out;
  \<open>Transmitter\<close> is one iteration per case of its \<open>select\<close>. Strings are ordered by their bytes.
\<close>

section \<open>Operations\<close>

record PeerUpdate =
  pu_Peers :: "string list"
  pu_New :: string
  pu_Lost :: "string list"

definition PEER_INTERVAL :: Duration where
  "PEER_INTERVAL = 15 * Millisecond"

definition PEER_TIMEOUT :: Duration where
  "PEER_TIMEOUT = 500 * Millisecond"

datatype transmitter_in = TransmitEnable bool | IntervalPassed

text \<open>The new value of \<open>enable\<close>, and whether the identifier is written to the socket.\<close>

fun peers_Transmitter_step :: "bool \<Rightarrow> transmitter_in \<Rightarrow> bool \<times> bool" where
  "peers_Transmitter_step enable (TransmitEnable e) = (e, e)"
| "peers_Transmitter_step enable IntervalPassed = (enable, enable)"

text \<open>The loop over \<open>lastSeen\<close> that collects and deletes the dead connections.\<close>

fun dead_loop :: "Time \<Rightarrow> (string, Time) gomap \<Rightarrow> bool \<times> string list \<times> (string, Time) gomap \<Rightarrow>
    bool \<times> string list \<times> (string, Time) gomap" where
  "dead_loop now [] acc = acc"
| "dead_loop now ((k, v) # rest) (updated, lost, seen) =
     dead_loop now rest
       (if PEER_TIMEOUT < Sub now v then (True, lost @ [k], AList.delete k seen) else (updated, lost, seen))"

definition peers_Receiver_step :: "Time \<Rightarrow> (string, Time) gomap \<Rightarrow> string \<Rightarrow> (string, Time) gomap \<times> PeerUpdate option" where
  "peers_Receiver_step now lastSeen nid =
     (let new = (if nid \<noteq> '''' \<and> map_of lastSeen nid = None then nid else '''');
          updated = (nid \<noteq> '''' \<and> map_of lastSeen nid = None);
          lastSeen = (if nid \<noteq> '''' then AList.update nid now lastSeen else lastSeen);
          (updated, lost, lastSeen) = dead_loop now lastSeen (updated, [], lastSeen)
      in (lastSeen,
          if updated then Some \<lparr>pu_Peers = sort (map fst lastSeen), pu_New = new, pu_Lost = sort lost\<rparr> else None))"

section \<open>What an iteration does\<close>

definition alive :: "Time \<Rightarrow> Time \<Rightarrow> bool" where
  "alive now v \<longleftrightarrow> \<not> PEER_TIMEOUT < Sub now v"

definition dead_key :: "Time \<Rightarrow> (string, Time) gomap \<Rightarrow> string \<Rightarrow> bool" where
  "dead_key now m k = (case map_of m k of Some v \<Rightarrow> \<not> alive now v | None \<Rightarrow> False)"

lemma dead_key_simps [simp]:
  "dead_key now [] k = False"
  "dead_key now ((n, t) # m) k = (if k = n then \<not> alive now t else dead_key now m k)"
  by (simp_all add: dead_key_def)

lemma dead_loop_result:
  assumes "valid_map m" "valid_map seen"
  shows "\<exists>seen'. dead_loop now m (u, lost, seen) =
      (u \<or> list_ex (\<lambda>(k, v). \<not> alive now v) m, lost @ map fst (filter (\<lambda>(k, v). \<not> alive now v) m), seen') \<and>
    valid_map seen' \<and> (\<forall>k. map_of seen' k = (if dead_key now m k then None else map_of seen k))"
  using assms
proof (induction m arbitrary: u lost seen)
  case Nil
  then show ?case by simp
next
  case (Cons p m)
  obtain n t where p: "p = (n, t)" by fastforce
  have v: "valid_map m" "\<not> dead_key now m n"
    using Cons.prems by (auto simp: valid_map_def p dead_key_def map_of_eq_None_iff [THEN iffD2] split: option.splits)
  show ?case
  proof (cases "alive now t")
    case True
    then have go: "dead_loop now (p # m) (u, lost, seen) = dead_loop now m (u, lost, seen)"
      by (simp add: p alive_def)
    show ?thesis unfolding go
      using Cons.IH [OF v(1) Cons.prems(2), of u lost] True v(2) by (auto simp: p)
  next
    case False
    then have go: "dead_loop now (p # m) (u, lost, seen) = dead_loop now m (True, lost @ [n], AList.delete n seen)"
      by (simp add: p alive_def)
    have "valid_map (AList.delete n seen)" using Cons.prems(2) by (simp add: map_laws)
    from Cons.IH [OF v(1) this, of True "lost @ [n]"] show ?thesis
      unfolding go using False v(2) Cons.prems(2) by (auto simp: p map_laws)
  qed
qed

text \<open>The connections after the packet, before the dead ones are removed.\<close>

definition heard :: "Time \<Rightarrow> (string, Time) gomap \<Rightarrow> string \<Rightarrow> (string, Time) gomap" where
  "heard now seen nid = (if nid \<noteq> '''' then AList.update nid now seen else seen)"

lemma receiver_result:
  assumes "valid_map seen"
  obtains seen' upd where
    "peers_Receiver_step now seen nid = (seen', upd)" "valid_map seen'"
    "\<And>k. map_of seen' k = (case map_of (heard now seen nid) k of Some v \<Rightarrow> if alive now v then Some v else None | None \<Rightarrow> None)"
    "upd = (if (nid \<noteq> '''' \<and> map_of seen nid = None) \<or> list_ex (\<lambda>(k, v). \<not> alive now v) (heard now seen nid)
            then Some \<lparr>pu_Peers = sort (map fst seen'),
                       pu_New = (if nid \<noteq> '''' \<and> map_of seen nid = None then nid else ''''),
                       pu_Lost = sort (map fst (filter (\<lambda>(k, v). \<not> alive now v) (heard now seen nid)))\<rparr>
            else None)"
proof -
  have v: "valid_map (heard now seen nid)" using assms(1) by (simp add: heard_def map_laws)
  from dead_loop_result [OF v v, of now "nid \<noteq> '''' \<and> map_of seen nid = None" "[]"] obtain seen' where
    d: "dead_loop now (heard now seen nid) (nid \<noteq> '''' \<and> map_of seen nid = None, [], heard now seen nid) =
       ((nid \<noteq> '''' \<and> map_of seen nid = None) \<or> list_ex (\<lambda>(k, v). \<not> alive now v) (heard now seen nid),
        map fst (filter (\<lambda>(k, v). \<not> alive now v) (heard now seen nid)), seen')"
    and s: "valid_map seen'"
      "\<And>k. map_of seen' k = (if dead_key now (heard now seen nid) k then None else map_of (heard now seen nid) k)"
    by auto
  show ?thesis
  proof (rule that)
    show "peers_Receiver_step now seen nid = (seen',
      (if (nid \<noteq> '''' \<and> map_of seen nid = None) \<or> list_ex (\<lambda>(k, v). \<not> alive now v) (heard now seen nid)
            then Some \<lparr>pu_Peers = sort (map fst seen'),
                       pu_New = (if nid \<noteq> '''' \<and> map_of seen nid = None then nid else ''''),
                       pu_Lost = sort (map fst (filter (\<lambda>(k, v). \<not> alive now v) (heard now seen nid)))\<rparr>
            else None))"
      using d unfolding peers_Receiver_step_def heard_def Let_def by (simp only: prod.case)
    show "valid_map seen'" by (rule s(1))
    show "map_of seen' k = (case map_of (heard now seen nid) k of Some v \<Rightarrow> if alive now v then Some v else None | None \<Rightarrow> None)" for k
      using s(2) [of k] by (simp add: dead_key_def split: option.splits)
  qed simp
qed

section \<open>Properties\<close>

text \<open>After every packet or read timeout the peers are exactly those heard within the timeout; an
  update is sent exactly when a peer is new or has been lost, it lists the peers and the lost ones
  in ascending order without repetition, and names the new peer.\<close>

theorem peers_exact:
  assumes "valid_map seen"
  shows "\<exists>seen' upd. peers_Receiver_step now seen nid = (seen', upd) \<and> valid_map seen' \<and>
    (\<forall>k t. map_of seen' k = Some t \<longleftrightarrow> map_of (heard now seen nid) k = Some t \<and> Sub now t \<le> PEER_TIMEOUT) \<and>
    (upd = None \<longleftrightarrow> (nid = '''' \<or> map_of seen nid \<noteq> None) \<and> list_all (\<lambda>(k, t). Sub now t \<le> PEER_TIMEOUT) (heard now seen nid)) \<and>
    (\<forall>u. upd = Some u \<longrightarrow> sorted (pu_Peers u) \<and> distinct (pu_Peers u) \<and> set (pu_Peers u) = map_keys seen' \<and>
       sorted (pu_Lost u) \<and> distinct (pu_Lost u) \<and> set (pu_Lost u) = map_keys (heard now seen nid) - map_keys seen' \<and>
       pu_New u = (if map_of seen nid = None then nid else ''''))"
proof (rule receiver_result [OF assms, of now nid])
  fix seen' upd
  assume r: "peers_Receiver_step now seen nid = (seen', upd)" "valid_map seen'"
    "\<And>k. map_of seen' k = (case map_of (heard now seen nid) k of Some v \<Rightarrow> if alive now v then Some v else None | None \<Rightarrow> None)"
    "upd = (if (nid \<noteq> '''' \<and> map_of seen nid = None) \<or> list_ex (\<lambda>(k, v). \<not> alive now v) (heard now seen nid)
            then Some \<lparr>pu_Peers = sort (map fst seen'),
                       pu_New = (if nid \<noteq> '''' \<and> map_of seen nid = None then nid else ''''),
                       pu_Lost = sort (map fst (filter (\<lambda>(k, v). \<not> alive now v) (heard now seen nid)))\<rparr>
            else None)"
  have v: "valid_map (heard now seen nid)" using assms by (simp add: heard_def map_laws)
  have look: "map_of seen' k = Some t \<longleftrightarrow> map_of (heard now seen nid) k = Some t \<and> Sub now t \<le> PEER_TIMEOUT" for k t
    using r(3) [of k] by (auto simp: alive_def not_less split: option.splits)
  have none: "upd = None \<longleftrightarrow> (nid = '''' \<or> map_of seen nid \<noteq> None) \<and> list_all (\<lambda>(k, t). Sub now t \<le> PEER_TIMEOUT) (heard now seen nid)"
    unfolding r(4) by (auto simp: list_all_iff list_ex_iff alive_def not_less)
  have lost: "set (map fst (filter (\<lambda>(k, v). \<not> alive now v) (heard now seen nid))) = map_keys (heard now seen nid) - map_keys seen'"
  proof (rule set_eqI)
    fix k
    have "k \<in> map_keys seen' \<longleftrightarrow> (\<exists>t. map_of (heard now seen nid) k = Some t \<and> alive now t)"
      using gomap.keys_lookup [of k seen'] r(3) [of k] by (simp split: option.splits)
    moreover have "k \<in> map_keys (heard now seen nid) \<longleftrightarrow> (\<exists>t. map_of (heard now seen nid) k = Some t)"
      using gomap.keys_lookup [of k "heard now seen nid"] by simp
    moreover have "k \<in> set (map fst (filter (\<lambda>(k, v). \<not> alive now v) (heard now seen nid))) \<longleftrightarrow>
        (\<exists>t. map_of (heard now seen nid) k = Some t \<and> \<not> alive now t)"
      using in_map_iff [OF v, of k] by force
    ultimately show "k \<in> set (map fst (filter (\<lambda>(k, v). \<not> alive now v) (heard now seen nid))) \<longleftrightarrow>
        k \<in> map_keys (heard now seen nid) - map_keys seen'" by auto
  qed
  have upd: "sorted (pu_Peers u) \<and> distinct (pu_Peers u) \<and> set (pu_Peers u) = map_keys seen' \<and>
       sorted (pu_Lost u) \<and> distinct (pu_Lost u) \<and> set (pu_Lost u) = map_keys (heard now seen nid) - map_keys seen' \<and>
       pu_New u = (if map_of seen nid = None then nid else '''')" if "upd = Some u" for u
  proof -
    have "u = \<lparr>pu_Peers = sort (map fst seen'), pu_New = (if nid \<noteq> '''' \<and> map_of seen nid = None then nid else ''''),
        pu_Lost = sort (map fst (filter (\<lambda>(k, v). \<not> alive now v) (heard now seen nid)))\<rparr>"
      using that unfolding r(4) by (auto split: if_splits)
    moreover have "distinct (map fst (filter (\<lambda>(k, v). \<not> alive now v) (heard now seen nid)))"
      using v unfolding valid_map_def by (rule distinct_map_filter)
    ultimately show ?thesis using r(2) lost by (simp add: valid_map_def map_keys_def)
  qed
  from r(1,2) look none upd show ?thesis by blast
qed

theorem peers_exact_witness:
  "\<exists>seen'. fst (peers_Receiver_step (Instant 600000000) [(''a'', 0), (''b'', Instant 500000000)] '''') = seen' \<and>
     map_of seen' ''b'' = Some (Instant 500000000) \<and> map_of seen' ''a'' = None"
proof -
  let ?m = "[(''a'', 0), (''b'', Instant 500000000)]"
  have "valid_map ?m" by (simp add: valid_map_def)
  from peers_exact [OF this, of "Instant 600000000" "''''"] obtain seen' upd where
    s: "peers_Receiver_step (Instant 600000000) ?m '''' = (seen', upd)" and
    l: "\<And>k t. map_of seen' k = Some t \<longleftrightarrow> map_of (heard (Instant 600000000) ?m '''') k = Some t \<and> Sub (Instant 600000000) t \<le> PEER_TIMEOUT"
    by blast
  have "map_of seen' ''b'' = Some (Instant 500000000)"
    unfolding l by (simp add: heard_def Sub_def PEER_TIMEOUT_def)
  moreover have "map_of seen' ''a'' \<noteq> Some t" for t
    unfolding l by (auto simp: heard_def Sub_def PEER_TIMEOUT_def zero_Time_def)
  ultimately show ?thesis using s by (cases "map_of seen' ''a''") auto
qed

end
