(* ===== verification/Localip.thy ===== *)
theory Localip
  imports Main
begin

text \<open>
  Network/network/localip/localip.go: the machine's address, looked up once. \<open>dial\<close> is the
  local end of the probing connection as text, \<open>None\<close> when it cannot be made; the state is the
  package variable \<open>localIP\<close>.
\<close>

definition LocalIP :: "string option \<Rightarrow> string \<Rightarrow> string \<times> string option" where
  "LocalIP dial localIP =
     (if localIP = '''' then
        case dial of
          None \<Rightarrow> (localIP, None)
        | Some addr \<Rightarrow> let ip = takeWhile (\<lambda>c. c \<noteq> CHR '':'') addr in (ip, Some ip)
      else (localIP, Some localIP))"

text \<open>An address once found is kept, whatever later attempts would give.\<close>

lemma LocalIP_kept:
  "LocalIP (Some addr) c = (c', Some ip) \<Longrightarrow> ip \<noteq> '''' \<Longrightarrow> LocalIP dial c' = (ip, Some ip)"
  by (auto simp: LocalIP_def Let_def split: if_splits)

end
