(* ===== verification/Conn.thy ===== *)
theory Conn
  imports Strconv
begin

text \<open>
  \<open>DialBroadcastUDP\<close> of Network/network/conn, in its three versions bcast_conn_linux.go,
  bcast_conn_darwin.go and bcast_conn_windows.go. The system calls are parameters: each takes and
  returns the state \<open>'w\<close> of the operating system and returns what Go's wrapper returns, an error
  as a text. The result is the connection (\<open>None\<close> is a nil interface) and the lines printed.
\<close>

section \<open>System calls\<close>

datatype sockopt = SO_REUSEADDR | SO_BROADCAST | SO_REUSEPORT

type_synonym goerror = "string option"
type_synonym connection = nat

record 'w os_calls =
  sys_Socket :: "'w \<Rightarrow> 'w \<times> int \<times> goerror"
  sys_SetsockoptInt :: "int \<Rightarrow> sockopt \<Rightarrow> int \<Rightarrow> 'w \<Rightarrow> 'w \<times> goerror"
  sys_Bind :: "int \<Rightarrow> int \<Rightarrow> 'w \<Rightarrow> 'w \<times> goerror"
  sys_FilePacketConn :: "int \<Rightarrow> 'w \<Rightarrow> 'w \<times> connection option \<times> goerror"
  sys_Close :: "int \<Rightarrow> 'w \<Rightarrow> 'w"
  sys_ListenPacket :: "(int \<Rightarrow> 'w \<Rightarrow> 'w) \<Rightarrow> string \<Rightarrow> string \<Rightarrow> 'w \<Rightarrow> 'w \<times> connection option \<times> goerror"

definition report :: "string \<Rightarrow> goerror \<Rightarrow> (string \<times> string) list" where
  "report what err = (case err of None \<Rightarrow> [] | Some e \<Rightarrow> [(what, e)])"

section \<open>The three versions\<close>

text \<open>\<open>err\<close> is the variable of the call to \<open>Socket\<close>; the results of the later calls are not assigned to it.\<close>

definition DialBroadcastUDP_linux :: "'w os_calls \<Rightarrow> int \<Rightarrow> 'w \<Rightarrow> 'w \<times> connection option \<times> (string \<times> string) list" where
  "DialBroadcastUDP_linux os port w =
     (let (w, s, err) = sys_Socket os w;
          l1 = report ''Error: Socket:'' err;
          (w, ignored) = sys_SetsockoptInt os s SO_REUSEADDR 1 w;
          l2 = report ''Error: SetSockOpt REUSEADDR:'' err;
          (w, ignored) = sys_SetsockoptInt os s SO_BROADCAST 1 w;
          l3 = report ''Error: SetSockOpt BROADCAST:'' err;
          (w, ignored) = sys_Bind os s port w;
          l4 = report ''Error: Bind:'' err;
          (w, conn, err) = sys_FilePacketConn os s w;
          l5 = report ''Error: FilePacketConn:'' err;
          w = sys_Close os s w
      in (w, conn, l1 @ l2 @ l3 @ l4 @ l5))"

definition DialBroadcastUDP_darwin :: "'w os_calls \<Rightarrow> int \<Rightarrow> 'w \<Rightarrow> 'w \<times> connection option \<times> (string \<times> string) list" where
  "DialBroadcastUDP_darwin os port w =
     (let (w, s, err) = sys_Socket os w;
          l1 = report ''Error: Socket:'' err;
          (w, ignored) = sys_SetsockoptInt os s SO_REUSEADDR 1 w;
          l2 = report ''Error: SetSockOpt REUSEADDR:'' err;
          (w, ignored) = sys_SetsockoptInt os s SO_BROADCAST 1 w;
          l3 = report ''Error: SetSockOpt BROADCAST:'' err;
          (w, ignored) = sys_SetsockoptInt os s SO_REUSEPORT 1 w;
          l4 = report ''Error: SetSockOpt REUSEPORT:'' err;
          (w, ignored) = sys_Bind os s port w;
          l5 = report ''Error: Bind:'' err;
          (w, conn, err) = sys_FilePacketConn os s w;
          l6 = report ''Error: FilePacketConn:'' err;
          w = sys_Close os s w
      in (w, conn, l1 @ l2 @ l3 @ l4 @ l5 @ l6))"

text \<open>The callback that sets the options on the descriptor before the socket is bound.\<close>

definition windows_control :: "'w os_calls \<Rightarrow> int \<Rightarrow> 'w \<Rightarrow> 'w" where
  "windows_control os descriptor w =
     (let (w, ignored) = sys_SetsockoptInt os descriptor SO_REUSEADDR 1 w;
          (w, ignored) = sys_SetsockoptInt os descriptor SO_BROADCAST 1 w
      in w)"

definition DialBroadcastUDP_windows :: "'w os_calls \<Rightarrow> int \<Rightarrow> 'w \<Rightarrow> 'w \<times> connection option \<times> (string \<times> string) list" where
  "DialBroadcastUDP_windows os port w =
     (let (w, conn, err) = sys_ListenPacket os (windows_control os) ''udp4'' ('':'' @ show_int port) w
      in (w, conn, report ''Error: net.ListenConfig.ListenPacket:'' err))"

section \<open>Properties\<close>

text \<open>What \<open>Bind\<close> and the options return does not matter, only what they do.\<close>

definition failing :: "goerror \<Rightarrow> 'w os_calls \<Rightarrow> 'w os_calls" where
  "failing e os = os\<lparr>sys_SetsockoptInt := \<lambda>s opt v w. (fst (sys_SetsockoptInt os s opt v w), e),
                     sys_Bind := \<lambda>s port w. (fst (sys_Bind os s port w), e)\<rparr>"

text \<open>A socket that could not be configured or bound looks like one that could: on Linux and macOS the
  connection and the lines printed are the same whether or not the options and \<open>Bind\<close> return an
  error, and where \<open>Socket\<close> succeeds nothing is printed but an error of the last call. Where
  \<open>Socket\<close> fails its error is printed again as that of every later call. On Windows a failure of
  \<open>ListenPacket\<close> is printed exactly once.\<close>

theorem bind_failure_unreported:
  "DialBroadcastUDP_linux (failing e os) port w = DialBroadcastUDP_linux os port w \<and>
   DialBroadcastUDP_darwin (failing e os) port w = DialBroadcastUDP_darwin os port w \<and>
   (\<exists>err. snd (snd (DialBroadcastUDP_linux os port w)) =
      (case snd (snd (sys_Socket os w)) of
         None \<Rightarrow> []
       | Some e \<Rightarrow> [(''Error: Socket:'', e), (''Error: SetSockOpt REUSEADDR:'', e),
                   (''Error: SetSockOpt BROADCAST:'', e), (''Error: Bind:'', e)]) @
      report ''Error: FilePacketConn:'' err) \<and>
   length (snd (snd (DialBroadcastUDP_windows os port w))) =
     (if snd (snd (sys_ListenPacket os (windows_control os) ''udp4'' ('':'' @ show_int port) w)) = None then 0 else 1)"
proof (intro conjI)
  show "DialBroadcastUDP_linux (failing e os) port w = DialBroadcastUDP_linux os port w"
    by (simp add: DialBroadcastUDP_linux_def failing_def case_prod_beta Let_def)
  show "DialBroadcastUDP_darwin (failing e os) port w = DialBroadcastUDP_darwin os port w"
    by (simp add: DialBroadcastUDP_darwin_def failing_def case_prod_beta Let_def)
  show "\<exists>err. snd (snd (DialBroadcastUDP_linux os port w)) =
      (case snd (snd (sys_Socket os w)) of
         None \<Rightarrow> []
       | Some e \<Rightarrow> [(''Error: Socket:'', e), (''Error: SetSockOpt REUSEADDR:'', e),
                   (''Error: SetSockOpt BROADCAST:'', e), (''Error: Bind:'', e)]) @
      report ''Error: FilePacketConn:'' err"
    by (simp add: DialBroadcastUDP_linux_def report_def case_prod_beta Let_def split: option.split) blast
  show "length (snd (snd (DialBroadcastUDP_windows os port w))) =
     (if snd (snd (sys_ListenPacket os (windows_control os) ''udp4'' ('':'' @ show_int port) w)) = None then 0 else 1)"
    by (auto simp: DialBroadcastUDP_windows_def report_def case_prod_beta split: option.split)
qed

end
