(* ===== verification/Spec2Isabelle.thy ===== *)
theory Spec2Isabelle
  imports Prelude Go_Time Strconv Elevator_Sys Elev_Requests Elevio Elevator_FSM FSM_Invariant Service
    Single_Elevator Elevator_Loop Messages Transmitters State_Server HRA Node_Data Node_Programs
    Master_Node Node_Main Lift Calls_Elevator Calls_Node Station Channels Station_Calls System Hardware_Link Station_Rest
    Recovery Assignment Completion Election Shared_Maps Sampler Door_Timing Polling Heartbeat Driver Bcast Json Wiring Peers Localip Conn
begin

text \<open>
  A model of the Go program in src/: a fault-tolerant system of lifts. Every lift is a node
  with a local elevator; the nodes talk by UDP broadcast, one of them is master and distributes
  the hall calls, the others are slaves; a node without contact is disconnected and one with a
  stuck door is inactive.

  \<^bold>\<open>The program and its theories.\<close>

  \<^item> \<open>Prelude\<close>: config/config.go's sizes; Go arrays with bounds checks (\<open>arr_get\<close>, \<open>mat_set\<close>: \<open>None\<close>
    is the run-time panic), Go maps as association lists (locale \<open>go_map\<close>, interpreted as \<open>gomap\<close>),
    loops with panics (\<open>fold_opt\<close>), runs of a goroutine over its inputs (\<open>run_steps\<close>).
  \<^item> \<open>Go_Time\<close>, \<open>Strconv\<close>: what the code uses of packages time, strconv and fmt; util/timer/timer.go.
  \<^item> \<open>Elevator_Sys\<close>, \<open>Elev_Requests\<close>, \<open>Elevio\<close>: package elevator, that is the structures and enumerations
    (elevator_sys.go), the request logic (requests.go) and the driver (elevio.go), whose packets
    are decoded by the abstract \<open>panel\<close>.
  \<^item> \<open>Elevator_FSM\<close>, \<open>FSM_Invariant\<close>, \<open>Service\<close>: elevator_fsm/elevator_fsm.go. A handler returns the new
    \<open>elev\<close> and its effects in order; \<open>plant\<close> is the panel and the two door timers under those
    effects. The invariant \<open>fsm_inv\<close>, \<open>plant_inv\<close> is kept by every handler; \<open>effort\<close> is the measure by
    which every request is served.
  \<^item> \<open>Single_Elevator\<close>, \<open>Elevator_Loop\<close>: singleelevator/elevatorprogram.go, one step per case of the
    \<open>select\<close>; \<open>ep_reach\<close> are the reachable states. The two loops over an order are instances of the
    locale \<open>cell_loop\<close>.
  \<^item> \<open>Messages\<close>: Network/messages/messagetypes.go, \<open>GenerateMessageID\<close> and \<open>IncomingAckDistributor\<close>.
  \<^item> \<open>Transmitters\<close>: Network/messagehandler/transmitters.go. The two transmitters that wait for
    acknowledgements are instances of the locale \<open>resender\<close>, over the multiset of outstanding timers.
  \<^item> \<open>State_Server\<close>: \<open>NodeElevStateServer\<close> of Network/messagehandler/receivers.go with a clock.
  \<^item> \<open>HRA\<close>: costFNS/hallRequestAssigner/hallRequestAssigner.go around the external assigner.
  \<^item> \<open>Node_Data\<close>, \<open>Node_Programs\<close>, \<open>Master_Node\<close>, \<open>Node_Main\<close>: package node and main.go. \<open>node_in\<close> has one
    constructor per channel a node receives from and per timer, \<open>node_out\<close> one per channel it sends
    on. Each of the four programs is its local variables as a record, entry code, one step per case
    of its \<open>select\<close>, exit code; all are instances of the locale \<open>node_program\<close>. The ring buffer of
    master.go is an instance of \<open>id_window\<close>. \<open>main_step\<close> is the loop of main.go.
  \<^item> \<open>Lift\<close>: a node and its elevator as two goroutines over the three channels \<open>MakeNode\<close> puts between
    them, with the channels' capacities and blocking sends; \<open>lift_run\<close> are the reachable states.
  \<^item> \<open>Station\<close>, \<open>Channels\<close>: all goroutines \<open>MakeNode\<close> starts, wired by its 32 channels: what each still has to
    send, its timers, what the receiver and the distributor of acknowledgements wait to pass on. A send
    takes place when the receiving goroutine is at its \<open>select\<close>, or into the buffer of the one buffered
    channel. \<open>Channels\<close> is the graph of who can wait for whom.
  \<^item> \<open>System\<close>: the stations of all nodes and the network, which keeps every broadcast and may hand it to any
    node at any time, any number of times or never; nodes crash and start again. \<open>sys_run\<close> are the
    reachable states, \<open>presses\<close> the history of button presses. In it the connections of the nodes to their
    elevator servers hold and floor sensors report configured floors.
  \<^item> \<open>Hardware_Link\<close>: the system without these two assumptions: \<open>hw_step\<close> adds starts without an elevator server,
    connections that get lost, the panics of \<open>Init\<close>, \<open>read\<close> and \<open>write\<close> that follow (\<open>packets_of\<close> are the packets
    a step writes), and the broadcaster's panic on long packets. \<open>hw_run_sys\<close> takes a run of it, as long as the sensors
    reported configured floors, back to one of \<open>System\<close>.
  \<^item> \<open>Calls_Elevator\<close>, \<open>Calls_Node\<close>, \<open>Station_Calls\<close>: the invariant of that system, that every request stored
    or on its way is among the calls pressed, kept by every step of every goroutine.
  \<^item> \<open>Station_Rest\<close>: what a station does when it is left alone, and the two jams.
  \<^item> \<open>Recovery\<close>, \<open>Assignment\<close>, \<open>Completion\<close>: four journeys through the system. Each is a definition that lists its
    steps, those of the two nodes and the arrivals of the messages between them, and no others
    (\<open>press_journey\<close>, \<open>restart_journey\<close>, \<open>call_journey\<close>, \<open>completion_journey\<close>); the theorems say that it can be
    taken, what it broadcasts and where it ends: of a hall call to its master and its lamp, of
    cab calls back to a node that crashed, of a call from the master to the elevator that is to serve it,
    and of the report that it is served back to the master, with the lamp that goes out.
  \<^item> \<open>Election\<close>: the ticker and the decision timer of \<open>DisconnectedProgram\<close> with their instants, and the
    system after the crash of a node whose request outranks the others, \<open>stalled\<close>.
  \<^item> \<open>Heartbeat\<close>: the global hall requests a master repeats and the timer of a slave that hears them, with
    the instants at which the timers are due.
  \<^item> \<open>Shared_Maps\<close>: the state server and \<open>ComputeHallAssignments\<close> over a memory of maps, since what the server
    sends is a reference; \<open>deref\<close> takes a state back to that of \<open>State_Server\<close>.
  \<^item> \<open>Sampler\<close>: the values the global \<open>elev\<close> takes while a handler runs, and what \<open>transmitElevatorState\<close>
    can copy of them.
  \<^item> \<open>Door_Timing\<close>: the two timers of the door with the instants at which they are due; a timer that is due is
    taken at most \<open>lag\<close> late.
  \<^item> \<open>Polling\<close>: the rounds of \<open>PollButtons\<close> at their instants, and which presses they catch.
  \<^item> \<open>Driver\<close>: \<open>read\<close> and \<open>write\<close> of elevio.go with their mutex over the byte streams of one connection, until it
    is lost.
  \<^item> \<open>Bcast\<close>, \<open>Json\<close>, \<open>Wiring\<close>, \<open>Peers\<close>, \<open>Localip\<close>, \<open>Conn\<close>: Network/network: the check of channel types and the tagging of
    messages, the JSON text of messages without a time and of the tag, the channels \<open>MakeNode\<close> passes to it, the peer list, the local address, the sockets. The
    peer list is not used by the program.

  \<^bold>\<open>How they interact.\<close> The elevator's events are inputs \<open>ElevatorEventRx\<close> of the node, the node's
  outputs \<open>ElevLightAndAssignmentUpdateTx\<close> are inputs \<open>UpdateRx\<close> of the elevator; the node's
  \<open>commandToServerTx\<close> are \<open>CommandRx\<close> of the state server, whose outputs come back as \<open>NetworkEventRx\<close>
  and \<open>NodeElevStateUpdateRx\<close>; \<open>HallAssignmentTx\<close> and \<open>HallAssignmentCompleteTx\<close> go to the transmitters,
  whose \<open>Transmit\<close> is a broadcast. \<open>Station\<close> puts these steps together with the channels' blocking,
  \<open>System\<close> the stations with the network. The properties of this theory follow a message along such a
  path.

  \<^bold>\<open>What is shown.\<close> For the elevator: safety in every reachable state, no panic on any well-formed
  input, service of every request, exactness of the request logic and of hall orders. For the
  node: no panic, its state machine, which messages each state sends, that exactly one of a group
  of disconnected nodes becomes master. For the messages: identifiers route acknowledgements to the
  right transmitter, messages are resent until acknowledged and not after, a completion is
  processed once as long as no four others came in between, assignments and cab calls reach the node they are for. For a lift: node and
  elevator never panic together, what each sends the other is well-formed, and exactly when both
  are stuck. For the system: a node panics exactly when it needs its elevator server and that cannot be reached or
  when a packet is too long, whatever else is lost, repeated or reordered; no hall or cab
  call is ever served, believed in or shown on a lamp that nobody pressed; every message has the shape
  its receivers rely on; the goroutines of a node cannot keep each other busy, and a node left alone
  passes everything on or ends in one of two jams, which are for ever; a hall call pressed at a slave
  reaches its master and lights its lamp, a call the master hears of gets to the elevator the
  assigner gives it to, a served call is cleared and its lamp goes out, and a node that crashed gets
  its cab calls back, in each case by one explicit run in which no other step is taken. If the loop of a
  disconnected node takes its timers less than 500 milliseconds late, it asks once in every 500 milliseconds and decides
  every 2 seconds, each time later by no more than that delay. A door stays open for
  3 seconds after it was opened or kept open, and a button held for 20 milliseconds is reported once.

  Some theorems state defects of the code: the door lamp that goes dark on a reopened door, a stuck
  door that is detected only once, inactive nodes that never return, hall calls dropped at a connection
  request, throttled calls that are not distributed, a timer that fires once per start, an election
  without a tie break, deadlocks of the node with its elevator and with its state server, panics on
  malformed messages, answers of the hardware shifted by a short read, socket errors that are not reported, two masters that
  stay, a heartbeat starved by updates, an election blocked for ever by the request of a crashed node,
  a map shared by two goroutines, samples of states no elevator is in, a clear door reported stuck.

  \<^bold>\<open>Bounds.\<close> \<open>serve\<close> and \<open>drive_run\<close> take fuel; 78 steps are enough because the effort is at most 6 per
  pending request, of which there are at most 12, plus 6, and every step lowers it. \<open>Station_Rest\<close> needs no
  fuel: it orders states by a multiset of the weights of what is outstanding.

  \<^bold>\<open>Parameters and what is left out.\<close> The elevator server (\<open>server\<close>), the assigner (\<open>run_hra\<close>), the
  operating system (\<open>goos\<close>), the clock (\<open>now\<close>), random numbers (\<open>rnd\<close>) and the JSON encoding of
  messages are parameters. The assigner is assumed to give no node a call that is not in the hall
  requests it is asked about (\<open>hra_within\<close>). Of the floor sensor \<open>Hardware_Link\<close> assumes that it reports configured floors
  only, and shows that it panics at another. Between the stations a message is a value of \<open>net_msg\<close>; that
  such a value comes out on the channel of its type, unchanged if it can be decoded there, is shown in \<open>Wiring\<close>; the
  time in a connection request loses its monotonic reading in JSON, so that times of different nodes are compared by the wall clock.
  In \<open>System\<close> each node has its own clock, which does not go back, and nodes have different identifiers;
  periodic goroutines may act at any time. A node boots with its door lamp off. Where goroutines
  share memory without a channel, \<open>System\<close> takes a step to be atomic: a sample of the elevator's state is
  one between two handlers, an update of the state server a copy; \<open>Sampler\<close> and \<open>Shared_Maps\<close> say what else
  they can be. Not modelled: printing of log lines other than
  in \<open>Conn\<close>; the tests and the usage example; packet loss and the assigner's own programs in D.
\<close>

section \<open>Properties that span components\<close>

text \<open>C10: A hall call completed by a slave's elevator is cleared by the master, and its
  retransmission stops: the event becomes a completion message, the transmitter gives it an
  identifier and sends it, the master clears exactly that call and acknowledges, the
  acknowledgement is routed back and the transmitter forgets the message. Whatever the master takes
  in afterwards, as long as it stays master and at most three completions with other identifiers are
  among it, a later copy is acknowledged and clears nothing, even when the call has been made again
  by then; the master's buffer remembers no more than four completions, so no more is claimed.\<close>

theorem completed_call_cleared:
  fixes f :: int and b :: ButtonType and rnd :: uint64
  defines "m \<equiv> \<lparr>hac_Floor = f, hac_HallButton = b, hac_MessageID = fst (GenerateMessageID HALL_ASSIGNMENT_COMPLETE rnd)\<rparr>"
  assumes call: "in_floors f" "b = ButtonHallUp \<or> b = ButtonHallDown"
    and rnd: "rnd < MSG_ID_PARTITION_SIZE"
    and inv: "master_inv mnode ml" and new: "hac_MessageID m \<notin> set (recent_ids (recentHACompleteBuffer ml))"
    and tx: "hac_ok tx"
  shows "\<exists>c tx' ml' out.
    SlaveProgram_step now snode sl (ElevatorEventRx (makeHallAssignmentCompleteEventMessage (mk_event f b))) =
      (snode, sl, [HallAssignmentCompleteTx c], Stay) \<and>
    HallAssignmentCompleteTransmitter_step tx (HacNew c rnd) = (tx', [Transmit m, After500ms (hac_MessageID m)]) \<and>
    MasterProgram_step goos run_hra later mnode ml (HallAssignmentCompleteRx m) =
      Some (mnode\<lparr>GlobalHallRequests := mat_put (GlobalHallRequests mnode) f b False\<rparr>, ml', out, Stay) \<and>
    AckTx \<lparr>ack_MessageID = hac_MessageID m, ack_NodeID = ID mnode\<rparr> \<in> set out \<and>
    IncomingAckDistributor \<lparr>ack_MessageID = hac_MessageID m, ack_NodeID = ID mnode\<rparr> = Some HallAssignmentCompleteAck \<and>
    hac_waiting (fst (HallAssignmentCompleteTransmitter_step tx'
      (HacAck \<lparr>ack_MessageID = hac_MessageID m, ack_NodeID = ID mnode\<rparr>))) (hac_MessageID m) = None \<and>
    (\<forall>ins node2 ml2 t.
       master_run goos run_hra (mnode\<lparr>GlobalHallRequests := mat_put (GlobalHallRequests mnode) f b False\<rparr>) ml' ins = Some (node2, ml2) \<longrightarrow>
       length (filter (completes_other (hac_MessageID m)) ins) \<le> 3 \<longrightarrow>
       MasterProgram_step goos run_hra t node2 ml2 (HallAssignmentCompleteRx m) =
         Some (node2, ml2, [AckTx \<lparr>ack_MessageID = hac_MessageID m, ack_NodeID = ID mnode\<rparr>], Stay))"
proof -
  let ?c = "\<lparr>hac_Floor = f, hac_HallButton = b, hac_MessageID = 0\<rparr>"
  let ?g = "mat_put (GlobalHallRequests mnode) f b False"
  let ?tx = "tx\<lparr>completedActiveAssignments := AList.update (hac_MessageID m) m (completedActiveAssignments tx)\<rparr>"
  have val: "unat (hac_MessageID m) div 2 ^ 61 = 3"
    using generated_partition [OF _ rnd, of HALL_ASSIGNMENT_COMPLETE] by (simp add: m_def)
  have nz: "hac_MessageID m \<noteq> 0" using val by auto
  have wf: "wf_mat NUM_FLOORS 2 (GlobalHallRequests mnode)" and buf: "buf_ok (recentHACompleteBuffer ml)"
    using inv by (simp_all add: master_inv_def wf_node_def)
  have "hac_HallButton m = ButtonCab \<or> in_floors (hac_Floor m) \<and> 0 \<le> hac_HallButton m \<and> hac_HallButton m < 2"
    using call by (auto simp: m_def)
  from complete_process [OF wf buf this] nz new call(2) obtain buf' where
    p: "ProcessHAComplete (GlobalHallRequests mnode) (recentHACompleteBuffer ml) m = Some (?g, buf', True)" by (auto simp: m_def)
  from added_first [OF p buf] have first: "buf_ok buf'" "hac_MessageID m \<in> set (take 1 (recent_ids buf'))" by simp_all
  let ?ml = "ml\<lparr>recentHACompleteBuffer := buf'\<rparr>"
    and ?ack = "\<lparr>ack_MessageID = hac_MessageID m, ack_NodeID = ID mnode\<rparr>"
    and ?mnode = "mnode\<lparr>GlobalHallRequests := ?g\<rparr>"
  have "SlaveProgram_step now snode sl (ElevatorEventRx (makeHallAssignmentCompleteEventMessage (mk_event f b))) =
      (snode, sl, [HallAssignmentCompleteTx ?c], Stay)" using call(2) by (auto simp: make_messages)
  moreover have "HallAssignmentCompleteTransmitter_step tx (HacNew ?c rnd) = (?tx, [Transmit m, After500ms (hac_MessageID m)])"
    by (simp add: m_def Let_def)
  moreover have "MasterProgram_step goos run_hra later mnode ml (HallAssignmentCompleteRx m) =
      Some (?mnode, ?ml, publish ?mnode @ [AckTx ?ack], Stay)"
    by (simp add: p Let_def)
  moreover have "AckTx ?ack \<in> set (publish ?mnode @ [AckTx ?ack])" by simp
  moreover have "IncomingAckDistributor ?ack = Some HallAssignmentCompleteAck"
    using val by (simp add: distributor_by_value)
  moreover have "hac_waiting (fst (HallAssignmentCompleteTransmitter_step ?tx (HacAck ?ack))) (hac_MessageID m) = None"
    using tx by (simp add: hac_waiting_def hac_ok_def map_laws)
  moreover have "MasterProgram_step goos run_hra t node2 ml2 (HallAssignmentCompleteRx m) = Some (node2, ml2, [AckTx ?ack], Stay)"
    if "master_run goos run_hra ?mnode ?ml ins = Some (node2, ml2)" "length (filter (completes_other (hac_MessageID m)) ins) \<le> 3"
    for ins node2 ml2 t
    using copy_ignored [OF that(1), of m t] first that(2) by simp
  ultimately show ?thesis by blast
qed

text \<open>
  The call of floor 3 going down is completed, another call is completed and the first call is made
  again; then a copy of the first completion arrives.
\<close>

definition completion_of :: "int \<Rightarrow> uint64 \<Rightarrow> HallAssignmentComplete" where
  "completion_of f rnd = \<lparr>hac_Floor = f, hac_HallButton = ButtonHallDown,
     hac_MessageID = fst (GenerateMessageID HALL_ASSIGNMENT_COMPLETE rnd)\<rparr>"

definition made_again :: "(Time \<times> node_in) list" where
  "made_again = [(0, HallAssignmentCompleteRx (completion_of 2 6)), (0, NewHallReqRx \<lparr>nhr_Floor = 3, nhr_HallButton = ButtonHallDown\<rparr>)]"

theorem completed_call_cleared_witness:
  "\<exists>ml' out node2 ml2.
     MasterProgram_step ''linux'' everything_to_all 0 busy_node busy_master (HallAssignmentCompleteRx (completion_of 3 5)) =
       Some (busy_node\<lparr>GlobalHallRequests := mat_put all_calls 3 ButtonHallDown False\<rparr>, ml', out, Stay) \<and>
     master_run ''linux'' everything_to_all (busy_node\<lparr>GlobalHallRequests := mat_put all_calls 3 ButtonHallDown False\<rparr>) ml' made_again =
       Some (node2, ml2) \<and> mat_at (GlobalHallRequests node2) 3 ButtonHallDown \<and>
     MasterProgram_step ''linux'' everything_to_all 0 node2 ml2 (HallAssignmentCompleteRx (completion_of 3 5)) =
       Some (node2, ml2, [AckTx \<lparr>ack_MessageID = hac_MessageID (completion_of 3 5), ack_NodeID = 1\<rparr>], Stay)"
proof -
  let ?g = "mat_put all_calls 3 ButtonHallDown False"
  have node: "GlobalHallRequests busy_node = all_calls" "ID busy_node = 1" by (simp_all add: busy_node_def MakeNode_def)
  have "wf_node busy_node" by (simp add: wf_node_def busy_node_def all_calls_wf)
  then have inv: "master_inv busy_node busy_master"
    using master_inv_entry by (simp add: busy_master_def master_inv_def)
  moreover have "(5 :: uint64) < MSG_ID_PARTITION_SIZE" by (simp add: partition_size)
  moreover have "fst (GenerateMessageID HALL_ASSIGNMENT_COMPLETE 5) \<notin> set (recent_ids (recentHACompleteBuffer busy_master))"
    by (simp add: busy_master_def MasterProgram_entry_def recent_new GenerateMessageID_def partition_size)
  ultimately obtain ml' out where
    first: "MasterProgram_step ''linux'' everything_to_all 0 busy_node busy_master (HallAssignmentCompleteRx (completion_of 3 5)) =
      Some (busy_node\<lparr>GlobalHallRequests := ?g\<rparr>, ml', out, Stay)"
    and copy: "\<And>ins node2 ml2 t. master_run ''linux'' everything_to_all (busy_node\<lparr>GlobalHallRequests := ?g\<rparr>) ml' ins = Some (node2, ml2) \<Longrightarrow>
      length (filter (completes_other (hac_MessageID (completion_of 3 5))) ins) \<le> 3 \<Longrightarrow>
      MasterProgram_step ''linux'' everything_to_all t node2 ml2 (HallAssignmentCompleteRx (completion_of 3 5)) =
        Some (node2, ml2, [AckTx \<lparr>ack_MessageID = hac_MessageID (completion_of 3 5), ack_NodeID = 1\<rparr>], Stay)"
    using completed_call_cleared [of 3 ButtonHallDown 5 busy_node busy_master hac_init 0 "MakeNode 2"
        "fst SlaveProgram_entry" "''linux''" everything_to_all 0]
    by (auto simp: in_floors_def hac_ok_init node completion_of_def simp del: MasterProgram_step.simps SlaveProgram_step.simps
        HallAssignmentCompleteTransmitter_step.simps)
  have ok: "wf_node_in (HallAssignmentCompleteRx (completion_of 3 5))"
    by (simp add: wf_node_in_def hall_call_ok_def completion_of_def in_floors_def)
  have "hra_executable ''linux'' \<noteq> None" by (simp add: hra_executable_def)
  from master_step_ok [OF inv this ok] first have "master_inv (busy_node\<lparr>GlobalHallRequests := ?g\<rparr>) ml'" by auto
  then have "wf_mat NUM_FLOORS 2 ?g" "buf_ok (recentHACompleteBuffer ml')" by (simp_all add: master_inv_def wf_node_def)
  from complete_process [OF this, of "completion_of 2 6"] obtain g buf new where
    p: "ProcessHAComplete ?g (recentHACompleteBuffer ml') (completion_of 2 6) = Some (g, buf, new)" "wf_mat NUM_FLOORS 2 g"
    by (fastforce simp: completion_of_def in_floors_def)
  have "mat_at (mat_put g 3 ButtonHallDown True) 3 ButtonHallDown" by (subst mat_at_put [OF p(2)]) simp_all
  with p have "\<exists>node2 ml2. master_run ''linux'' everything_to_all (busy_node\<lparr>GlobalHallRequests := ?g\<rparr>) ml' made_again = Some (node2, ml2) \<and>
      mat_at (GlobalHallRequests node2) 3 ButtonHallDown"
    by (simp add: made_again_def new_request_process in_floors_def Let_def case_prod_beta)
  moreover have "length (filter (completes_other (hac_MessageID (completion_of 3 5))) made_again) \<le> 3"
    by (simp add: made_again_def)
  ultimately show ?thesis using first copy by blast
qed

text \<open>C11: A hall assignment made by the master reaches the slave's elevator and its retransmission stops:
  the enabled transmitter gives it an identifier and sends it, the slave that knows the calls
  acknowledges it and hands it to its elevator, the elevator has every assigned call pending or
  reports it served, and the acknowledgement is routed back and removes the assignment, and only it.\<close>

theorem assignment_delivered:
  fixes rnd :: uint64 and snode :: NodeData and h :: hall_matrix
  defines "a \<equiv> \<lparr>nha_NodeID = ID snode, nha_HallAssignment = h, nha_MessageID = 0\<rparr>"
  defines "m \<equiv> a\<lparr>nha_MessageID := fst (GenerateMessageID NEW_HALL_ASSIGNMENT rnd)\<rparr>"
  defines "update \<equiv> makeHallAssignmentAndLightMessage h (GlobalHallRequests snode)"
  defines "ack \<equiv> \<lparr>ack_MessageID = nha_MessageID m, ack_NodeID = ID snode\<rparr>"
  assumes tx: "hat_ok tx" "hat_enable tx" and rnd: "rnd < MSG_ID_PARTITION_SIZE"
    and known: "canAcceptHallAssignments h (GlobalHallRequests snode)"
    and new: "nha_MessageID m \<noteq> lastHallAssignmentMessageID sl"
    and elev: "ep_reach pl s" "\<not> door_lamp (pnl pl)"
  shows "\<exists>tx' sl' s' out.
    HallAssignmentsTransmitter_step tx (HatNew a rnd) = (tx', [Transmit m, After500ms (nha_MessageID m)]) \<and>
    SlaveProgram_step now snode sl (HallAssignmentsRx m) =
      (snode, sl', [AckTx ack, ElevLightAndAssignmentUpdateTx update], Stay) \<and>
    ElevatorProgram_step s (UpdateRx update) = Some (s', out) \<and>
    (\<forall>f b. in_floors f \<longrightarrow> b = ButtonHallUp \<or> b = ButtonHallDown \<longrightarrow> mat_at h f b \<longrightarrow>
       req (elev s') f b \<or> makeHallAssignmentCompleteEventMessage (mk_event f b) \<in> set out) \<and>
    IncomingAckDistributor ack = Some hallAssignmentsAck \<and>
    (\<forall>n. map_of (activeAssignments (fst (HallAssignmentsTransmitter_step tx' (HatAck ack)))) n =
       (if n = ID snode then None else map_of (activeAssignments tx) n))"
proof -
  let ?tx = "tx\<lparr>activeAssignments := AList.update (ID snode) m (activeAssignments tx)\<rparr>"
  have v: "valid_map (activeAssignments tx)" using tx(1) by (simp add: hat_ok_def)
  have "OrderType update = HallOrder" "HallAssignments update = h"
    by (simp_all add: update_def makeHallAssignmentAndLightMessage_def)
  with hall_order_effect [OF reach_inv [OF elev], of update] obtain s' out where
    e: "ElevatorProgram_step s (UpdateRx update) = Some (s', out)" and
    calls: "\<forall>f b. in_floors f \<longrightarrow> b = ButtonHallUp \<or> b = ButtonHallDown \<longrightarrow> mat_at h f b \<longrightarrow>
       req (elev s') f b \<or> makeHallAssignmentCompleteEventMessage (mk_event f b) \<in> set out"
    by (auto split: if_splits)
  have "HallAssignmentsTransmitter_step tx (HatNew a rnd) = (?tx, [Transmit m, After500ms (nha_MessageID m)])"
    using tx(2) by (simp add: m_def a_def Let_def)
  moreover have "SlaveProgram_step now snode sl (HallAssignmentsRx m) =
      (snode, sl\<lparr>lastHallAssignmentMessageID := nha_MessageID m\<rparr>, [AckTx ack, ElevLightAndAssignmentUpdateTx update], Stay)"
    using known new by (simp add: m_def a_def ack_def update_def Let_def)
  moreover have "IncomingAckDistributor ack = Some hallAssignmentsAck"
    using generated_partition [OF _ rnd, of NEW_HALL_ASSIGNMENT] by (simp add: distributor_by_value ack_def m_def)
  moreover have "map_of (activeAssignments (fst (HallAssignmentsTransmitter_step ?tx (HatAck ack)))) n =
       (if n = ID snode then None else map_of (activeAssignments tx) n)" for n
    using v by (simp add: ack_def gomap.lookup_store gomap.lookup_remove gomap.valid_store)
  ultimately show ?thesis using e calls by blast
qed

theorem assignment_delivered_witness:
  "\<exists>s' out. ElevatorProgram_step called_up (UpdateRx (makeHallAssignmentAndLightMessage all_calls all_calls)) = Some (s', out) \<and>
     (req (elev s') 3 ButtonHallDown \<or> makeHallAssignmentCompleteEventMessage (mk_event 3 ButtonHallDown) \<in> set out)"
proof -
  have at: "mat_at all_calls 3 ButtonHallDown" by (simp add: all_calls_def mat_at_def)
  have "canAcceptHallAssignments all_calls (GlobalHallRequests busy_node)"
    by (simp add: canAccept_iff busy_node_def)
  moreover have "(5 :: uint64) < MSG_ID_PARTITION_SIZE" by (simp add: partition_size)
  moreover have "hat_ok (hat_init\<lparr>hat_enable := True\<rparr>)" by (simp add: hat_ok_def hat_init_def)
  ultimately show ?thesis
    using assignment_delivered [of "hat_init\<lparr>hat_enable := True\<rparr>" 5 all_calls busy_node "fst SlaveProgram_entry"
        dark_plant called_up 0] called_up_reach dark at
    by (auto simp: SlaveProgram_entry_def GenerateMessageID_def busy_node_def in_floors_def
        simp del: ElevatorProgram_step.simps SlaveProgram_step.simps HallAssignmentsTransmitter_step.simps)
qed

text \<open>C28: A node that has become inactive stays inactive for ever: whatever its elevator goes through
  after its start, none of the events it reports makes the inactive program leave, because the
  elevator never reports that its door is free again.\<close>

theorem inactive_for_ever:
  assumes "run_steps ElevatorProgram_step s ins = Some (s', out)"
  shows "list_all (\<lambda>e. InactiveProgram_step node (ElevatorEventRx e) = Stay) out"
proof -
  have "list_all not_freed out" using assms
  proof (induction ins arbitrary: s out)
    case Nil
    then show ?case by simp
  next
    case (Cons i ins)
    then obtain s1 o1 o2 where "ElevatorProgram_step s i = Some (s1, o1)"
      "run_steps ElevatorProgram_step s1 ins = Some (s', o2)" "out = o1 @ o2"
      by (auto split: Option.bind_splits prod.splits)
    with step_not_freed Cons.IH show ?case by fastforce
  qed
  then show ?thesis by (auto simp: list_all_iff not_freed_def)
qed

theorem inactive_for_ever_witness:
  "\<exists>s'. run_steps ElevatorProgram_step stuck_reported [DoorStuckTimerFires, ObstructionRx False] =
     Some (s', [makeDoorStuckMessage True]) \<and>
   list_all (\<lambda>e. InactiveProgram_step (MakeNode 1) (ElevatorEventRx e) = Stay) [makeDoorStuckMessage True]"
proof -
  have "\<exists>s'. run_steps ElevatorProgram_step stuck_reported [DoorStuckTimerFires, ObstructionRx False] =
      Some (s', [makeDoorStuckMessage True])" by simp
  then obtain s' where run: "run_steps ElevatorProgram_step stuck_reported [DoorStuckTimerFires, ObstructionRx False] =
      Some (s', [makeDoorStuckMessage True])" by blast
  from inactive_for_ever [OF run, of "MakeNode 1"] run show ?thesis by blast
qed

text \<open>C26: When another node asks to connect, the master's own elevator loses its hall calls: the update
  with all known nodes makes the master send its elevator an empty hall order, which removes every
  hall call the elevator had accepted without reporting it, and the master neither asks for a
  redistribution nor publishes the calls it still holds.\<close>

theorem connection_request_drops_orders:
  assumes "ep_reach pl s" "\<not> door_lamp (pnl pl)" "\<not> OnlyActiveNodes u"
  shows "\<exists>l' out s' evs.
    MasterProgram_step goos run_hra now node l (NodeElevStateUpdateRx u) = Some (node, l', out, Stay) \<and>
    hd out = ElevLightAndAssignmentUpdateTx zero_update \<and>
    shouldDistributeHallRequests l' = shouldDistributeHallRequests l \<and>
    GlobalHallRequestTx \<lparr>ghr_HallRequests = zero_mat NUM_FLOORS 2\<rparr> \<in> set out \<and>
    (\<forall>c. commandToServerTx c \<notin> set out) \<and>
    ElevatorProgram_step s (UpdateRx zero_update) = Some (s', evs) \<and>
    (\<forall>f b. in_floors f \<longrightarrow> b = ButtonHallUp \<or> b = ButtonHallDown \<longrightarrow>
       \<not> req (elev s') f b \<and> makeHallAssignmentCompleteEventMessage (mk_event f b) \<notin> set evs)"
proof -
  have z: "OrderType zero_update = HallOrder" "\<And>f b. in_floors f \<Longrightarrow> b = ButtonHallUp \<or> b = ButtonHallDown \<Longrightarrow>
      \<not> mat_at (HallAssignments zero_update) f b"
    by (auto simp: zero_update_def in_floors_def mat_at_zero)
  from hall_order_effect [OF reach_inv [OF assms(1,2)] z(1)] z(2) obtain s' evs where
    e: "ElevatorProgram_step s (UpdateRx zero_update) = Some (s', evs)"
      "\<forall>f b. in_floors f \<longrightarrow> b = ButtonHallUp \<or> b = ButtonHallDown \<longrightarrow>
       \<not> req (elev s') f b \<and> makeHallAssignmentCompleteEventMessage (mk_event f b) \<notin> set evs"
    by (metis (no_types, lifting))
  have "\<exists>l' out. MasterProgram_step goos run_hra now node l (NodeElevStateUpdateRx u) = Some (node, l', out, Stay) \<and>
    hd out = ElevLightAndAssignmentUpdateTx zero_update \<and>
    shouldDistributeHallRequests l' = shouldDistributeHallRequests l \<and>
    GlobalHallRequestTx \<lparr>ghr_HallRequests = zero_mat NUM_FLOORS 2\<rparr> \<in> set out \<and>
    (\<forall>c. commandToServerTx c \<notin> set out)"
    using assms(3) by (simp add: ComputeHallAssignments_def) auto
  with e show ?thesis by blast
qed

theorem connection_request_drops_orders_witness:
  "req (elev called_up) 0 ButtonHallUp \<and>
   (\<exists>s' evs. ElevatorProgram_step called_up (UpdateRx zero_update) = Some (s', evs) \<and> \<not> req (elev s') 0 ButtonHallUp)"
proof -
  have "\<not> OnlyActiveNodes node_2_known" by (simp add: node_2_known_def makeAllElevStatesUpdateMessage_def)
  from connection_request_drops_orders [OF called_up_reach dark this, of "''linux''" everything_to_all 0 busy_node asked_master]
  obtain s' evs where "ElevatorProgram_step called_up (UpdateRx zero_update) = Some (s', evs)"
    "\<forall>f b. in_floors f \<longrightarrow> b = ButtonHallUp \<or> b = ButtonHallDown \<longrightarrow>
       \<not> req (elev s') f b \<and> makeHallAssignmentCompleteEventMessage (mk_event f b) \<notin> set evs" by blast
  moreover have "in_floors 0" by (simp add: in_floors_def)
  ultimately have "ElevatorProgram_step called_up (UpdateRx zero_update) = Some (s', evs) \<and> \<not> req (elev s') 0 ButtonHallUp" by blast
  moreover have "req (elev called_up) 0 ButtonHallUp" by (simp add: called_up_elev req_def mat_at_def)
  ultimately show ?thesis by blast
qed

end
